(* ===== verification/Signet_Prelude.thy ===== *)
theory Signet_Prelude
  imports Main "HOL-Library.Word"
begin

text \<open>
  Shared vocabulary of the development: Rust's strings and byte vectors, \<open>Result\<close>, big-endian
  encodings, \<open>str::trim\<close>, the third-party functions the service calls (a record of parameters,
  with their documented behaviour as named hypotheses), and the generic lemmas on lists, results
  and byte strings that the component theories use.

  A Rust \<open>str\<close> is the list of its UTF-8 bytes (a \<open>string\<close>, whose characters are bytes), so
  \<open>length\<close> is \<open>str::len\<close>. A \<open>Vec<u8>\<close> is a list of 8-bit words. A \<open>Result<A, E>\<close> is
  \<open>E + A\<close>, with \<open>Err\<close> for \<open>Inl\<close> and \<open>Ok\<close> for \<open>Inr\<close>.
\<close>

named_theorems frame_simps \<open>which parts of a state an operation leaves alone\<close>
named_theorems unique_intros \<open>how a UNIQUE index survives the statements of the schema\<close>

subsection \<open>Types\<close>

type_synonym bytes = "8 word list"
type_synonym u32 = "32 word"
type_synonym u64 = "64 word"

abbreviation Err :: "'e \<Rightarrow> 'e + 'a" where "Err \<equiv> Inl"
abbreviation Ok :: "'a \<Rightarrow> 'e + 'a" where "Ok \<equiv> Inr"

definition i64_max :: int where "i64_max = 2 ^ 63 - 1"

subsection \<open>Results\<close>

text \<open>The \<open>?\<close> operator and \<open>map_err\<close>.\<close>

definition bind_res :: "'e + 'a \<Rightarrow> ('a \<Rightarrow> 'e + 'b) \<Rightarrow> 'e + 'b" where
  "bind_res m f = (case m of Err e \<Rightarrow> Err e | Ok x \<Rightarrow> f x)"

definition map_err :: "('e \<Rightarrow> 'f) \<Rightarrow> 'e + 'a \<Rightarrow> 'f + 'a" where
  "map_err g m = (case m of Err e \<Rightarrow> Err (g e) | Ok x \<Rightarrow> Ok x)"

definition ok_or :: "'e \<Rightarrow> 'a option \<Rightarrow> 'e + 'a" where
  "ok_or e m = (case m of None \<Rightarrow> Err e | Some x \<Rightarrow> Ok x)"

definition is_ok :: "'e + 'a \<Rightarrow> bool" where
  "is_ok m = (case m of Err _ \<Rightarrow> False | Ok _ \<Rightarrow> True)"

lemma bind_res_simps [simp]:
  "bind_res (Err e) f = Err e"
  "bind_res (Ok x) f = f x"
  by (simp_all add: bind_res_def)

lemma map_err_simps [simp]:
  "map_err g (Err e) = Err (g e)"
  "map_err g (Ok x) = Ok x"
  by (simp_all add: map_err_def)

lemma ok_or_simps [simp]:
  "ok_or e None = Err e"
  "ok_or e (Some x) = Ok x"
  by (simp_all add: ok_or_def)

lemma is_ok_simps [simp]:
  "is_ok (Ok x)"
  "\<not> is_ok (Err e)"
  by (simp_all add: is_ok_def)

lemma bind_res_assoc: "bind_res (bind_res m f) g = bind_res m (\<lambda>x. bind_res (f x) g)"
  by (simp add: bind_res_def split: sum.split)

lemma bind_res_Ok_iff: "bind_res m f = Ok y \<longleftrightarrow> (\<exists>x. m = Ok x \<and> f x = Ok y)"
  by (cases m) simp_all

lemma bind_res_Err_iff:
  "bind_res m f = Err e \<longleftrightarrow> m = Err e \<or> (\<exists>x. m = Ok x \<and> f x = Err e)"
  by (cases m) auto

lemma map_err_Ok_iff [simp]: "map_err g m = Ok y \<longleftrightarrow> m = Ok y"
  by (cases m) simp_all

lemma map_err_Err_iff: "map_err g m = Err e \<longleftrightarrow> (\<exists>e'. m = Err e' \<and> e = g e')"
  by (cases m) auto

lemma ok_or_Ok_iff [simp]: "ok_or e m = Ok y \<longleftrightarrow> m = Some y"
  by (cases m) simp_all

lemma is_ok_iff: "is_ok m \<longleftrightarrow> (\<exists>x. m = Ok x)"
  by (cases m) simp_all

subsection \<open>Strings and bytes\<close>

text \<open>\<open>str::as_bytes\<close>.\<close>

definition str_bytes :: "string \<Rightarrow> bytes" where
  "str_bytes s = map (\<lambda>c. word_of_nat (of_char c)) s"

lemma length_str_bytes [simp]: "length (str_bytes s) = length s"
  by (simp add: str_bytes_def)

lemma str_bytes_append [simp]: "str_bytes (s @ t) = str_bytes s @ str_bytes t"
  by (simp add: str_bytes_def)

lemma unat_byte_of_char: "unat (word_of_nat (of_char c) :: 8 word) = of_char c"
proof -
  have "(of_char c :: nat) < 256"
    by (rule nat_of_char_less_256)
  then show ?thesis
    by (simp add: unat_of_nat)
qed

lemma byte_of_char_inj: "inj (\<lambda>c. word_of_nat (of_char c) :: 8 word)"
proof (rule injI)
  fix c d
  assume "(word_of_nat (of_char c) :: 8 word) = word_of_nat (of_char d)"
  then have "(of_char c :: nat) = of_char d"
    by (metis unat_byte_of_char)
  then show "c = d" by simp
qed

lemma str_bytes_inj [simp]: "str_bytes s = str_bytes t \<longleftrightarrow> s = t"
  unfolding str_bytes_def by (rule inj_map_eq_map [OF byte_of_char_inj])

text \<open>
  \<open>to_be_bytes\<close>: the \<open>k\<close> low bytes of a number, most significant first; \<open>be_val\<close> reads
  them back. \<open>i64_be_bytes\<close> is \<open>i64::to_be_bytes\<close> (two's complement).
\<close>

primrec be_bytes :: "nat \<Rightarrow> nat \<Rightarrow> bytes" where
  "be_bytes 0 n = []"
| "be_bytes (Suc k) n = word_of_nat (n div 256 ^ k) # be_bytes k n"

primrec be_val :: "bytes \<Rightarrow> nat" where
  "be_val [] = 0"
| "be_val (b # bs) = unat b * 256 ^ length bs + be_val bs"

definition i64_be_bytes :: "int \<Rightarrow> bytes" where
  "i64_be_bytes i = be_bytes 8 (nat (i mod 2 ^ 64))"

definition in_i64 :: "int \<Rightarrow> bool" where
  "in_i64 i \<longleftrightarrow> - (2 ^ 63) \<le> i \<and> i < 2 ^ 63"

lemma length_be_bytes [simp]: "length (be_bytes k n) = k"
  by (induction k) simp_all

lemma be_val_be_bytes: "be_val (be_bytes k n) = n mod 256 ^ k"
proof (induction k)
  case 0
  then show ?case by simp
next
  case (Suc k)
  have "n mod 256 ^ Suc k = 256 ^ k * (n div 256 ^ k mod 256) + n mod 256 ^ k"
    by (simp add: mod_mult2_eq power_Suc2 del: power_Suc)
  with Suc show ?case by (simp add: unat_of_nat mult.commute)
qed

lemma be_bytes_inj: "\<lbrakk> be_bytes k m = be_bytes k n; m < 256 ^ k; n < 256 ^ k \<rbrakk> \<Longrightarrow> m = n"
  by (metis be_val_be_bytes mod_less)

lemma length_i64_be_bytes [simp]: "length (i64_be_bytes i) = 8"
  by (simp add: i64_be_bytes_def)

lemma i64_be_bytes_inj:
  assumes "i64_be_bytes i = i64_be_bytes j" and "in_i64 i" and "in_i64 j"
  shows "i = j"
proof -
  have bound: "nat (x mod 2 ^ 64) < 256 ^ 8" for x :: int
    by (simp add: nat_less_iff)
  have "nat (i mod 2 ^ 64) = nat (j mod 2 ^ 64)"
    using be_bytes_inj [OF assms(1) [unfolded i64_be_bytes_def] bound bound] .
  then have "i mod 2 ^ 64 = j mod 2 ^ 64"
    by simp
  then have "(2::int) ^ 64 dvd i - j"
    by (rule mod_eq_dvd_iff [THEN iffD1])
  then have "i - j = 0 \<or> 2 ^ 64 \<le> \<bar>i - j\<bar>"
    using dvd_imp_le_int [of "i - j" "2 ^ 64"] by auto
  with assms(2,3) show ?thesis
    by (auto simp: in_i64_def)
qed

subsection \<open>str::trim\<close>

text \<open>
  The characters with the Unicode property \<open>White_Space\<close>, by the length of their UTF-8
  encoding. \<open>trim_by\<close> drops a maximal run of them from the front of a string; the end of the
  string is the front of its reverse, with the patterns reversed too.
\<close>

definition ws1 :: "char \<Rightarrow> bool" where
  "ws1 a = (let n = of_char a :: nat in n = 32 \<or> (9 \<le> n \<and> n \<le> 13))"

definition ws2 :: "char \<Rightarrow> char \<Rightarrow> bool" where
  "ws2 a b = (of_char a = (0xC2 :: nat) \<and> of_char b \<in> {0x85, 0xA0 :: nat})"

definition ws3 :: "char \<Rightarrow> char \<Rightarrow> char \<Rightarrow> bool" where
  "ws3 a b c = (let x = of_char a :: nat; y = of_char b :: nat; z = of_char c :: nat in
     (x = 0xE1 \<and> y = 0x9A \<and> z = 0x80) \<or>
     (x = 0xE2 \<and> y = 0x80 \<and> ((0x80 \<le> z \<and> z \<le> 0x8A) \<or> z \<in> {0xA8, 0xA9, 0xAF})) \<or>
     (x = 0xE2 \<and> y = 0x81 \<and> z = 0x9F) \<or>
     (x = 0xE3 \<and> y = 0x80 \<and> z = 0x80))"

fun trim_by :: "(char \<Rightarrow> char \<Rightarrow> bool) \<Rightarrow> (char \<Rightarrow> char \<Rightarrow> char \<Rightarrow> bool) \<Rightarrow> string \<Rightarrow> string" where
  "trim_by two three (a # b # c # s) =
     (if ws1 a then trim_by two three (b # c # s)
      else if two a b then trim_by two three (c # s)
      else if three a b c then trim_by two three s
      else a # b # c # s)"
| "trim_by two three [a, b] =
     (if ws1 a then trim_by two three [b] else if two a b then [] else [a, b])"
| "trim_by two three [a] = (if ws1 a then [] else [a])"
| "trim_by two three [] = []"

definition trim_start :: "string \<Rightarrow> string" where
  "trim_start s = trim_by ws2 ws3 s"

definition trim_end :: "string \<Rightarrow> string" where
  "trim_end s = rev (trim_by (\<lambda>b a. ws2 a b) (\<lambda>c b a. ws3 a b c) (rev s))"

definition str_trim :: "string \<Rightarrow> string" where
  "str_trim s = trim_end (trim_start s)"

lemma length_trim_by: "length (trim_by two three s) \<le> length s"
  by (induction two three s rule: trim_by.induct) auto

lemma length_str_trim: "length (str_trim s) \<le> length s"
  using length_trim_by [of ws2 ws3 s]
    length_trim_by [of "\<lambda>b a. ws2 a b" "\<lambda>c b a. ws3 a b c" "rev (trim_start s)"]
  by (simp add: str_trim_def trim_start_def trim_end_def)

subsection \<open>Decimal formatting\<close>

text \<open>\<open>format!("{}", n)\<close> for the integers that appear in error messages.\<close>

definition digit_char :: "nat \<Rightarrow> char" where
  "digit_char d = char_of (48 + d)"

fun show_nat :: "nat \<Rightarrow> string" where
  "show_nat n = (if n < 10 then [digit_char n] else show_nat (n div 10) @ [digit_char (n mod 10)])"

declare show_nat.simps [simp del]

definition show_int :: "int \<Rightarrow> string" where
  "show_int i = (if i < 0 then CHR ''-'' # show_nat (nat (- i)) else show_nat (nat i))"

subsection \<open>Unique indexes\<close>

text \<open>
  \<open>unique_on key covered rows\<close>: the rows that satisfy \<open>covered\<close> (the \<open>WHERE\<close> clause of a partial
  index; everything for a full one) have pairwise distinct keys.
\<close>

definition unique_on :: "('r \<Rightarrow> 'k) \<Rightarrow> ('r \<Rightarrow> bool) \<Rightarrow> 'r list \<Rightarrow> bool" where
  "unique_on key covered rows \<longleftrightarrow> distinct (map key (filter covered rows))"

abbreviation whole :: "'r \<Rightarrow> bool" where "whole \<equiv> \<lambda>_. True"

lemma unique_on_Nil [simp]: "unique_on key P []"
  by (simp add: unique_on_def)

lemma unique_on_Cons:
  "unique_on key P (r # rows) \<longleftrightarrow>
     unique_on key P rows \<and> (P r \<longrightarrow> (\<forall>r' \<in> set rows. P r' \<longrightarrow> key r' \<noteq> key r))"
  by (auto simp: unique_on_def image_iff)

lemma unique_on_snoc:
  "unique_on key P (rows @ [r]) \<longleftrightarrow>
     unique_on key P rows \<and> (P r \<longrightarrow> (\<forall>r' \<in> set rows. P r' \<longrightarrow> key r' \<noteq> key r))"
  by (auto simp: unique_on_def image_iff)

lemma unique_on_filter [unique_intros]: "unique_on key P rows \<Longrightarrow> unique_on key P (filter Q rows)"
  by (induction rows) (auto simp: unique_on_Cons)

lemma unique_on_map [unique_intros]:
  assumes "unique_on key P rows"
    and "\<And>r. r \<in> set rows \<Longrightarrow> key (f r) = key r"
    and "\<And>r. r \<in> set rows \<Longrightarrow> P (f r) \<Longrightarrow> P r"
  shows "unique_on key P (map f rows)"
  using assms by (induction rows) (auto simp: unique_on_Cons)

lemma unique_on_eq:
  "\<lbrakk> unique_on key P rows; r \<in> set rows; r' \<in> set rows; P r; P r'; key r = key r' \<rbrakk> \<Longrightarrow> r = r'"
  by (induction rows) (auto simp: unique_on_Cons)

text \<open>On an indexed column, \<open>query_row\<close> (the first match) returns the one matching row.\<close>

lemma find_unique:
  assumes "unique_on key P rows" and "r \<in> set rows" and "P r"
  shows "find (\<lambda>r'. key r' = key r \<and> P r') rows = Some r"
proof -
  have "find (\<lambda>r'. key r' = key r \<and> P r') rows \<noteq> None"
    using assms by (auto simp: find_None_iff)
  then obtain r' where "find (\<lambda>r'. key r' = key r \<and> P r') rows = Some r'"
    by auto
  moreover from this have "r' \<in> set rows" "key r' = key r" "P r'"
    by (auto simp: find_Some_iff)
  ultimately show ?thesis
    using unique_on_eq [OF assms(1), of r' r] assms by simp
qed

lemma find_SomeD: "find P xs = Some x \<Longrightarrow> x \<in> set xs \<and> P x"
  by (auto simp: find_Some_iff)

lemma find_NoneD: "find P xs = None \<Longrightarrow> x \<in> set xs \<Longrightarrow> \<not> P x"
  by (auto simp: find_None_iff)

lemma find_snoc:
  "find P (xs @ [x]) = (case find P xs of Some y \<Rightarrow> Some y | None \<Rightarrow> if P x then Some x else None)"
  by (induction xs) auto

lemma map_of_find: "map_of (map (\<lambda>r. (key r, f r)) rows) x = map_option f (find (\<lambda>r. key r = x) rows)"
  by (induction rows) auto

lemma map_of_delete_key:
  "map_of (map (\<lambda>r. (key r, val r)) (filter (\<lambda>r. key r \<noteq> i) rows)) =
     (map_of (map (\<lambda>r. (key r, val r)) rows))(i := None)"
  by (induction rows) auto

lemma count_key_unique:
  assumes "unique_on key whole rows" and "r \<in> set rows"
  shows "length (filter (\<lambda>r'. key r' = key r) rows) = 1"
  using assms
proof (induction rows)
  case Nil
  then show ?case by simp
next
  case (Cons a rows)
  show ?case
  proof (cases "a = r")
    case True
    with Cons.prems have "\<forall>r' \<in> set rows. key r' \<noteq> key r"
      by (simp add: unique_on_Cons)
    then have "filter (\<lambda>r'. key r' = key r) rows = []"
      by (simp add: filter_empty_conv)
    with True show ?thesis by simp
  next
    case False
    with Cons show ?thesis by (auto simp: unique_on_Cons)
  qed
qed

subsection \<open>Third-party code\<close>

text \<open>
  The functions of other crates that the sources call. They are parameters: nothing is assumed of
  them beyond the hypotheses named below, which say what the crates document. Opaque values
  (a \<open>VoprfServer\<close>, RSA keys) are represented by their serialised bytes. Randomised functions
  take the random bytes they draw as an argument.
\<close>

datatype general_name = DNSName string | OtherName

record x509_cert =
  common_names :: "string option list"
  alternative_names :: "general_name list option"

record libs =
  ct_eq :: "bytes \<Rightarrow> bytes \<Rightarrow> bool"
  aead_encrypt :: "bytes \<Rightarrow> bytes \<Rightarrow> bytes \<Rightarrow> bytes \<Rightarrow> bytes option"
  aead_decrypt :: "bytes \<Rightarrow> bytes \<Rightarrow> bytes \<Rightarrow> bytes \<Rightarrow> bytes option"
  hex_decode :: "string \<Rightarrow> string + bytes"
  b64_encode :: "bytes \<Rightarrow> string"
  b64_decode :: "string \<Rightarrow> bytes option"
  b64_nopad_decode :: "string \<Rightarrow> bytes option"
  b64url_pad_decode :: "string \<Rightarrow> bytes option"
  b64url_encode :: "bytes \<Rightarrow> string"
  b64url_dec :: "string \<Rightarrow> bytes option"
  hkdf_sha512_expand :: "bytes \<Rightarrow> bytes \<Rightarrow> nat \<Rightarrow> bytes option"
  hmac_sha256 :: "bytes \<Rightarrow> bytes \<Rightarrow> bytes"
  voprf_new_from_seed :: "bytes \<Rightarrow> bytes \<Rightarrow> string + bytes"
  voprf_public_key :: "bytes \<Rightarrow> bytes"
  voprf_deserialize :: "bytes \<Rightarrow> bytes option"
  voprf_blind_evaluate :: "bytes \<Rightarrow> bytes \<Rightarrow> bytes \<Rightarrow> bytes \<times> bytes"
  voprf_evaluate :: "bytes \<Rightarrow> bytes \<Rightarrow> string + bytes"
  rsa_modulus_bits :: "bytes \<Rightarrow> nat"
  rsa_sk_to_der :: "bytes \<Rightarrow> string + bytes"
  rsa_pk_to_der :: "bytes \<Rightarrow> string + bytes"
  rsa_sk_from_der :: "bytes \<Rightarrow> string + bytes"
  rsa_pk_from_der :: "bytes \<Rightarrow> string + bytes"
  rsa_public_key :: "bytes \<Rightarrow> string + bytes"
  rsa_derive_for_metadata :: "bytes \<Rightarrow> bytes \<Rightarrow> bytes \<Rightarrow> string + bytes"
  rsa_blind_sign :: "bytes \<Rightarrow> bytes \<Rightarrow> string + bytes"
  x509_parse :: "bytes \<Rightarrow> x509_cert option"

text \<open>\<open>subtle\<close>: \<open>ct_eq\<close> on slices is equality.\<close>

definition ct_eq_spec :: "libs \<Rightarrow> bool" where
  "ct_eq_spec L \<longleftrightarrow> (\<forall>a b. ct_eq L a b \<longleftrightarrow> a = b)"

text \<open>
  \<open>aes-gcm\<close>: decryption inverts encryption under the same key, nonce and associated data, and the
  ciphertext carries a 16-byte tag. Authenticity is stated for one key \<open>k\<close> and the set \<open>A\<close> of associated
  data in use with it: what was sealed for one of them is rejected under another (the idealised
  form of the tag check, which fails only on a tag collision).
\<close>

definition aead_roundtrip :: "libs \<Rightarrow> bool" where
  "aead_roundtrip L \<longleftrightarrow> (\<forall>k n a m c. aead_encrypt L k n a m = Some c \<longrightarrow>
     aead_decrypt L k n a c = Some m \<and> length c = length m + 16)"

definition aead_authentic :: "libs \<Rightarrow> bytes \<Rightarrow> bytes set \<Rightarrow> bool" where
  "aead_authentic L k A \<longleftrightarrow> (\<forall>n m c. \<forall>a \<in> A. \<forall>a' \<in> A. aead_encrypt L k n a m = Some c \<longrightarrow> a' \<noteq> a \<longrightarrow>
     aead_decrypt L k n a' c = None)"

text \<open>\<open>base64\<close>: unpadded URL-safe encoding decodes back and has its documented length.\<close>

definition b64url_spec :: "libs \<Rightarrow> bool" where
  "b64url_spec L \<longleftrightarrow> (\<forall>b. b64url_dec L (b64url_encode L b) = Some b \<and>
     length (b64url_encode L b) = (4 * length b + 2) div 3)"

text \<open>\<open>hkdf\<close>: a 32-byte output is always available from HKDF-SHA512.\<close>

definition hkdf_spec :: "libs \<Rightarrow> bool" where
  "hkdf_spec L \<longleftrightarrow> (\<forall>ikm info. \<exists>k. hkdf_sha512_expand L ikm info 32 = Some k)"

lemma b64url_encode_inj:
  "\<lbrakk> b64url_spec L; b64url_encode L a = b64url_encode L b \<rbrakk> \<Longrightarrow> a = b"
  unfolding b64url_spec_def by (metis option.inject)

end
