(* ===== verification/Db_Schema.thy ===== *)
theory Db_Schema
  imports Signet_Prelude
begin

text \<open>
  The SQLite database of \<open>src/db.rs\<close>: the tables of the schema as lists of rows in insertion order,
  the AUTOINCREMENT sequences, the UNIQUE indexes as an invariant, and the way one SQL statement
  runs. The statements themselves are translated in the theories of the components that issue them.

  The SQLite engine is not part of the sources. What a statement does to the tables is the meaning
  of its SQL text; whether the engine completes it is a parameter of each call, an \<open>engine\<close> that says
  for the \<open>i\<close>-th statement of the call whether it fails (I/O error, busy database) and with which
  message. A statement that fails has no effect, and a transaction that is dropped has none either.
\<close>

subsection \<open>Rows and tables\<close>

record group_key_row =
  gk_key_id :: int
  gk_group_id :: string
  gk_spki_der :: bytes
  gk_sealed_pkcs8 :: bytes
  gk_created_at :: int
  gk_retired_at :: "int option"

record issuance_row =
  is_id :: int
  is_group_id :: string
  is_participant_id :: string
  is_version_id :: string
  is_issued_at :: int

record service_key_row =
  sk_purpose :: string
  sk_sealed :: bytes
  sk_created_at :: int

record dedup_row =
  de_entry_ref :: bytes
  de_value :: bytes
  de_owner_tag :: string
  de_badge_type :: string
  de_created_at :: int

record db =
  group_keys :: "group_key_row list"
  group_keys_seq :: int
  issuances :: "issuance_row list"
  issuances_seq :: int
  service_keys :: "service_key_row list"
  dedup_entries :: "dedup_row list"

definition empty_tables :: db where
  "empty_tables = \<lparr>group_keys = [], group_keys_seq = 0, issuances = [], issuances_seq = 0,
     service_keys = [], dedup_entries = []\<rparr>"

subsection \<open>The engine\<close>

record engine =
  stmt_fault :: "nat \<Rightarrow> string option"
  constraint_msg :: "string \<Rightarrow> string"
  full_msg :: string

datatype sql_error = ConstraintViolation string | SqliteFailure string

fun sql_error_text :: "sql_error \<Rightarrow> string" where
  "sql_error_text (ConstraintViolation m) = m"
| "sql_error_text (SqliteFailure m) = m"

text \<open>A statement without a constraint (queries, \<open>UPDATE\<close>, \<open>DELETE\<close>, \<open>BEGIN\<close>, \<open>COMMIT\<close>).\<close>

definition run_stmt :: "engine \<Rightarrow> nat \<Rightarrow> 'a \<Rightarrow> string + 'a" where
  "run_stmt eng i v = (case stmt_fault eng i of Some m \<Rightarrow> Err m | None \<Rightarrow> Ok v)"

text \<open>
  An \<open>INSERT\<close>: the index it would violate, if any, and its effect. On a table with an
  AUTOINCREMENT key the engine refuses when the sequence is exhausted.
\<close>

definition run_insert :: "engine \<Rightarrow> nat \<Rightarrow> string option \<Rightarrow> 'a \<Rightarrow> sql_error + 'a" where
  "run_insert eng i conflict v =
     (case stmt_fault eng i of
        Some m \<Rightarrow> Err (SqliteFailure m)
      | None \<Rightarrow> (case conflict of
          Some ix \<Rightarrow> Err (ConstraintViolation (constraint_msg eng ix))
        | None \<Rightarrow> Ok v))"

text \<open>
  An \<open>INSERT\<close> into a table with an AUTOINCREMENT id draws the id before the indexes are checked: when the
  ids are exhausted it fails, whether or not the row would conflict with another one.
\<close>

definition run_autoinc :: "engine \<Rightarrow> nat \<Rightarrow> string option \<Rightarrow> int \<Rightarrow> (int \<Rightarrow> 'a) \<Rightarrow> sql_error + 'a" where
  "run_autoinc eng i conflict seq v =
     (if stmt_fault eng i = None \<and> i64_max \<le> seq then Err (SqliteFailure (full_msg eng))
      else run_insert eng i conflict (v (seq + 1)))"

subsection \<open>Time and counts\<close>

text \<open>
  \<open>now_secs\<close>: the clock reading is the signed distance to the unix epoch in seconds; before the
  epoch the code falls back to 0, and it saturates at \<open>i64::MAX\<close>.
\<close>

definition now_secs :: "int \<Rightarrow> int" where
  "now_secs clk = (if clk < 0 then 0 else min clk i64_max)"

definition saturating_count_to_u32 :: "int \<Rightarrow> u32" where
  "saturating_count_to_u32 count =
     (if 0 \<le> count \<and> count < 2 ^ 32 then word_of_int count else - 1)"

subsection \<open>Opening\<close>

text \<open>
  \<open>Db::open\<close> and \<open>init\<close>: opening the file, three pragmas and one batch of
  \<open>CREATE ... IF NOT EXISTS\<close>, which leaves the tables of an existing database as they are.
\<close>

definition db_open :: "engine \<Rightarrow> db option \<Rightarrow> string + db" where
  "db_open eng file =
     bind_res (run_stmt eng 0 ()) (\<lambda>_.
     bind_res (run_stmt eng 1 ()) (\<lambda>_.
     bind_res (run_stmt eng 2 ()) (\<lambda>_.
     bind_res (run_stmt eng 3 ()) (\<lambda>_.
     run_stmt eng 4 (case file of Some d \<Rightarrow> d | None \<Rightarrow> empty_tables)))))"

subsection \<open>The schema's invariants\<close>

definition gk_active :: "group_key_row \<Rightarrow> bool" where
  "gk_active r \<longleftrightarrow> gk_retired_at r = None"

definition is_tuple :: "issuance_row \<Rightarrow> string \<times> string \<times> string" where
  "is_tuple r = (is_group_id r, is_participant_id r, is_version_id r)"

definition keys_inv :: "db \<Rightarrow> bool" where
  "keys_inv d \<longleftrightarrow>
     unique_on gk_key_id whole (group_keys d) \<and>
     unique_on gk_group_id gk_active (group_keys d) \<and>
     (\<forall>r \<in> set (group_keys d). 1 \<le> gk_key_id r \<and> gk_key_id r \<le> group_keys_seq d) \<and>
     0 \<le> group_keys_seq d \<and> group_keys_seq d \<le> i64_max"

definition issuance_inv :: "db \<Rightarrow> bool" where
  "issuance_inv d \<longleftrightarrow>
     unique_on is_id whole (issuances d) \<and>
     unique_on is_tuple whole (issuances d) \<and>
     (\<forall>r \<in> set (issuances d). 1 \<le> is_id r \<and> is_id r \<le> issuances_seq d) \<and>
     0 \<le> issuances_seq d \<and> issuances_seq d \<le> i64_max"

definition service_inv :: "db \<Rightarrow> bool" where
  "service_inv d \<longleftrightarrow> unique_on sk_purpose whole (service_keys d)"

definition ledger_inv :: "db \<Rightarrow> bool" where
  "ledger_inv d \<longleftrightarrow>
     unique_on de_entry_ref whole (dedup_entries d) \<and> unique_on de_value whole (dedup_entries d)"

definition db_inv :: "db \<Rightarrow> bool" where
  "db_inv d \<longleftrightarrow> keys_inv d \<and> issuance_inv d \<and> service_inv d \<and> ledger_inv d"

lemmas table_inv_defs = keys_inv_def issuance_inv_def service_inv_def ledger_inv_def

subsection \<open>Lemmas\<close>

lemma run_stmt_Ok_iff [simp]: "run_stmt eng i v = Ok w \<longleftrightarrow> stmt_fault eng i = None \<and> w = v"
  by (auto simp: run_stmt_def split: option.splits)

lemma run_stmt_Err_iff [simp]: "run_stmt eng i v = Err m \<longleftrightarrow> stmt_fault eng i = Some m"
  by (auto simp: run_stmt_def split: option.splits)

lemma run_stmt_None: "stmt_fault eng i = None \<Longrightarrow> run_stmt eng i v = Ok v"
  by (simp add: run_stmt_def)

lemma run_insert_Ok_iff:
  "run_insert eng i conflict v = Ok w \<longleftrightarrow> stmt_fault eng i = None \<and> conflict = None \<and> w = v"
  by (auto simp: run_insert_def split: option.splits)

lemma run_insert_constraint_iff:
  "run_insert eng i conflict v = Err (ConstraintViolation m) \<longleftrightarrow>
     stmt_fault eng i = None \<and> (\<exists>ix. conflict = Some ix \<and> m = constraint_msg eng ix)"
  by (auto simp: run_insert_def split: option.splits)

lemma run_autoinc_Ok_iff:
  "run_autoinc eng i conflict seq v = Ok w \<longleftrightarrow>
     stmt_fault eng i = None \<and> conflict = None \<and> seq < i64_max \<and> w = v (seq + 1)"
  by (auto simp: run_autoinc_def run_insert_Ok_iff)

lemma run_autoinc_constraint_iff:
  "run_autoinc eng i conflict seq v = Err (ConstraintViolation m) \<longleftrightarrow>
     stmt_fault eng i = None \<and> seq < i64_max \<and> (\<exists>ix. conflict = Some ix \<and> m = constraint_msg eng ix)"
  by (auto simp: run_autoinc_def run_insert_constraint_iff)

lemma now_secs_range: "0 \<le> now_secs clk \<and> now_secs clk \<le> i64_max"
  by (simp add: now_secs_def i64_max_def)

lemma saturating_count_exact:
  "0 \<le> c \<Longrightarrow> c < 2 ^ 32 \<Longrightarrow> uint (saturating_count_to_u32 c) = c"
  by (simp add: saturating_count_to_u32_def uint_word_of_int take_bit_eq_mod)

lemma saturating_count_le_iff:
  assumes "0 \<le> c"
  shows "saturating_count_to_u32 c < m \<longleftrightarrow> c < uint m"
proof (cases "c < 2 ^ 32")
  case True
  with assms show ?thesis
    by (simp add: word_less_def saturating_count_exact)
next
  case False
  have "\<not> (- 1 :: u32) < m"
    by (simp add: not_less)
  moreover have "uint m < 2 ^ 32"
    using uint_lt2p [of m] by simp
  ultimately show ?thesis
    using False by (simp add: saturating_count_to_u32_def)
qed

lemma db_inv_empty [simp]: "db_inv empty_tables"
  by (simp add: db_inv_def table_inv_defs empty_tables_def i64_max_def)

lemma db_open_inv: "db_open eng file = Ok d \<Longrightarrow> (\<forall>d0. file = Some d0 \<longrightarrow> db_inv d0) \<Longrightarrow> db_inv d"
  by (auto simp: db_open_def bind_res_Ok_iff split: option.splits)

text \<open>Each invariant reads one table only.\<close>

lemma keys_inv_cong [frame_simps]:
  "keys_inv (d\<lparr>issuances := x\<rparr>) = keys_inv d"
  "keys_inv (d\<lparr>issuances := x, issuances_seq := n\<rparr>) = keys_inv d"
  "keys_inv (d\<lparr>service_keys := y\<rparr>) = keys_inv d"
  "keys_inv (d\<lparr>dedup_entries := z\<rparr>) = keys_inv d"
  by (simp_all add: keys_inv_def)

lemma issuance_inv_cong [frame_simps]:
  "issuance_inv (d\<lparr>group_keys := x\<rparr>) = issuance_inv d"
  "issuance_inv (d\<lparr>group_keys := x, group_keys_seq := n\<rparr>) = issuance_inv d"
  "issuance_inv (d\<lparr>service_keys := y\<rparr>) = issuance_inv d"
  "issuance_inv (d\<lparr>dedup_entries := z\<rparr>) = issuance_inv d"
  by (simp_all add: issuance_inv_def)

lemma service_inv_cong [frame_simps]:
  "service_inv (d\<lparr>group_keys := x\<rparr>) = service_inv d"
  "service_inv (d\<lparr>group_keys := x, group_keys_seq := n\<rparr>) = service_inv d"
  "service_inv (d\<lparr>issuances := y\<rparr>) = service_inv d"
  "service_inv (d\<lparr>issuances := y, issuances_seq := n\<rparr>) = service_inv d"
  "service_inv (d\<lparr>dedup_entries := z\<rparr>) = service_inv d"
  by (simp_all add: service_inv_def)

lemma ledger_inv_cong [frame_simps]:
  "ledger_inv (d\<lparr>group_keys := x\<rparr>) = ledger_inv d"
  "ledger_inv (d\<lparr>group_keys := x, group_keys_seq := n\<rparr>) = ledger_inv d"
  "ledger_inv (d\<lparr>issuances := y\<rparr>) = ledger_inv d"
  "ledger_inv (d\<lparr>issuances := y, issuances_seq := n\<rparr>) = ledger_inv d"
  "ledger_inv (d\<lparr>service_keys := z\<rparr>) = ledger_inv d"
  by (simp_all add: ledger_inv_def)

end
