(* ===== verification/Db_Issuance.thy ===== *)
theory Db_Issuance
  imports Db_Schema
begin

text \<open>
  The issuance ledger of \<open>src/db.rs\<close>: reserving a slot by inserting its row before signing,
  rolling a reservation back, and the two counts the rate limiter reads. The interface that the
  signing handler relies on is the locale \<open>reservation_ledger\<close>, interpreted on these operations.
\<close>

subsection \<open>Operations\<close>

datatype reservation = Reserved int | AlreadyIssued

definition issuance_exists :: "db \<Rightarrow> string \<Rightarrow> string \<Rightarrow> string \<Rightarrow> bool" where
  "issuance_exists d g p v = list_ex (\<lambda>r. is_tuple r = (g, p, v)) (issuances d)"

definition reserve_issuance ::
  "engine \<Rightarrow> int \<Rightarrow> db \<Rightarrow> string \<Rightarrow> string \<Rightarrow> string \<Rightarrow> (string + reservation) \<times> db" where
  "reserve_issuance eng clk d g p v =
     (case run_autoinc eng 0
             (if issuance_exists d g p v then Some ''idx_issuance_unique'' else None)
             (issuances_seq d)
             (\<lambda>i. (i, d\<lparr>issuances := issuances d @
                            [\<lparr>is_id = i, is_group_id = g, is_participant_id = p,
                              is_version_id = v, is_issued_at = now_secs clk\<rparr>],
                          issuances_seq := i\<rparr>)) of
        Ok (i, d') \<Rightarrow> (Ok (Reserved i), d')
      | Err (ConstraintViolation _) \<Rightarrow> (Ok AlreadyIssued, d)
      | Err (SqliteFailure m) \<Rightarrow> (Err m, d))"

definition delete_issuance :: "engine \<Rightarrow> db \<Rightarrow> int \<Rightarrow> (string + unit) \<times> db" where
  "delete_issuance eng d i =
     (case run_stmt eng 0 (d\<lparr>issuances := filter (\<lambda>r. is_id r \<noteq> i) (issuances d)\<rparr>) of
        Err m \<Rightarrow> (Err m, d)
      | Ok d' \<Rightarrow> (Ok (), d'))"

definition rows_since :: "db \<Rightarrow> int \<Rightarrow> issuance_row list" where
  "rows_since d since = filter (\<lambda>r. since \<le> is_issued_at r) (issuances d)"

definition count_participant_since :: "engine \<Rightarrow> db \<Rightarrow> string \<Rightarrow> int \<Rightarrow> string + u32" where
  "count_participant_since eng d p since =
     run_stmt eng 0 (saturating_count_to_u32
       (int (length (filter (\<lambda>r. is_participant_id r = p) (rows_since d since)))))"

definition count_global_since :: "engine \<Rightarrow> db \<Rightarrow> int \<Rightarrow> string + u32" where
  "count_global_since eng d since =
     run_stmt eng 0 (saturating_count_to_u32 (int (length (rows_since d since))))"

text \<open>The abstract view of the ledger: which tuple each issuance id holds.\<close>

definition slot :: "db \<Rightarrow> int \<rightharpoonup> string \<times> string \<times> string" where
  "slot d = map_of (map (\<lambda>r. (is_id r, is_tuple r)) (issuances d))"

subsection \<open>Frame and effect of each operation\<close>

lemma issuance_exists_iff:
  "issuance_exists d g p v \<longleftrightarrow> (\<exists>r \<in> set (issuances d). is_tuple r = (g, p, v))"
  by (auto simp: issuance_exists_def list_ex_iff)

lemma reserve_Reserved_iff:
  "reserve_issuance eng clk d g p v = (Ok (Reserved i), d') \<longleftrightarrow>
     stmt_fault eng 0 = None \<and> \<not> issuance_exists d g p v \<and> issuances_seq d < i64_max \<and>
     i = issuances_seq d + 1 \<and>
     d' = d\<lparr>issuances := issuances d @ [\<lparr>is_id = i, is_group_id = g, is_participant_id = p,
              is_version_id = v, is_issued_at = now_secs clk\<rparr>], issuances_seq := i\<rparr>"
  by (auto simp: reserve_issuance_def run_autoinc_def run_insert_def
      split: sum.splits sql_error.splits if_splits option.splits)

lemma reserve_AlreadyIssued_iff:
  "reserve_issuance eng clk d g p v = (Ok AlreadyIssued, d') \<longleftrightarrow>
     stmt_fault eng 0 = None \<and> issuances_seq d < i64_max \<and> issuance_exists d g p v \<and> d' = d"
  by (auto simp: reserve_issuance_def run_autoinc_Ok_iff run_autoinc_constraint_iff
      run_autoinc_def run_insert_def split: sum.splits sql_error.splits if_splits option.splits)

lemma reserve_Err: "reserve_issuance eng clk d g p v = (Err m, d') \<Longrightarrow> d' = d"
  by (auto simp: reserve_issuance_def split: sum.splits sql_error.splits)

lemma reserve_refused:
  assumes "reserve_issuance eng clk d g p v = (r, d')" and "\<nexists>i. r = Ok (Reserved i)"
  shows "d' = d"
  using assms by (cases r; cases "projr r") (auto simp: reserve_AlreadyIssued_iff dest: reserve_Err)

lemma reserve_total:
  "\<lbrakk> stmt_fault eng 0 = None; issuances_seq d < i64_max \<rbrakk> \<Longrightarrow>
     \<exists>r. fst (reserve_issuance eng clk d g p v) = Ok r"
  by (auto simp: reserve_issuance_def run_autoinc_def run_insert_def)

lemma delete_issuance_Ok_iff:
  "delete_issuance eng d i = (Ok (), d') \<longleftrightarrow>
     stmt_fault eng 0 = None \<and> d' = d\<lparr>issuances := filter (\<lambda>r. is_id r \<noteq> i) (issuances d)\<rparr>"
  by (auto simp: delete_issuance_def run_stmt_def split: option.splits)

lemma delete_issuance_Err: "delete_issuance eng d i = (Err m, d') \<Longrightarrow> d' = d"
  by (auto simp: delete_issuance_def split: sum.splits)

lemma reserve_inv:
  assumes "issuance_inv d" and "reserve_issuance eng clk d g p v = (res, d')"
  shows "issuance_inv d'"
proof (cases "\<exists>i. res = Ok (Reserved i)")
  case True
  with assms(2) have "\<not> issuance_exists d g p v" and "issuances_seq d < i64_max"
    and "d' = d\<lparr>issuances := issuances d @ [\<lparr>is_id = issuances_seq d + 1, is_group_id = g,
           is_participant_id = p, is_version_id = v, is_issued_at = now_secs clk\<rparr>],
           issuances_seq := issuances_seq d + 1\<rparr>"
    by (auto simp: reserve_Reserved_iff)
  with assms(1) show ?thesis
    by (fastforce simp: issuance_inv_def unique_on_snoc issuance_exists_iff is_tuple_def)
next
  case False
  then have "d' = d"
    by (rule reserve_refused [OF assms(2)])
  with assms(1) show ?thesis by simp
qed

lemma delete_inv:
  "\<lbrakk> issuance_inv d; delete_issuance eng d i = (res, d') \<rbrakk> \<Longrightarrow> issuance_inv d'"
  by (auto simp: delete_issuance_def issuance_inv_def intro: unique_intros split: sum.splits)

lemma reserve_frame [frame_simps]:
  assumes "reserve_issuance eng clk d g p v = (res, d')"
  shows "group_keys d' = group_keys d" and "group_keys_seq d' = group_keys_seq d"
    and "service_keys d' = service_keys d" and "dedup_entries d' = dedup_entries d"
    and "keys_inv d' = keys_inv d" and "service_inv d' = service_inv d"
    and "ledger_inv d' = ledger_inv d"
  using assms by (auto simp: reserve_issuance_def run_autoinc_Ok_iff frame_simps
      split: sum.splits sql_error.splits)

lemma delete_frame [frame_simps]:
  assumes "delete_issuance eng d i = (res, d')"
  shows "group_keys d' = group_keys d" and "group_keys_seq d' = group_keys_seq d"
    and "service_keys d' = service_keys d" and "dedup_entries d' = dedup_entries d"
    and "issuances_seq d' = issuances_seq d"
    and "keys_inv d' = keys_inv d" and "service_inv d' = service_inv d"
    and "ledger_inv d' = ledger_inv d"
  using assms by (auto simp: delete_issuance_def frame_simps split: sum.splits)

subsection \<open>The slots\<close>

lemma slot_bound: "\<lbrakk> issuance_inv d; slot d i = Some k \<rbrakk> \<Longrightarrow> 1 \<le> i \<and> i \<le> issuances_seq d"
  by (auto simp: issuance_inv_def slot_def dest!: map_of_SomeD)

lemma slot_above: "issuance_inv d \<Longrightarrow> issuances_seq d < i \<Longrightarrow> slot d i = None"
  using slot_bound [of d i] by (cases "slot d i") auto

lemma ran_slot: "issuance_inv d \<Longrightarrow> ran (slot d) = is_tuple ` set (issuances d)"
  by (simp add: slot_def issuance_inv_def unique_on_def ran_distinct comp_def image_image)

lemma issuance_exists_slot:
  "issuance_inv d \<Longrightarrow> issuance_exists d g p v \<longleftrightarrow> (g, p, v) \<in> ran (slot d)"
  by (force simp: ran_slot issuance_exists_iff)

lemma slot_reserve:
  assumes "issuance_inv d" and "reserve_issuance eng clk d g p v = (Ok (Reserved i), d')"
  shows "slot d' = (slot d)(i \<mapsto> (g, p, v))"
proof -
  have "slot d i = None"
    using assms by (auto simp: reserve_Reserved_iff intro: slot_above)
  with assms(2) show ?thesis
    by (auto simp: reserve_Reserved_iff slot_def is_tuple_def map_add_def fun_eq_iff
        split: option.splits)
qed

lemma slot_delete: "delete_issuance eng d i = (Ok (), d') \<Longrightarrow> slot d' = (slot d)(i := None)"
  by (auto simp: delete_issuance_Ok_iff slot_def map_of_delete_key)

subsection \<open>The interface of a reservation ledger\<close>

text \<open>
  What a client of the ledger may rely on: a reservation hands out an id above every id used
  before and records the tuple under it; a tuple that is recorded is not reserved again; a failed
  call changes nothing; cancelling an id frees that id's tuple and no other.
\<close>

locale reservation_ledger =
  fixes invar :: "'s \<Rightarrow> bool"
    and holds :: "'s \<Rightarrow> int \<rightharpoonup> 'k"
    and high :: "'s \<Rightarrow> int"
    and reserve :: "'e \<Rightarrow> 's \<Rightarrow> 'k \<Rightarrow> (string + reservation) \<times> 's"
    and cancel :: "'f \<Rightarrow> 's \<Rightarrow> int \<Rightarrow> (string + unit) \<times> 's"
  assumes holds_high: "\<lbrakk> invar s; holds s i = Some k \<rbrakk> \<Longrightarrow> i \<le> high s"
    and holds_unique: "\<lbrakk> invar s; holds s i = Some k; holds s j = Some k \<rbrakk> \<Longrightarrow> i = j"
    and reserve_new: "\<lbrakk> invar s; reserve e s k = (Ok (Reserved i), s') \<rbrakk> \<Longrightarrow>
           k \<notin> ran (holds s) \<and> high s < i \<and> high s' = i \<and> holds s' = (holds s)(i \<mapsto> k)"
    and reserve_taken: "\<lbrakk> invar s; reserve e s k = (Ok AlreadyIssued, s') \<rbrakk> \<Longrightarrow>
           k \<in> ran (holds s) \<and> s' = s"
    and reserve_fails: "reserve e s k = (Err m, s') \<Longrightarrow> s' = s"
    and cancel_done: "\<lbrakk> invar s; cancel f s i = (Ok (), s') \<rbrakk> \<Longrightarrow>
           holds s' = (holds s)(i := None) \<and> high s' = high s"
    and cancel_fails: "cancel f s i = (Err m, s') \<Longrightarrow> s' = s"
    and invar_reserve: "\<lbrakk> invar s; reserve e s k = (r, s') \<rbrakk> \<Longrightarrow> invar s'"
    and invar_cancel: "\<lbrakk> invar s; cancel f s i = (r', s') \<rbrakk> \<Longrightarrow> invar s'"
begin

text \<open>A held tuple is never handed out again.\<close>

lemma held_not_reserved:
  "\<lbrakk> invar s; holds s i = Some k \<rbrakk> \<Longrightarrow> fst (reserve e s k) \<noteq> Ok (Reserved j)"
  using reserve_new [of s e k j "snd (reserve e s k)"]
  by (cases "reserve e s k") (auto simp: ran_def)

text \<open>Whatever \<open>reserve\<close> answers, earlier reservations stay.\<close>

lemma reserve_keeps:
  assumes "invar s" and "holds s i = Some k" and "reserve e s k' = (r, s')"
  shows "holds s' i = Some k"
proof (cases r)
  case (Inl m)
  with assms show ?thesis using reserve_fails [of e s k' m s'] by simp
next
  case (Inr x)
  show ?thesis
  proof (cases x)
    case (Reserved j)
    with Inr assms have "high s < j" and "holds s' = (holds s)(j \<mapsto> k')"
      using reserve_new by blast+
    with assms holds_high [of s i k] show ?thesis by auto
  next
    case AlreadyIssued
    with Inr assms show ?thesis using reserve_taken [of s e k' s'] by simp
  qed
qed

text \<open>Cancelling one reservation leaves the others.\<close>

lemma cancel_keeps:
  assumes "invar s" and "holds s i = Some k" and "cancel f s j = (r, s')" and "i \<noteq> j"
  shows "holds s' i = Some k"
proof (cases r)
  case (Inl m)
  with assms show ?thesis using cancel_fails [of f s j m s'] by simp
next
  case (Inr u)
  with assms show ?thesis using cancel_done [of s f j s'] by simp
qed

text \<open>
  A reservation rolled back restores the ledger's contents: a failed signing does not burn the
  participant's token.
\<close>

lemma reserve_cancel:
  assumes "invar s" and "reserve e s k = (Ok (Reserved i), s1)" and "cancel f s1 i = (Ok (), s2)"
  shows "holds s2 = holds s"
proof -
  from assms(1,2) have "high s < i" and s1: "holds s1 = (holds s)(i \<mapsto> k)"
    using reserve_new by blast+
  moreover have "holds s i = None"
    using holds_high [OF assms(1)] \<open>high s < i\<close> by (cases "holds s i") force+
  moreover have "holds s2 = (holds s1)(i := None)"
    using cancel_done [OF invar_reserve [OF assms(1,2)] assms(3)] by simp
  ultimately show ?thesis by (simp add: fun_eq_iff)
qed

end

interpretation il: reservation_ledger issuance_inv slot issuances_seq
  "\<lambda>(eng, clk) d (g, p, v). reserve_issuance eng clk d g p v" delete_issuance
proof (unfold_locales, goal_cases)
  case 1
  then show ?case using slot_bound by blast
next
  case (2 s i k j)
  then obtain r r' where "r \<in> set (issuances s)" "r' \<in> set (issuances s)"
    "is_tuple r = k" "is_tuple r' = k" "is_id r = i" "is_id r' = j"
    by (auto simp: slot_def dest!: map_of_SomeD)
  moreover from this 2(1) have "r = r'"
    using unique_on_eq [of is_tuple whole "issuances s" r r'] by (simp add: issuance_inv_def)
  ultimately show ?case by simp
next
  case (3 s e k i s')
  then show ?case
    by (cases e; cases k) (auto simp: slot_reserve reserve_Reserved_iff issuance_exists_slot)
next
  case (4 s e k s')
  then show ?case
    by (cases e; cases k) (auto simp: reserve_AlreadyIssued_iff issuance_exists_slot)
next
  case (5 e s k m s')
  then show ?case by (cases e; cases k) (auto dest: reserve_Err)
next
  case (6 s f i s')
  then show ?case by (auto simp: slot_delete frame_simps)
next
  case (7 f s i m s')
  then show ?case by (rule delete_issuance_Err)
next
  case (8 s e k r s')
  then show ?case by (cases e; cases k) (auto intro: reserve_inv)
next
  case (9 s f i r' s')
  then show ?case by (rule delete_inv)
qed

end
