(* ===== verification/Ratelimit.thy ===== *)
theory Ratelimit
  imports Db_Issuance "HOL-Library.Multiset"
begin

text \<open>
  The two rate limiters of \<open>src/ratelimit.rs\<close>. \<open>RateLimiter\<close> counts issuance rows; \<open>KeyRateLimiter\<close>
  keeps request timestamps in memory. What a sliding-window limiter guarantees over a run of requests
  is proved once, in the locale \<open>windowed_admission\<close>.

  Arithmetic on \<open>i64\<close> wraps, as in a release build. An \<open>Instant\<close> is a number of nanoseconds; \<open>lo\<close> is
  the earliest one the platform can represent, below which \<open>checked_sub\<close> answers \<open>None\<close>.
\<close>

subsection \<open>The limiter over the issuance ledger\<close>

record rate_limiter =
  participant_max :: u32
  global_max :: u32
  window_secs :: u64

datatype decision = Allow | DenyParticipant | DenyGlobal

definition rl_new :: "u32 \<Rightarrow> u32 \<Rightarrow> u64 \<Rightarrow> rate_limiter" where
  "rl_new p g w = \<lparr>participant_max = p, global_max = g, window_secs = w\<rparr>"

definition window_start :: "u64 \<Rightarrow> int \<Rightarrow> int" where
  "window_start window now = sint (word_of_int now - window)"

text \<open>The two counts are separate database calls; \<open>d1\<close> is the database at the time of the second.\<close>

definition rl_check ::
  "rate_limiter \<Rightarrow> (nat \<Rightarrow> engine) \<Rightarrow> int \<Rightarrow> db \<Rightarrow> db \<Rightarrow> string \<Rightarrow> string + decision" where
  "rl_check rl engs clk d d1 p =
     (let since = window_start (window_secs rl) (now_secs clk) in
      bind_res (count_global_since (engs 0) d since) (\<lambda>global.
      if global_max rl \<le> global then Ok DenyGlobal
      else
        bind_res (count_participant_since (engs 1) d1 p since) (\<lambda>per.
        if participant_max rl \<le> per then Ok DenyParticipant
        else Ok Allow)))"

lemma sint_i64: "in_i64 i \<Longrightarrow> sint (word_of_int i :: u64) = i"
  unfolding signed_of_int in_i64_def by (simp add: signed_take_bit_int_eq_self)

lemma window_start_exact:
  assumes "uint w < 2 ^ 63"
  shows "window_start w (now_secs clk) = now_secs clk - uint w"
proof -
  have "word_of_int (now_secs clk) - w = word_of_int (now_secs clk - uint w)"
    by simp
  moreover have "in_i64 (now_secs clk - uint w)"
    using now_secs_range [of clk] assms uint_ge_0 [of w]
    unfolding in_i64_def i64_max_def by linarith
  ultimately show ?thesis
    unfolding window_start_def by (simp only: sint_i64)
qed

text \<open>A window of \<open>2\<^sup>6\<^sup>4 - 1\<close> seconds, read as an \<open>i64\<close>, starts in the future.\<close>

lemma window_start_max:
  assumes "0 \<le> clk" and "clk < i64_max"
  shows "window_start (- 1) (now_secs clk) = now_secs clk + 1"
proof -
  have "word_of_int (now_secs clk) - (- 1 :: u64) = word_of_int (now_secs clk + 1)"
    by simp
  moreover have "in_i64 (now_secs clk + 1)"
    using assms by (auto simp: now_secs_def i64_max_def in_i64_def)
  ultimately show ?thesis
    unfolding window_start_def by (simp only: sint_i64)
qed

text \<open>
  The decision in terms of the rows in the window; \<open>Allow\<close> is returned exactly when both counts
  are below their ceilings.
\<close>

lemma count_ge_iff: "m \<le> saturating_count_to_u32 (int n) \<longleftrightarrow> unat m \<le> n"
  using saturating_count_le_iff [of "int n" m]
  by (simp add: not_less [symmetric] word_less_nat_alt) (metis nat_less_iff uint_nonnegative unsigned_greater_eq nat_uint_eq zless_nat_eq_int_zless)

lemma rl_check_spec:
  assumes "\<forall>i j. stmt_fault (engs i) j = None"
  shows "rl_check rl engs clk d d p =
    (let rows = rows_since d (window_start (window_secs rl) (now_secs clk)) in
     Ok (if unat (global_max rl) \<le> length rows then DenyGlobal
         else if unat (participant_max rl) \<le> length (filter (\<lambda>r. is_participant_id r = p) rows)
         then DenyParticipant else Allow))"
  using assms by (simp add: rl_check_def Let_def count_global_since_def count_participant_since_def
      run_stmt_None count_ge_iff)

lemma rl_check_Allow:
  assumes "rl_check rl engs clk d d1 p = Ok Allow"
  shows "length (rows_since d (window_start (window_secs rl) (now_secs clk))) < unat (global_max rl)"
    and "length (filter (\<lambda>r. is_participant_id r = p)
      (rows_since d1 (window_start (window_secs rl) (now_secs clk)))) < unat (participant_max rl)"
  using assms by (auto simp: rl_check_def Let_def count_global_since_def count_participant_since_def
      bind_res_Ok_iff count_ge_iff not_le split: if_splits)

subsection \<open>The limiter of the key endpoints\<close>

record key_rate_limiter =
  identity_max :: u32
  key_global_max :: u32
  key_window :: int

record key_rl_state =
  per_identity :: "string \<rightharpoonup> int list"
  krl_global :: "int list"

datatype key_decision = KAllow | KDenyIdentity | KDenyGlobal

definition krl_new :: "u32 \<Rightarrow> u32 \<Rightarrow> u64 \<Rightarrow> key_rate_limiter" where
  "krl_new i g w = \<lparr>identity_max = i, key_global_max = g, key_window = uint w * 10 ^ 9\<rparr>"

definition krl_state0 :: key_rl_state where
  "krl_state0 = \<lparr>per_identity = Map.empty, krl_global = []\<rparr>"

definition checked_sub :: "int \<Rightarrow> int \<Rightarrow> int \<Rightarrow> int option" where
  "checked_sub lo now dur = (if now - dur < lo then None else Some (now - dur))"

definition prune :: "int list \<Rightarrow> int option \<Rightarrow> int list" where
  "prune ts cutoff = (case cutoff of None \<Rightarrow> ts | Some c \<Rightarrow> filter (\<lambda>t. c < t) ts)"

text \<open>\<open>bucket_of\<close> is \<open>per_identity.entry(identity).or_default()\<close>.\<close>

definition bucket_of :: "key_rl_state \<Rightarrow> string \<Rightarrow> int list" where
  "bucket_of st i = (case per_identity st i of None \<Rightarrow> [] | Some b \<Rightarrow> b)"

definition check_at ::
  "key_rate_limiter \<Rightarrow> int \<Rightarrow> string \<Rightarrow> int \<Rightarrow> key_rl_state \<Rightarrow> key_decision \<times> key_rl_state" where
  "check_at cfg lo i now st =
     (let cutoff = checked_sub lo now (key_window cfg);
          g = prune (krl_global st) cutoff
      in if unat (key_global_max cfg) \<le> length g then (KDenyGlobal, st\<lparr>krl_global := g\<rparr>)
         else
           let bucket = prune (bucket_of st i) cutoff in
           if unat (identity_max cfg) \<le> length bucket then
             (KDenyIdentity, \<lparr>per_identity = (per_identity st)(i \<mapsto> bucket), krl_global = g\<rparr>)
           else
             (KAllow, \<lparr>per_identity = (per_identity st)(i \<mapsto> bucket @ [now]),
                       krl_global = g @ [now]\<rparr>))"

subsection \<open>What a sliding-window limiter guarantees\<close>

definition in_window :: "int \<Rightarrow> int \<Rightarrow> int list \<Rightarrow> nat" where
  "in_window width now ts = length (filter (\<lambda>t. now - width < t \<and> t \<le> now) ts)"

lemma in_window_mset: "in_window w now ts = size (filter_mset (\<lambda>t. now - w < t \<and> t \<le> now) (mset ts))"
  by (simp add: in_window_def flip: size_mset mset_filter)

lemma in_window_mono: "mset ts \<subseteq># mset us \<Longrightarrow> in_window w now ts \<le> in_window w now us"
  unfolding in_window_mset by (intro size_mset_mono multiset_filter_mono)

text \<open>
  A limiter over states \<open>'s\<close> counts requests against ceilings \<open>'k\<close>: \<open>recorded s k\<close> are the timestamps
  recorded for \<open>k\<close>. A step at time \<open>now\<close> records at most \<open>now\<close>, and only where fewer than \<open>limit k\<close>
  of the recorded ones lie in the last \<open>width\<close>. Then no window of that width, whenever it is looked
  at, ever holds more than \<open>limit k\<close>.
\<close>

locale windowed_admission =
  fixes invar :: "'s \<Rightarrow> int \<Rightarrow> bool"
    and recorded :: "'s \<Rightarrow> 'k \<Rightarrow> int list"
    and limit :: "'k \<Rightarrow> nat"
    and width :: int
    and clock_ok :: "int \<Rightarrow> bool"
    and step :: "'r \<Rightarrow> int \<Rightarrow> 's \<Rightarrow> 's"
  assumes invar_past: "\<lbrakk> invar s m; t \<in> set (recorded s k) \<rbrakk> \<Longrightarrow> t \<le> m"
    and invar_step: "\<lbrakk> invar s m; m \<le> now; clock_ok now \<rbrakk> \<Longrightarrow> invar (step r now s) now"
    and step_records: "\<lbrakk> invar s m; m \<le> now; clock_ok now \<rbrakk> \<Longrightarrow>
      mset (recorded (step r now s) k) \<subseteq># mset (recorded s k) \<or>
      (mset (recorded (step r now s) k) \<subseteq># add_mset now (mset (recorded s k)) \<and>
       in_window width now (recorded s k) < limit k)"
begin

lemma step_bounded:
  assumes "invar s m" and "m \<le> now" and "clock_ok now"
    and "\<And>T. in_window width T (recorded s k) \<le> limit k"
  shows "in_window width T (recorded (step r now s) k) \<le> limit k"
  using step_records [OF assms(1-3), of r k]
proof (elim disjE conjE)
  assume "mset (recorded (step r now s) k) \<subseteq># mset (recorded s k)"
  then show ?thesis using in_window_mono assms(4) le_trans by blast
next
  assume sub: "mset (recorded (step r now s) k) \<subseteq># add_mset now (mset (recorded s k))"
    and room: "in_window width now (recorded s k) < limit k"
  have le: "in_window width T (recorded (step r now s) k) \<le> in_window width T (recorded s k @ [now])"
    by (rule in_window_mono) (use sub in simp)
  show ?thesis
  proof (cases "T - width < now \<and> now \<le> T")
    case True
    have "filter (\<lambda>t. T - width < t \<and> t \<le> T) (recorded s k) =
        filter (\<lambda>t. T - width < t \<and> t \<le> T) (filter (\<lambda>t. now - width < t \<and> t \<le> now) (recorded s k))"
      unfolding filter_filter using True assms(2) invar_past [OF assms(1), of _ k]
      by (intro filter_cong) force+
    then have "in_window width T (recorded s k) \<le> in_window width now (recorded s k)"
      unfolding in_window_def by (metis length_filter_le)
    with le room True show ?thesis by (simp add: in_window_def)
  next
    case False
    then have "in_window width T (recorded s k @ [now]) = in_window width T (recorded s k)"
      by (simp add: in_window_def)
    with le assms(4) [of T] show ?thesis by simp
  qed
qed

lemma run_bounded:
  assumes "invar s m" and "sorted (m # map snd rs)" and "\<forall>(r, now) \<in> set rs. clock_ok now"
    and "\<And>T. in_window width T (recorded s k) \<le> limit k"
  shows "in_window width T (recorded (fold (\<lambda>(r, now). step r now) rs s) k) \<le> limit k"
  using assms
proof (induction rs arbitrary: s m)
  case Nil
  then show ?case by simp
next
  case (Cons r rs)
  obtain x now where r: "r = (x, now)" by (cases r)
  from Cons.prems have "m \<le> now" by (simp add: r)
  show ?case
    unfolding r fold.simps comp_def prod.case
    by (rule Cons.IH [of _ now])
      (use Cons.prems r \<open>m \<le> now\<close> in \<open>auto intro: invar_step step_bounded\<close>)
qed

end

subsection \<open>The key limiter against its history\<close>

text \<open>
  The reference: the list of all allowed requests so far, never pruned. A request is refused exactly
  when its window in that history is full.
\<close>

type_synonym history = "(string \<times> int) list"

definition recent :: "key_rate_limiter \<Rightarrow> int \<Rightarrow> history \<Rightarrow> history" where
  "recent cfg now h = filter (\<lambda>(_, t). now - key_window cfg < t) h"

definition window_spec :: "key_rate_limiter \<Rightarrow> string \<Rightarrow> int \<Rightarrow> history \<Rightarrow> key_decision \<times> history" where
  "window_spec cfg i now h =
     (if unat (key_global_max cfg) \<le> length (recent cfg now h) then (KDenyGlobal, h)
      else if unat (identity_max cfg) \<le> length (filter (\<lambda>(j, _). j = i) (recent cfg now h))
      then (KDenyIdentity, h)
      else (KAllow, h @ [(i, now)]))"

text \<open>The limiter's lists agree with the history from the start of any window that can still matter.\<close>

definition krl_rel :: "key_rate_limiter \<Rightarrow> int \<Rightarrow> key_rl_state \<Rightarrow> history \<Rightarrow> int \<Rightarrow> bool" where
  "krl_rel cfg lo st h m \<longleftrightarrow>
     (\<forall>(j, t) \<in> set h. lo \<le> t \<and> t \<le> m) \<and>
     (\<forall>c \<ge> m - key_window cfg. filter (\<lambda>t. c < t) (krl_global st) = filter (\<lambda>t. c < t) (map snd h)) \<and>
     (\<forall>c \<ge> m - key_window cfg. \<forall>i. filter (\<lambda>t. c < t) (bucket_of st i) =
        filter (\<lambda>t. c < t) (map snd (filter (\<lambda>(j, _). j = i) h))) \<and>
     (\<forall>t \<in> set (krl_global st). lo \<le> t) \<and> (\<forall>i. \<forall>t \<in> set (bucket_of st i). lo \<le> t)"

lemma prune_eq:
  assumes "\<forall>t \<in> set ts. lo \<le> t"
  shows "prune ts (checked_sub lo now w) = filter (\<lambda>t. now - w < t) ts"
  using assms by (auto simp: prune_def checked_sub_def intro!: filter_True [symmetric])

lemma bucket_of_upd [simp]:
  "bucket_of \<lparr>per_identity = (per_identity st)(i \<mapsto> b), krl_global = g\<rparr> j =
     (if j = i then b else bucket_of st j)"
  by (simp add: bucket_of_def)

lemma bucket_of_global [simp]: "bucket_of (st\<lparr>krl_global := g\<rparr>) i = bucket_of st i"
  by (simp add: bucket_of_def)

lemma filter_above: "d \<le> c \<Longrightarrow> filter (\<lambda>t. d < t \<and> c < t) ts = filter (\<lambda>t. c < (t::int)) ts"
  by (rule filter_cong) auto

lemma recent_times: "map snd (recent cfg now h) = filter (\<lambda>t. now - key_window cfg < t) (map snd h)"
  by (simp add: recent_def filter_map comp_def case_prod_unfold)

lemma recent_identity_times:
  "map snd (filter (\<lambda>(j, _). j = i) (recent cfg now h)) =
     filter (\<lambda>t. now - key_window cfg < t) (map snd (filter (\<lambda>(j, _). j = i) h))"
  by (simp add: recent_def filter_map comp_def case_prod_unfold conj_commute)

text \<open>The entries of the window, overall and of one identity, and what the state stores of them.\<close>

abbreviation win_all :: "key_rate_limiter \<Rightarrow> int \<Rightarrow> (string \<times> int) list \<Rightarrow> int list" where
  "win_all cfg now h \<equiv> map snd (recent cfg now h)"

abbreviation win_of :: "key_rate_limiter \<Rightarrow> int \<Rightarrow> (string \<times> int) list \<Rightarrow> string \<Rightarrow> int list" where
  "win_of cfg now h i \<equiv> map snd (filter (\<lambda>(j, _). j = i) (recent cfg now h))"

lemma krl_rel_prune:
  assumes "krl_rel cfg lo st h m" and "m \<le> now"
  shows "prune (krl_global st) (checked_sub lo now (key_window cfg)) = win_all cfg now h"
    and "prune (bucket_of st i) (checked_sub lo now (key_window cfg)) = win_of cfg now h i"
  using assms by (auto simp: krl_rel_def prune_eq recent_times recent_identity_times)

lemma krl_rel_facts:
  assumes "krl_rel cfg lo st h m" and "m \<le> now"
  shows "\<forall>(j, t) \<in> set h. lo \<le> t \<and> t \<le> now" and "\<forall>j. \<forall>t \<in> set (bucket_of st j). lo \<le> t"
    and "now - key_window cfg \<le> c \<Longrightarrow> filter (\<lambda>t. c < t) (bucket_of st j) =
      filter (\<lambda>t. c < t) (map snd (filter (\<lambda>(k, _). k = j) h))"
    and "\<forall>t \<in> set (win_all cfg now h). lo \<le> t" and "\<forall>t \<in> set (win_of cfg now h i). lo \<le> t"
  using assms by (fastforce simp: krl_rel_def recent_def)+

lemma check_at_window:
  assumes "krl_rel cfg lo st h m" and "m \<le> now"
  shows "check_at cfg lo i now st =
    (if unat (key_global_max cfg) \<le> length (recent cfg now h)
     then (KDenyGlobal, st\<lparr>krl_global := win_all cfg now h\<rparr>)
     else if unat (identity_max cfg) \<le> length (filter (\<lambda>(j, _). j = i) (recent cfg now h))
     then (KDenyIdentity, \<lparr>per_identity = (per_identity st)(i \<mapsto> win_of cfg now h i), krl_global = win_all cfg now h\<rparr>)
     else (KAllow, \<lparr>per_identity = (per_identity st)(i \<mapsto> win_of cfg now h i @ [now]),
       krl_global = win_all cfg now h @ [now]\<rparr>))"
  unfolding check_at_def Let_def krl_rel_prune [OF assms] by simp

lemma check_at_refines:
  assumes rel: "krl_rel cfg lo st h m" and "m \<le> now" and "lo \<le> now"
    and "check_at cfg lo i now st = (dec, st')"
  shows "\<exists>h'. window_spec cfg i now h = (dec, h') \<and> krl_rel cfg lo st' h' now"
proof -
  note facts = krl_rel_facts [OF rel \<open>m \<le> now\<close>]
  note window = assms(4) [unfolded check_at_window [OF rel \<open>m \<le> now\<close>]]
  note times = recent_times recent_identity_times
  consider (glob) "unat (key_global_max cfg) \<le> length (recent cfg now h)"
    | (ident) "\<not> unat (key_global_max cfg) \<le> length (recent cfg now h)"
      "unat (identity_max cfg) \<le> length (filter (\<lambda>(j, _). j = i) (recent cfg now h))"
    | (allow) "\<not> unat (key_global_max cfg) \<le> length (recent cfg now h)"
      "\<not> unat (identity_max cfg) \<le> length (filter (\<lambda>(j, _). j = i) (recent cfg now h))"
    by blast
  then show ?thesis
  proof cases
    case glob
    with window have "dec = KDenyGlobal" and "st' = st\<lparr>krl_global := win_all cfg now h\<rparr>"
      by simp_all
    with glob facts show ?thesis
      by (simp add: window_spec_def krl_rel_def times filter_above)
  next
    case ident
    with window have "dec = KDenyIdentity"
      and "st' = \<lparr>per_identity = (per_identity st)(i \<mapsto> win_of cfg now h i), krl_global = win_all cfg now h\<rparr>"
      by simp_all
    with ident facts show ?thesis
      by (simp add: window_spec_def krl_rel_def times filter_above)
  next
    case allow
    with window have "dec = KAllow"
      and "st' = \<lparr>per_identity = (per_identity st)(i \<mapsto> win_of cfg now h i @ [now]),
        krl_global = win_all cfg now h @ [now]\<rparr>"
      by simp_all
    with allow facts \<open>lo \<le> now\<close> show ?thesis
      by (simp add: window_spec_def krl_rel_def times filter_above)
  qed
qed

primrec krl_run :: "key_rate_limiter \<Rightarrow> int \<Rightarrow> (string \<times> int) list \<Rightarrow> key_rl_state \<Rightarrow>
    key_decision list \<times> key_rl_state" where
  "krl_run cfg lo [] st = ([], st)"
| "krl_run cfg lo (r # rs) st =
     (let (dec, st1) = check_at cfg lo (fst r) (snd r) st; (decs, st2) = krl_run cfg lo rs st1
      in (dec # decs, st2))"

primrec spec_run :: "key_rate_limiter \<Rightarrow> (string \<times> int) list \<Rightarrow> history \<Rightarrow> key_decision list \<times> history" where
  "spec_run cfg [] h = ([], h)"
| "spec_run cfg (r # rs) h =
     (let (dec, h1) = window_spec cfg (fst r) (snd r) h; (decs, h2) = spec_run cfg rs h1
      in (dec # decs, h2))"

lemma krl_run_refines:
  assumes "krl_rel cfg lo st h m" and "sorted (m # map snd rs)" and "lo \<le> m"
  shows "fst (krl_run cfg lo rs st) = fst (spec_run cfg rs h)"
  using assms
proof (induction rs arbitrary: st h m)
  case Nil
  then show ?case by simp
next
  case (Cons r rs)
  obtain dec st1 where st1: "check_at cfg lo (fst r) (snd r) st = (dec, st1)"
    by (cases "check_at cfg lo (fst r) (snd r) st")
  with Cons.prems obtain h1 where h1: "window_spec cfg (fst r) (snd r) h = (dec, h1)"
    and "krl_rel cfg lo st1 h1 (snd r)"
    using check_at_refines [OF Cons.prems(1) _ _ st1] by auto
  then have "fst (krl_run cfg lo rs st1) = fst (spec_run cfg rs h1)"
    using Cons.prems by (intro Cons.IH [of st1 h1 "snd r"]) auto
  then show ?case by (simp add: st1 h1 case_prod_unfold Let_def)
qed

lemma krl_rel_init [simp]: "krl_rel cfg lo krl_state0 [] m"
  by (simp add: krl_rel_def krl_state0_def bucket_of_def)

text \<open>The history is a sliding-window limiter with one ceiling for all and one per identity.\<close>

datatype ceiling = Everyone | Identity string

fun history_times :: "history \<Rightarrow> ceiling \<Rightarrow> int list" where
  "history_times h Everyone = map snd h"
| "history_times h (Identity i) = map snd (filter (\<lambda>(j, _). j = i) h)"

fun key_limit :: "key_rate_limiter \<Rightarrow> ceiling \<Rightarrow> nat" where
  "key_limit cfg Everyone = unat (key_global_max cfg)"
| "key_limit cfg (Identity _) = unat (identity_max cfg)"

definition history_past :: "history \<Rightarrow> int \<Rightarrow> bool" where
  "history_past h m \<longleftrightarrow> (\<forall>(j, t) \<in> set h. t \<le> m)"

lemma in_window_le: "in_window w now ts \<le> length (filter (\<lambda>t. now - w < t) ts)"
  unfolding in_window_def by (induction ts) auto

interpretation kl: windowed_admission history_past history_times "key_limit cfg" "key_window cfg"
  "\<lambda>_. True" "\<lambda>i now h. snd (window_spec cfg i now h)"
  for cfg :: key_rate_limiter
proof (unfold_locales, goal_cases)
  case (1 s m t k)
  then show ?case by (cases k) (auto simp: history_past_def)
next
  case (2 s m now r)
  then show ?case by (fastforce simp: history_past_def window_spec_def)
next
  case (3 s m now r k)
  have all: "in_window (key_window cfg) now (map snd s) \<le> length (recent cfg now s)"
    using in_window_le [of "key_window cfg" now "map snd s"] by (simp flip: recent_times)
  have own: "in_window (key_window cfg) now (map snd (filter (\<lambda>(j, _). j = r) s)) \<le>
      length (filter (\<lambda>(j, _). j = r) (recent cfg now s))"
    using in_window_le [of "key_window cfg" now "map snd (filter (\<lambda>(j, _). j = r) s)"]
    by (simp flip: recent_identity_times)
  show ?case
  proof (cases k)
    case Everyone
    with all show ?thesis by (auto simp: window_spec_def)
  next
    case (Identity j)
    with own show ?thesis by (cases "j = r") (auto simp: window_spec_def)
  qed
qed

lemma spec_run_fold: "snd (spec_run cfg rs h) = fold (\<lambda>(i, now) h. snd (window_spec cfg i now h)) rs h"
  by (induction rs arbitrary: h) (auto simp: case_prod_unfold Let_def)

text \<open>The requests that were allowed, in order.\<close>

definition allowed :: "(string \<times> int) list \<Rightarrow> key_decision list \<Rightarrow> history" where
  "allowed rs decs = map fst (filter (\<lambda>(_, dec). dec = KAllow) (zip rs decs))"

lemma spec_run_history: "snd (spec_run cfg rs h) = h @ allowed rs (fst (spec_run cfg rs h))"
  by (induction rs arbitrary: h)
    (auto simp: allowed_def case_prod_unfold Let_def window_spec_def split: if_splits)

lemma key_limiter_bounded:
  assumes "sorted (lo # map snd rs)"
  shows "in_window (key_window cfg) T
    (history_times (allowed rs (fst (krl_run cfg lo rs krl_state0))) k) \<le> key_limit cfg k"
proof -
  have "history_times [] k = []"
    by (cases k) auto
  then have "in_window (key_window cfg) T (history_times (snd (spec_run cfg rs [])) k) \<le> key_limit cfg k"
    unfolding spec_run_fold
    using assms by (intro kl.run_bounded [of _ lo]) (auto simp: history_past_def in_window_def)
  moreover have "fst (krl_run cfg lo rs krl_state0) = fst (spec_run cfg rs [])"
    using assms by (intro krl_run_refines [of _ _ _ _ lo]) auto
  ultimately show ?thesis by (simp add: spec_run_history)
qed

end
