(* ===== verification/Group_Crypto.thy ===== *)
theory Group_Crypto
  imports Signet_Prelude
begin

text \<open>
  Key generation and blind signing (\<open>src/crypto.rs\<close>). The partially-blind RSA scheme of the
  \<open>blind-rsa-signatures\<close> crate is a set of parameters of \<open>libs\<close>; \<open>gen i\<close> is what
  \<open>KeyPair::generate\<close> draws on the \<open>i\<close>-th attempt.
\<close>

definition version_info :: "string \<Rightarrow> bytes" where
  "version_info version_id = str_bytes (''freedink-vote:'' @ version_id)"

record generated_key =
  pkcs8_der :: bytes
  spki_der :: bytes

definition MAX_ATTEMPTS :: nat where "MAX_ATTEMPTS = 64"

text \<open>What one full-length key pair is exported to.\<close>

definition export_key :: "libs \<Rightarrow> bytes \<Rightarrow> string + generated_key" where
  "export_key L kp =
     bind_res (map_err (\<lambda>e. ''PKCS#8 export failed: '' @ e) (rsa_sk_to_der L kp)) (\<lambda>sk.
     bind_res (map_err (\<lambda>e. ''SPKI export failed: '' @ e) (rsa_pk_to_der L kp)) (\<lambda>pk.
     Ok \<lparr>pkcs8_der = sk, spki_der = pk\<rparr>))"

text \<open>The retry loop: \<open>attempt\<close> counts up while \<open>left\<close> attempts remain.\<close>

primrec generate_loop :: "libs \<Rightarrow> (nat \<Rightarrow> string + bytes) \<Rightarrow> nat \<Rightarrow> nat \<Rightarrow> nat \<Rightarrow> string + generated_key" where
  "generate_loop L gen bits 0 attempt =
     Err (''failed to generate a full '' @ show_nat bits @ ''-bit modulus after '' @
          show_nat MAX_ATTEMPTS @ '' attempts'')"
| "generate_loop L gen bits (Suc left) attempt =
     (case gen attempt of
        Err e \<Rightarrow> Err (''keygen failed: '' @ e)
      | Ok kp \<Rightarrow>
          if rsa_modulus_bits L kp \<noteq> bits then generate_loop L gen bits left (Suc attempt)
          else export_key L kp)"

definition generate_group_key :: "libs \<Rightarrow> (nat \<Rightarrow> string + bytes) \<Rightarrow> nat \<Rightarrow> string + generated_key" where
  "generate_group_key L gen bits = generate_loop L gen bits MAX_ATTEMPTS 0"

definition blind_sign :: "libs \<Rightarrow> bytes \<Rightarrow> string \<Rightarrow> bytes \<Rightarrow> string + bytes" where
  "blind_sign L pkcs8 version_id blinded =
     bind_res (rsa_sk_from_der L pkcs8) (\<lambda>sk.
     bind_res (rsa_public_key L sk) (\<lambda>pk.
     bind_res (rsa_derive_for_metadata L pk sk (version_info version_id)) (\<lambda>derived.
     rsa_blind_sign L derived blinded)))"

definition public_key_from_spki :: "libs \<Rightarrow> bytes \<Rightarrow> string + bytes" where
  "public_key_from_spki L spki = rsa_pk_from_der L spki"

subsection \<open>Lemmas\<close>

lemma version_info_inj: "version_info v = version_info w \<longleftrightarrow> v = w"
  by (simp add: version_info_def)

text \<open>An attempt is short when it draws a key whose modulus does not have the wanted length.\<close>

definition short_attempt :: "libs \<Rightarrow> (nat \<Rightarrow> string + bytes) \<Rightarrow> nat \<Rightarrow> nat \<Rightarrow> bool" where
  "short_attempt L gen bits i \<longleftrightarrow> (\<exists>kp. gen i = Ok kp \<and> rsa_modulus_bits L kp \<noteq> bits)"

text \<open>The attempt that ends the loop: all before it were short, and it yields the exported key.\<close>

definition yields_at ::
  "libs \<Rightarrow> (nat \<Rightarrow> string + bytes) \<Rightarrow> nat \<Rightarrow> generated_key \<Rightarrow> nat \<Rightarrow> nat \<Rightarrow> bool" where
  "yields_at L gen bits key attempt i \<longleftrightarrow>
     attempt \<le> i \<and> (\<forall>j. attempt \<le> j \<and> j < i \<longrightarrow> short_attempt L gen bits j) \<and>
     (\<exists>kp. gen i = Ok kp \<and> rsa_modulus_bits L kp = bits \<and> export_key L kp = Ok key)"

lemma yields_after_short:
  assumes "short_attempt L gen bits attempt"
  shows "yields_at L gen bits key attempt i \<longleftrightarrow> yields_at L gen bits key (Suc attempt) i"
proof -
  have "i \<noteq> attempt" if "gen i = Ok kp" "rsa_modulus_bits L kp = bits" for kp
    using assms that by (auto simp: short_attempt_def)
  then show ?thesis
    using assms unfolding yields_at_def by (metis Suc_leD Suc_leI le_antisym not_less_eq_eq order_le_less)
qed

lemma yields_at_once:
  "\<not> short_attempt L gen bits attempt \<Longrightarrow> yields_at L gen bits key attempt i \<Longrightarrow> i = attempt"
  unfolding yields_at_def by (metis le_refl order_le_less)

lemma generate_loop_yields:
  "generate_loop L gen bits left attempt = Ok key \<longleftrightarrow>
     (\<exists>i < attempt + left. yields_at L gen bits key attempt i)"
proof (induction left arbitrary: attempt)
  case 0
  then show ?case by (auto simp: yields_at_def)
next
  case (Suc left)
  show ?case
  proof (cases "short_attempt L gen bits attempt")
    case True
    then have "generate_loop L gen bits (Suc left) attempt = generate_loop L gen bits left (Suc attempt)"
      by (auto simp: short_attempt_def)
    then show ?thesis
      by (simp add: Suc yields_after_short [OF True])
  next
    case False
    then have step: "generate_loop L gen bits (Suc left) attempt = Ok key \<longleftrightarrow> yields_at L gen bits key attempt attempt"
      by (cases "gen attempt") (auto simp: short_attempt_def yields_at_def)
    show ?thesis
      unfolding step using yields_at_once [OF False] by (metis less_add_same_cancel1 zero_less_Suc)
  qed
qed

lemma generate_loop_Ok_iff:
  "generate_loop L gen bits left attempt = Ok key \<longleftrightarrow>
     (\<exists>i kp. attempt \<le> i \<and> i < attempt + left \<and>
        (\<forall>j. attempt \<le> j \<and> j < i \<longrightarrow> short_attempt L gen bits j) \<and>
        gen i = Ok kp \<and> rsa_modulus_bits L kp = bits \<and> export_key L kp = Ok key)"
  by (auto simp: generate_loop_yields yields_at_def)

text \<open>The generator is consulted at most \<open>MAX_ATTEMPTS\<close> times.\<close>

lemma generate_loop_draws:
  "(\<And>i. attempt \<le> i \<Longrightarrow> i < attempt + left \<Longrightarrow> gen i = gen' i) \<Longrightarrow>
     generate_loop L gen bits left attempt = generate_loop L gen' bits left attempt"
proof (induction left arbitrary: attempt)
  case 0
  then show ?case by simp
next
  case (Suc left)
  have "gen attempt = gen' attempt"
    using Suc.prems by simp
  moreover have "generate_loop L gen bits left (Suc attempt) = generate_loop L gen' bits left (Suc attempt)"
    by (rule Suc.IH) (use Suc.prems in auto)
  ultimately show ?case
    by (simp split: sum.split)
qed

lemma generate_group_key_Ok_iff:
  "generate_group_key L gen bits = Ok key \<longleftrightarrow>
     (\<exists>i < MAX_ATTEMPTS. \<exists>kp. (\<forall>j < i. short_attempt L gen bits j) \<and>
        gen i = Ok kp \<and> rsa_modulus_bits L kp = bits \<and> export_key L kp = Ok key)"
  by (auto simp: generate_group_key_def generate_loop_Ok_iff)

lemma blind_sign_Ok_iff:
  "blind_sign L pkcs8 v b = Ok s \<longleftrightarrow>
     (\<exists>sk pk derived. rsa_sk_from_der L pkcs8 = Ok sk \<and> rsa_public_key L sk = Ok pk \<and>
        rsa_derive_for_metadata L pk sk (version_info v) = Ok derived \<and>
        rsa_blind_sign L derived b = Ok s)"
  by (auto simp: blind_sign_def bind_res_Ok_iff)

text \<open>
  \<open>blind-rsa-signatures\<close>: an exported public key parses back. So the public half that the service publishes can
  be loaded by \<open>public_key_from_spki\<close>.
\<close>

definition spki_roundtrip :: "libs \<Rightarrow> bool" where
  "spki_roundtrip L \<longleftrightarrow> (\<forall>kp spki. rsa_pk_to_der L kp = Ok spki \<longrightarrow> (\<exists>pk. rsa_pk_from_der L spki = Ok pk))"

lemma generated_spki_loads:
  assumes "spki_roundtrip L" and "generate_group_key L gen bits = Ok key"
  shows "\<exists>pk. public_key_from_spki L (spki_der key) = Ok pk"
proof -
  obtain kp where "export_key L kp = Ok key"
    using assms(2) by (auto simp: generate_group_key_Ok_iff)
  then have "rsa_pk_to_der L kp = Ok (spki_der key)"
    by (auto simp: export_key_def bind_res_Ok_iff map_err_Ok_iff)
  with assms(1) show ?thesis
    unfolding spki_roundtrip_def public_key_from_spki_def by blast
qed

end
