(* ===== verification/Keystore.thy ===== *)
theory Keystore
  imports Signet_Prelude
begin

text \<open>
  Private-key-at-rest encryption (\<open>src/keystore.rs\<close>): parsing the key-encryption key, and sealing and
  opening a blob \<open>version || nonce || ciphertext\<close> bound to \<open>(group_id, key_id)\<close> as associated data.
  AES-GCM, hex and base64 are the parameters of \<open>libs\<close>; the nonce that \<open>seal\<close> draws is an argument.
\<close>

definition BLOB_VERSION :: "8 word" where "BLOB_VERSION = 1"
definition NONCE_LEN :: nat where "NONCE_LEN = 12"

record kek = kek_bytes :: bytes

subsection \<open>Parsing the key-encryption key\<close>

definition is_ascii_hexdigit :: "char \<Rightarrow> bool" where
  "is_ascii_hexdigit c = (let n = of_char c :: nat in
     (48 \<le> n \<and> n \<le> 57) \<or> (65 \<le> n \<and> n \<le> 70) \<or> (97 \<le> n \<and> n \<le> 102))"

definition decode_base64_any :: "libs \<Rightarrow> string \<Rightarrow> bytes option" where
  "decode_base64_any L s =
     (case b64_decode L s of Some b \<Rightarrow> Some b
      | None \<Rightarrow> (case b64_nopad_decode L s of Some b \<Rightarrow> Some b
      | None \<Rightarrow> (case b64url_pad_decode L s of Some b \<Rightarrow> Some b
      | None \<Rightarrow> b64url_dec L s)))"

definition kek_from_encoded :: "libs \<Rightarrow> string \<Rightarrow> string + kek" where
  "kek_from_encoded L raw =
     (let s = str_trim raw in
      bind_res
        (if length s = 64 \<and> list_all is_ascii_hexdigit s then hex_decode L s
         else ok_or ''not valid hex or base64'' (decode_base64_any L s))
        (\<lambda>b. if length b \<noteq> 32 then Err (''KEK must be 32 bytes, got '' @ show_nat (length b))
             else Ok \<lparr>kek_bytes = b\<rparr>))"

subsection \<open>Sealing and opening\<close>

definition associated_data :: "string \<Rightarrow> int \<Rightarrow> bytes" where
  "associated_data group_id key_id = str_bytes group_id @ i64_be_bytes key_id"

definition seal :: "libs \<Rightarrow> bytes \<Rightarrow> kek \<Rightarrow> string \<Rightarrow> int \<Rightarrow> bytes \<Rightarrow> string + bytes" where
  "seal L nonce k group_id key_id plaintext =
     (case aead_encrypt L (kek_bytes k) nonce (associated_data group_id key_id) plaintext of
        None \<Rightarrow> Err ''AES-GCM encryption failed''
      | Some ct \<Rightarrow> Ok (BLOB_VERSION # nonce @ ct))"

definition open_sealed :: "libs \<Rightarrow> kek \<Rightarrow> string \<Rightarrow> int \<Rightarrow> bytes \<Rightarrow> string + bytes" where
  "open_sealed L k group_id key_id blob =
     (if length blob < 1 + NONCE_LEN + 16 then Err ''ciphertext too short''
      else if hd blob \<noteq> BLOB_VERSION then Err (''unknown blob version '' @ show_nat (unat (hd blob)))
      else ok_or ''AES-GCM decryption/authentication failed''
             (aead_decrypt L (kek_bytes k) (take NONCE_LEN (drop 1 blob))
                (associated_data group_id key_id) (drop (1 + NONCE_LEN) blob)))"

subsection \<open>Lemmas\<close>

lemma associated_data_eq_iff:
  assumes "in_i64 i" and "in_i64 j"
  shows "associated_data g i = associated_data h j \<longleftrightarrow> g = h \<and> i = j"
proof
  assume "associated_data g i = associated_data h j"
  then have "str_bytes g = str_bytes h \<and> i64_be_bytes i = i64_be_bytes j"
    by (simp add: associated_data_def)
  with assms show "g = h \<and> i = j"
    by (auto dest: i64_be_bytes_inj)
qed simp

lemma seal_Ok_iff:
  "seal L n k g i p = Ok blob \<longleftrightarrow>
     (\<exists>ct. aead_encrypt L (kek_bytes k) n (associated_data g i) p = Some ct \<and>
           blob = BLOB_VERSION # n @ ct)"
  by (auto simp: seal_def split: option.splits)

lemma open_seal:
  assumes "aead_roundtrip L" and "length n = NONCE_LEN" and "seal L n k g i p = Ok blob"
  shows "open_sealed L k g i blob = Ok p"
  using assms by (auto simp: aead_roundtrip_def seal_Ok_iff open_sealed_def)

lemma open_seal_other:
  assumes "aead_roundtrip L" and "aead_authentic L (kek_bytes k) {associated_data g i, associated_data h j}"
    and "length n = NONCE_LEN"
    and "seal L n k g i p = Ok blob"
    and "in_i64 i" and "in_i64 j" and "(h, j) \<noteq> (g, i)"
  shows "open_sealed L k h j blob = Err ''AES-GCM decryption/authentication failed''"
proof -
  obtain ct where ct: "aead_encrypt L (kek_bytes k) n (associated_data g i) p = Some ct"
    and blob: "blob = BLOB_VERSION # n @ ct"
    using assms(4) by (auto simp: seal_Ok_iff)
  have "associated_data h j \<noteq> associated_data g i"
    using assms(5-7) by (auto simp: associated_data_eq_iff)
  then have "aead_decrypt L (kek_bytes k) n (associated_data h j) ct = None"
    using ct assms(2) by (simp add: aead_authentic_def)
  moreover have "length ct \<ge> 16"
    using ct assms(1) by (auto simp: aead_roundtrip_def)
  ultimately show ?thesis
    using assms(3) by (simp add: open_sealed_def blob)
qed

lemma kek_from_encoded_length: "kek_from_encoded L s = Ok k \<Longrightarrow> length (kek_bytes k) = 32"
  by (auto simp: kek_from_encoded_def Let_def bind_res_Ok_iff split: if_splits)

end
