(* ===== verification/Db_Keys.thy ===== *)
theory Db_Keys
  imports Db_Schema Group_Crypto Keystore
begin

text \<open>
  The group keys of \<open>src/db.rs\<close>: the active key of a group, inserting a key whose blob is sealed
  under the row id it gets, rotation, and the functions that generate, seal and load keys. The
  interface the key-generation service and the handlers rely on is the locale \<open>key_store\<close>.
\<close>

subsection \<open>Operations\<close>

record group_key =
  gkey_id :: int
  gkey_spki :: bytes
  gkey_sealed :: bytes

definition active_row :: "db \<Rightarrow> string \<Rightarrow> group_key_row option" where
  "active_row d g = find (\<lambda>r. gk_group_id r = g \<and> gk_active r) (group_keys d)"

definition active_key :: "engine \<Rightarrow> db \<Rightarrow> string \<Rightarrow> string + group_key option" where
  "active_key eng d g =
     run_stmt eng 0 (map_option
       (\<lambda>r. \<lparr>gkey_id = gk_key_id r, gkey_spki = gk_spki_der r, gkey_sealed = gk_sealed_pkcs8 r\<rparr>)
       (active_row d g))"

text \<open>The row as first inserted: active, with an empty blob.\<close>

definition fresh_key_row :: "int \<Rightarrow> int \<Rightarrow> string \<Rightarrow> bytes \<Rightarrow> group_key_row" where
  "fresh_key_row k now g spki =
     \<lparr>gk_key_id = k, gk_group_id = g, gk_spki_der = spki, gk_sealed_pkcs8 = [],
      gk_created_at = now, gk_retired_at = None\<rparr>"

definition set_sealed :: "int \<Rightarrow> bytes \<Rightarrow> group_key_row list \<Rightarrow> group_key_row list" where
  "set_sealed k blob = map (\<lambda>r. if gk_key_id r = k then r\<lparr>gk_sealed_pkcs8 := blob\<rparr> else r)"

text \<open>Two statements of the open transaction, the \<open>i\<close>-th and the next.\<close>

definition insert_active_key_resealed ::
  "engine \<Rightarrow> nat \<Rightarrow> int \<Rightarrow> db \<Rightarrow> string \<Rightarrow> bytes \<Rightarrow> (int \<Rightarrow> string + bytes) \<Rightarrow> string + int \<times> db" where
  "insert_active_key_resealed eng i clk d g spki sealer =
     bind_res
       (map_err sql_error_text (run_autoinc eng i
          (if active_row d g \<noteq> None then Some ''idx_group_keys_active'' else None)
          (group_keys_seq d)
          (\<lambda>k. (k, d\<lparr>group_keys := group_keys d @ [fresh_key_row k (now_secs clk) g spki],
                    group_keys_seq := k\<rparr>))))
       (\<lambda>(k, d1).
          if k < 1 then
            Err (''group key rowid '' @ show_int k @ '' violates the key_id >= 1 invariant'')
          else
            bind_res (sealer k) (\<lambda>blob.
            bind_res (run_stmt eng (Suc i) (d1\<lparr>group_keys := set_sealed k blob (group_keys d1)\<rparr>)) (\<lambda>d2.
            let updated = length (filter (\<lambda>r. gk_key_id r = k) (group_keys d1)) in
            if updated \<noteq> 1 then
              Err (''reseal updated '' @ show_nat updated @ '' rows for key_id '' @ show_int k @
                   '' (expected 1)'')
            else Ok (k, d2))))"

text \<open>Running a transaction: on an error the tables are those at its start.\<close>

definition in_transaction :: "db \<Rightarrow> string + 'a \<times> db \<Rightarrow> (string + 'a) \<times> db" where
  "in_transaction d m = (case m of Err e \<Rightarrow> (Err e, d) | Ok (x, d') \<Rightarrow> (Ok x, d'))"

definition insert_key_sealed ::
  "engine \<Rightarrow> int \<Rightarrow> db \<Rightarrow> string \<Rightarrow> bytes \<Rightarrow> (int \<Rightarrow> string + bytes) \<Rightarrow> (string + int) \<times> db" where
  "insert_key_sealed eng clk d g spki sealer =
     in_transaction d
       (bind_res (run_stmt eng 0 ()) (\<lambda>_.
        bind_res (insert_active_key_resealed eng 1 clk d g spki sealer) (\<lambda>r.
        run_stmt eng 3 r)))"

definition retire_row :: "int \<Rightarrow> string \<Rightarrow> group_key_row \<Rightarrow> group_key_row" where
  "retire_row now g r =
     (if gk_group_id r = g \<and> gk_active r then r\<lparr>gk_retired_at := Some now\<rparr> else r)"

definition retire_active :: "int \<Rightarrow> string \<Rightarrow> db \<Rightarrow> db" where
  "retire_active now g d = d\<lparr>group_keys := map (retire_row now g) (group_keys d)\<rparr>"

definition rotate_key_sealed ::
  "engine \<Rightarrow> (nat \<Rightarrow> int) \<Rightarrow> db \<Rightarrow> string \<Rightarrow> bytes \<Rightarrow> (int \<Rightarrow> string + bytes) \<Rightarrow> (string + int) \<times> db" where
  "rotate_key_sealed eng clk d g spki sealer =
     in_transaction d
       (bind_res (run_stmt eng 0 ()) (\<lambda>_.
        bind_res (run_stmt eng 1 (retire_active (now_secs (clk 0)) g d)) (\<lambda>d1.
        bind_res (insert_active_key_resealed eng 2 (clk 1) d1 g spki sealer) (\<lambda>r.
        run_stmt eng 4 r))))"

text \<open>
  What a call that creates a key consumes: the random key pairs and the random nonce, the clock
  readings and the engine's behaviour in its database calls.
\<close>

record key_env =
  env_gen :: "nat \<Rightarrow> string + bytes"
  env_nonce :: bytes
  env_clock :: "nat \<Rightarrow> int"
  env_engine :: "nat \<Rightarrow> engine"

definition create_key ::
  "libs \<Rightarrow> key_env \<Rightarrow> db \<Rightarrow> kek \<Rightarrow> string \<Rightarrow> nat \<Rightarrow> (string + bytes \<times> bytes) \<times> db" where
  "create_key L E d k g bits =
     (case generate_group_key L (env_gen E) bits of
        Err e \<Rightarrow> (Err e, d)
      | Ok gen \<Rightarrow>
          (case insert_key_sealed (env_engine E 0) (env_clock E 0) d g (spki_der gen)
                  (\<lambda>key_id. seal L (env_nonce E) k g key_id (pkcs8_der gen)) of
             (Err e, d') \<Rightarrow> (Err e, d')
           | (Ok _, d') \<Rightarrow> (Ok (pkcs8_der gen, spki_der gen), d')))"

definition rotate_key ::
  "libs \<Rightarrow> key_env \<Rightarrow> db \<Rightarrow> kek \<Rightarrow> string \<Rightarrow> nat \<Rightarrow> (string + bytes) \<times> db" where
  "rotate_key L E d k g bits =
     (case generate_group_key L (env_gen E) bits of
        Err e \<Rightarrow> (Err e, d)
      | Ok gen \<Rightarrow>
          (case rotate_key_sealed (env_engine E 0) (env_clock E) d g (spki_der gen)
                  (\<lambda>key_id. seal L (env_nonce E) k g key_id (pkcs8_der gen)) of
             (Err e, d') \<Rightarrow> (Err e, d')
           | (Ok _, d') \<Rightarrow> (Ok (spki_der gen), d')))"

text \<open>
  \<open>get_or_create_key\<close> takes the connection's lock twice, to look the key up and to create it: \<open>d\<close> is the
  database at the lookup and \<open>d'\<close> at the creation. \<open>load_key\<close> is the part up to the creation, \<open>Ok None\<close>
  if that is still to come. The second component of the answer is the database a creation leaves.
\<close>

definition load_key ::
  "libs \<Rightarrow> engine \<Rightarrow> db \<Rightarrow> kek \<Rightarrow> string \<Rightarrow> bool \<Rightarrow> string + (bytes \<times> bytes) option" where
  "load_key L eng d k g auto_create =
     (case active_key eng d g of
        Err e \<Rightarrow> Err e
      | Ok (Some key) \<Rightarrow>
          bind_res (open_sealed L k g (gkey_id key) (gkey_sealed key))
            (\<lambda>pkcs8. Ok (Some (pkcs8, gkey_spki key)))
      | Ok None \<Rightarrow> if \<not> auto_create then Err ''no key'' else Ok None)"

definition get_or_create_key ::
  "libs \<Rightarrow> engine \<Rightarrow> key_env \<Rightarrow> db \<Rightarrow> db \<Rightarrow> kek \<Rightarrow> string \<Rightarrow> nat \<Rightarrow> bool \<Rightarrow>
     (string + bytes \<times> bytes) \<times> db option" where
  "get_or_create_key L eng E d d' k g bits auto_create =
     (case load_key L eng d k g auto_create of
        Err e \<Rightarrow> (Err e, None)
      | Ok (Some key) \<Rightarrow> (Ok key, None)
      | Ok None \<Rightarrow> let (r, d'') = create_key L E d' k g bits in (r, Some d''))"

subsection \<open>Inserting and rotating, as effects on the table\<close>

text \<open>What a committed insertion leaves: one more row, sealed under its own id.\<close>

definition with_new_key :: "db \<Rightarrow> int \<Rightarrow> string \<Rightarrow> bytes \<Rightarrow> bytes \<Rightarrow> db" where
  "with_new_key d now g spki blob =
     (let k = group_keys_seq d + 1 in
      d\<lparr>group_keys := group_keys d @ [(fresh_key_row k now g spki)\<lparr>gk_sealed_pkcs8 := blob\<rparr>],
        group_keys_seq := k\<rparr>)"

lemma set_sealed_snoc:
  assumes "\<forall>r \<in> set rows. gk_key_id r \<noteq> k"
  shows "set_sealed k blob (rows @ [fresh_key_row k now g spki]) =
     rows @ [(fresh_key_row k now g spki)\<lparr>gk_sealed_pkcs8 := blob\<rparr>]"
    and "length (filter (\<lambda>r. gk_key_id r = k) (rows @ [fresh_key_row k now g spki])) = 1"
proof -
  have "map (\<lambda>r. if gk_key_id r = k then r\<lparr>gk_sealed_pkcs8 := blob\<rparr> else r) rows = rows"
    using assms by (simp add: map_idI)
  then show "set_sealed k blob (rows @ [fresh_key_row k now g spki]) =
     rows @ [(fresh_key_row k now g spki)\<lparr>gk_sealed_pkcs8 := blob\<rparr>]"
    by (simp add: set_sealed_def fresh_key_row_def)
  have "filter (\<lambda>r. gk_key_id r = k) rows = []"
    using assms by (simp add: filter_empty_conv)
  then show "length (filter (\<lambda>r. gk_key_id r = k) (rows @ [fresh_key_row k now g spki])) = 1"
    by (simp add: fresh_key_row_def)
qed

lemma seq_fresh: "keys_inv d \<Longrightarrow> \<forall>r \<in> set (group_keys d). gk_key_id r \<noteq> group_keys_seq d + 1"
  by (fastforce simp: keys_inv_def)

lemma insert_resealed_Ok_iff:
  assumes "keys_inv d"
  shows "insert_active_key_resealed eng i clk d g spki sealer = Ok (k, d') \<longleftrightarrow>
    stmt_fault eng i = None \<and> stmt_fault eng (Suc i) = None \<and> active_row d g = None \<and>
    group_keys_seq d < i64_max \<and> k = group_keys_seq d + 1 \<and>
    (\<exists>blob. sealer k = Ok blob \<and> d' = with_new_key d (now_secs clk) g spki blob)"
proof -
  let ?k = "group_keys_seq d + 1"
  let ?d1 = "d\<lparr>group_keys := group_keys d @ [fresh_key_row ?k (now_secs clk) g spki],
               group_keys_seq := ?k\<rparr>"
  have k: "\<not> ?k < 1" using assms by (simp add: keys_inv_def)
  have upd: "length (filter (\<lambda>r. gk_key_id r = ?k) (group_keys ?d1)) = 1"
    and new: "?d1\<lparr>group_keys := set_sealed ?k blob (group_keys ?d1)\<rparr> =
      with_new_key d (now_secs clk) g spki blob" for blob
    using set_sealed_snoc [OF seq_fresh [OF assms]] by (simp_all add: with_new_key_def Let_def)
  show ?thesis
    unfolding insert_active_key_resealed_def bind_res_Ok_iff map_err_Ok_iff run_autoinc_Ok_iff
    using k upd new by (auto simp: bind_res_Ok_iff Let_def split: if_splits)
qed

lemma in_transaction_Ok_iff: "in_transaction d m = (Ok x, d') \<longleftrightarrow> m = Ok (x, d')"
  by (auto simp: in_transaction_def split: sum.splits prod.splits)

lemma in_transaction_Err: "in_transaction d m = (Err e, d') \<Longrightarrow> d' = d"
  by (auto simp: in_transaction_def split: sum.splits prod.splits)

lemma insert_key_Ok_iff:
  assumes "keys_inv d"
  shows "insert_key_sealed eng clk d g spki sealer = (Ok k, d') \<longleftrightarrow>
    (\<forall>i \<in> {0, 1, 2, 3}. stmt_fault eng i = None) \<and> active_row d g = None \<and>
    group_keys_seq d < i64_max \<and> k = group_keys_seq d + 1 \<and>
    (\<exists>blob. sealer k = Ok blob \<and> d' = with_new_key d (now_secs clk) g spki blob)"
  by (auto simp: insert_key_sealed_def in_transaction_Ok_iff bind_res_Ok_iff
      insert_resealed_Ok_iff [OF assms] numeral_2_eq_2)

lemma insert_key_Err: "insert_key_sealed eng clk d g spki sealer = (Err m, d') \<Longrightarrow> d' = d"
  unfolding insert_key_sealed_def by (rule in_transaction_Err)

lemma rotate_sealed_Err: "rotate_key_sealed eng clk d g spki sealer = (Err m, d') \<Longrightarrow> d' = d"
  unfolding rotate_key_sealed_def by (rule in_transaction_Err)

subsection \<open>The active row under each effect\<close>

lemma active_row_SomeD:
  "active_row d g = Some r \<Longrightarrow> r \<in> set (group_keys d) \<and> gk_group_id r = g \<and> gk_active r"
  unfolding active_row_def by (drule find_SomeD) simp

lemma active_row_None_iff:
  "active_row d g = None \<longleftrightarrow> (\<forall>r \<in> set (group_keys d). gk_group_id r = g \<longrightarrow> \<not> gk_active r)"
  by (auto simp: active_row_def find_None_iff)

lemma active_row_eq:
  "\<lbrakk> keys_inv d; r \<in> set (group_keys d); gk_group_id r = g; gk_active r \<rbrakk> \<Longrightarrow> active_row d g = Some r"
  unfolding active_row_def keys_inv_def using find_unique [of gk_group_id gk_active "group_keys d" r]
  by simp

lemma retire_row_simps [simp]:
  "gk_key_id (retire_row now g r) = gk_key_id r"
  "gk_group_id (retire_row now g r) = gk_group_id r"
  "gk_spki_der (retire_row now g r) = gk_spki_der r"
  "gk_sealed_pkcs8 (retire_row now g r) = gk_sealed_pkcs8 r"
  "gk_active (retire_row now g r) \<longleftrightarrow> gk_active r \<and> gk_group_id r \<noteq> g"
  by (auto simp: retire_row_def gk_active_def)

lemma retire_row_other: "gk_group_id r \<noteq> g \<Longrightarrow> retire_row now g r = r"
  by (simp add: retire_row_def)

lemma keys_inv_retire: "keys_inv d \<Longrightarrow> keys_inv (retire_active now g d)"
  unfolding keys_inv_def retire_active_def
  by (auto intro: unique_on_map)

lemma active_row_retire:
  "active_row (retire_active now g d) h = (if h = g then None else active_row d h)"
proof -
  have "find (\<lambda>r. gk_group_id r = h \<and> gk_active r) (map (retire_row now g) rows) =
    (if h = g then None else find (\<lambda>r. gk_group_id r = h \<and> gk_active r) rows)" for rows
    by (induction rows) (auto simp: retire_row_other)
  then show ?thesis by (simp add: active_row_def retire_active_def)
qed

lemma keys_inv_new:
  assumes "keys_inv d" and "active_row d g = None" and "group_keys_seq d < i64_max"
  shows "keys_inv (with_new_key d now g spki blob)"
  using assms
  by (fastforce simp: keys_inv_def with_new_key_def Let_def unique_on_snoc fresh_key_row_def
      active_row_None_iff)

lemma active_row_new:
  assumes "active_row d g = None"
  shows "active_row (with_new_key d now g spki blob) h =
    (if h = g then Some ((fresh_key_row (group_keys_seq d + 1) now g spki)\<lparr>gk_sealed_pkcs8 := blob\<rparr>)
     else active_row d h)"
  using assms by (auto simp: active_row_def with_new_key_def Let_def find_snoc fresh_key_row_def
      gk_active_def split: option.splits)

lemma rotate_sealed_Ok_iff:
  assumes "keys_inv d"
  shows "rotate_key_sealed eng clk d g spki sealer = (Ok k, d') \<longleftrightarrow>
    (\<forall>i \<in> {0, 1, 2, 3, 4}. stmt_fault eng i = None) \<and>
    group_keys_seq d < i64_max \<and> k = group_keys_seq d + 1 \<and>
    (\<exists>blob. sealer k = Ok blob \<and>
       d' = with_new_key (retire_active (now_secs (clk 0)) g d) (now_secs (clk 1)) g spki blob)"
proof -
  have seq: "group_keys_seq (retire_active now g d) = group_keys_seq d" for now
    by (simp add: retire_active_def)
  show ?thesis
    by (auto simp: rotate_key_sealed_def in_transaction_Ok_iff bind_res_Ok_iff seq active_row_retire
        insert_resealed_Ok_iff [OF keys_inv_retire [OF assms]] numeral_3_eq_3 numeral_2_eq_2)
qed

subsection \<open>Creating, rotating and loading keys\<close>

lemma create_key_Ok:
  assumes "keys_inv d" and "create_key L E d k g bits = (Ok (p, s), d')"
  obtains blob where "active_row d g = None" and "group_keys_seq d < i64_max"
    and "generate_group_key L (env_gen E) bits = Ok \<lparr>pkcs8_der = p, spki_der = s\<rparr>"
    and "seal L (env_nonce E) k g (group_keys_seq d + 1) p = Ok blob"
    and "d' = with_new_key d (now_secs (env_clock E 0)) g s blob"
proof -
  from assms(2) obtain gen where gen: "generate_group_key L (env_gen E) bits = Ok gen"
    and ps: "p = pkcs8_der gen" "s = spki_der gen"
    and ins: "\<exists>i. insert_key_sealed (env_engine E 0) (env_clock E 0) d g (spki_der gen)
      (\<lambda>key_id. seal L (env_nonce E) k g key_id (pkcs8_der gen)) = (Ok i, d')"
    by (auto simp: create_key_def split: sum.splits prod.splits)
  have key: "gen = \<lparr>pkcs8_der = p, spki_der = s\<rparr>"
    using ps by (cases gen) simp
  from ins obtain blob where "active_row d g = None" and "group_keys_seq d < i64_max"
    and "seal L (env_nonce E) k g (group_keys_seq d + 1) (pkcs8_der gen) = Ok blob"
    and "d' = with_new_key d (now_secs (env_clock E 0)) g (spki_der gen) blob"
    by (auto simp: insert_key_Ok_iff [OF assms(1)])
  then show thesis
    using gen by (intro that) (simp_all add: key)
qed

lemma create_key_Err: "create_key L E d k g bits = (Err m, d') \<Longrightarrow> d' = d"
  by (auto simp: create_key_def dest: insert_key_Err split: sum.splits prod.splits)

lemma rotate_key_Ok:
  assumes "keys_inv d" and "rotate_key L E d k g bits = (Ok s, d')"
  obtains p blob where "group_keys_seq d < i64_max"
    and "generate_group_key L (env_gen E) bits = Ok \<lparr>pkcs8_der = p, spki_der = s\<rparr>"
    and "seal L (env_nonce E) k g (group_keys_seq d + 1) p = Ok blob"
    and "d' = with_new_key (retire_active (now_secs (env_clock E 0)) g d)
      (now_secs (env_clock E 1)) g s blob"
proof -
  from assms(2) obtain gen where gen: "generate_group_key L (env_gen E) bits = Ok gen"
    and s: "s = spki_der gen"
    and ins: "\<exists>i. rotate_key_sealed (env_engine E 0) (env_clock E) d g (spki_der gen)
      (\<lambda>key_id. seal L (env_nonce E) k g key_id (pkcs8_der gen)) = (Ok i, d')"
    by (auto simp: rotate_key_def split: sum.splits prod.splits)
  obtain p where key: "gen = \<lparr>pkcs8_der = p, spki_der = s\<rparr>"
    using s by (cases gen) simp
  from ins obtain blob where "group_keys_seq d < i64_max"
    and "seal L (env_nonce E) k g (group_keys_seq d + 1) (pkcs8_der gen) = Ok blob"
    and "d' = with_new_key (retire_active (now_secs (env_clock E 0)) g d)
      (now_secs (env_clock E 1)) g (spki_der gen) blob"
    by (auto simp: rotate_sealed_Ok_iff [OF assms(1)])
  then show thesis
    using gen by (intro that) (simp_all add: key)
qed

lemma rotate_key_Err: "rotate_key L E d k g bits = (Err m, d') \<Longrightarrow> d' = d"
  by (auto simp: rotate_key_def dest: rotate_sealed_Err split: sum.splits prod.splits)

lemma retire_active_seq [simp]: "group_keys_seq (retire_active now g d) = group_keys_seq d"
  by (simp add: retire_active_def)

lemma create_key_inv:
  assumes "keys_inv d" and "create_key L E d k g bits = (r, d')"
  shows "keys_inv d'"
proof (cases r)
  case (Inl m)
  with assms show ?thesis by (auto dest: create_key_Err)
next
  case (Inr ps)
  with assms(2) have "create_key L E d k g bits = (Ok (fst ps, snd ps), d')" by simp
  with assms(1) show ?thesis
    by (rule create_key_Ok) (simp add: keys_inv_new assms(1))
qed

lemma rotate_key_inv:
  assumes "keys_inv d" and "rotate_key L E d k g bits = (r, d')"
  shows "keys_inv d'"
proof (cases r)
  case (Inl m)
  with assms show ?thesis by (auto dest: rotate_key_Err)
next
  case (Inr s)
  with assms(2) have "rotate_key L E d k g bits = (Ok s, d')" by simp
  with assms(1) show ?thesis
    by (rule rotate_key_Ok) (simp add: keys_inv_new keys_inv_retire active_row_retire assms(1))
qed

lemma with_new_key_frame [frame_simps]:
  "issuances (with_new_key d now g s b) = issuances d"
  "issuances_seq (with_new_key d now g s b) = issuances_seq d"
  "service_keys (with_new_key d now g s b) = service_keys d"
  "dedup_entries (with_new_key d now g s b) = dedup_entries d"
  "issuances (retire_active now g d) = issuances d"
  "issuances_seq (retire_active now g d) = issuances_seq d"
  "service_keys (retire_active now g d) = service_keys d"
  "dedup_entries (retire_active now g d) = dedup_entries d"
  by (simp_all add: with_new_key_def retire_active_def Let_def)

lemma in_transaction_frame:
  assumes "in_transaction d m = (r, d')" and "\<And>x d1. m = Ok (x, d1) \<Longrightarrow> f d1 = f d"
  shows "f d' = f d"
  using assms by (auto simp: in_transaction_def split: sum.splits prod.splits)

lemma insert_resealed_frame:
  assumes "insert_active_key_resealed eng i clk d g spki sealer = Ok (k, d')"
  shows "issuances d' = issuances d" and "issuances_seq d' = issuances_seq d"
    and "service_keys d' = service_keys d" and "dedup_entries d' = dedup_entries d"
  using assms unfolding insert_active_key_resealed_def
  by (auto simp: bind_res_Ok_iff run_autoinc_Ok_iff Let_def split: if_splits)

lemma insert_key_frame:
  assumes "insert_key_sealed eng clk d g spki sealer = (r, d')"
  shows "issuances d' = issuances d" and "issuances_seq d' = issuances_seq d"
    and "service_keys d' = service_keys d" and "dedup_entries d' = dedup_entries d"
  using assms unfolding insert_key_sealed_def
  by (auto elim!: in_transaction_frame simp: bind_res_Ok_iff insert_resealed_frame)

lemma create_key_frame [frame_simps]:
  assumes "create_key L E d k g bits = (r, d')"
  shows "issuances d' = issuances d" and "issuances_seq d' = issuances_seq d"
    and "service_keys d' = service_keys d" and "dedup_entries d' = dedup_entries d"
    and "issuance_inv d' = issuance_inv d" and "service_inv d' = service_inv d"
    and "ledger_inv d' = ledger_inv d"
proof -
  show t: "issuances d' = issuances d" "issuances_seq d' = issuances_seq d"
    "service_keys d' = service_keys d" "dedup_entries d' = dedup_entries d"
    using assms by (auto simp: create_key_def dest: insert_key_frame split: sum.splits prod.splits)
  show "issuance_inv d' = issuance_inv d" "service_inv d' = service_inv d"
    "ledger_inv d' = ledger_inv d"
    by (simp_all add: issuance_inv_def service_inv_def ledger_inv_def t)
qed

lemma rotate_sealed_frame:
  assumes "rotate_key_sealed eng clk d g spki sealer = (r, d')"
  shows "issuances d' = issuances d" and "issuances_seq d' = issuances_seq d"
    and "service_keys d' = service_keys d" and "dedup_entries d' = dedup_entries d"
  using assms unfolding rotate_key_sealed_def
  by (auto elim!: in_transaction_frame simp: bind_res_Ok_iff insert_resealed_frame frame_simps)

lemma rotate_key_frame [frame_simps]:
  assumes "rotate_key L E d k g bits = (r, d')"
  shows "issuances d' = issuances d" and "issuances_seq d' = issuances_seq d"
    and "service_keys d' = service_keys d" and "dedup_entries d' = dedup_entries d"
    and "issuance_inv d' = issuance_inv d" and "service_inv d' = service_inv d"
    and "ledger_inv d' = ledger_inv d"
proof -
  show t: "issuances d' = issuances d" "issuances_seq d' = issuances_seq d"
    "service_keys d' = service_keys d" "dedup_entries d' = dedup_entries d"
    using assms by (auto simp: rotate_key_def dest: rotate_sealed_frame split: sum.splits prod.splits)
  show "issuance_inv d' = issuance_inv d" "service_inv d' = service_inv d"
    "ledger_inv d' = ledger_inv d"
    by (simp_all add: issuance_inv_def service_inv_def ledger_inv_def t)
qed

subsection \<open>Every stored key can be opened\<close>

text \<open>
  Each row's blob opens under the row's own group and id (retired rows included): no crash and no
  failed sealing leaves a group with an active key that can never be used.
\<close>

definition keys_openable :: "libs \<Rightarrow> kek \<Rightarrow> db \<Rightarrow> bool" where
  "keys_openable L k d \<longleftrightarrow> (\<forall>r \<in> set (group_keys d).
     \<exists>p. open_sealed L k (gk_group_id r) (gk_key_id r) (gk_sealed_pkcs8 r) = Ok p)"

lemma keys_openable_new:
  assumes "keys_openable L k d" and "aead_roundtrip L" and "length n = NONCE_LEN"
    and "seal L n k g (group_keys_seq d + 1) p = Ok blob"
  shows "keys_openable L k (with_new_key d now g s blob)"
  using assms open_seal [OF assms(2,3,4)]
  by (auto simp: keys_openable_def with_new_key_def Let_def fresh_key_row_def)

lemma keys_openable_retire: "keys_openable L k (retire_active now g d) = keys_openable L k d"
  by (simp add: keys_openable_def retire_active_def)

lemma create_key_openable:
  assumes "aead_roundtrip L" and "length (env_nonce E) = NONCE_LEN" and "keys_inv d"
    and "keys_openable L k d" and "create_key L E d k g bits = (r, d')"
  shows "keys_openable L k d'"
proof (cases r)
  case (Inl m)
  with assms(4,5) show ?thesis by (auto dest: create_key_Err)
next
  case (Inr ps)
  with assms(5) have "create_key L E d k g bits = (Ok (fst ps, snd ps), d')" by simp
  with assms(3) show ?thesis
    by (rule create_key_Ok) (simp add: keys_openable_new [OF assms(4,1,2)])
qed

lemma rotate_key_openable:
  assumes "aead_roundtrip L" and "length (env_nonce E) = NONCE_LEN" and "keys_inv d"
    and "keys_openable L k d" and "rotate_key L E d k g bits = (r, d')"
  shows "keys_openable L k d'"
proof (cases r)
  case (Inl m)
  with assms(4,5) show ?thesis by (auto dest: rotate_key_Err)
next
  case (Inr s)
  with assms(5) have "rotate_key L E d k g bits = (Ok s, d')" by simp
  with assms(3) show ?thesis
    by (rule rotate_key_Ok)
      (auto intro!: keys_openable_new [OF _ assms(1,2)] simp: keys_openable_retire assms(4))
qed

text \<open>A created key is the one a later load returns.\<close>

lemma get_after_create:
  assumes "aead_roundtrip L" and "length (env_nonce E) = NONCE_LEN" and "keys_inv d"
    and "create_key L E d k g bits = (Ok (p, s), d')" and "stmt_fault eng 0 = None"
  shows "get_or_create_key L eng E' d' d'' k g bits' auto = (Ok (p, s), None)"
proof -
  from assms(3,4) obtain blob where none: "active_row d g = None"
    and sealed: "seal L (env_nonce E) k g (group_keys_seq d + 1) p = Ok blob"
    and d': "d' = with_new_key d (now_secs (env_clock E 0)) g s blob"
    by (blast elim: create_key_Ok)
  have "active_row d' g = Some ((fresh_key_row (group_keys_seq d + 1) (now_secs (env_clock E 0)) g s)
      \<lparr>gk_sealed_pkcs8 := blob\<rparr>)"
    using none by (simp add: d' active_row_new)
  with assms(5) open_seal [OF assms(1,2) sealed] show ?thesis
    by (simp add: get_or_create_key_def load_key_def active_key_def run_stmt_None fresh_key_row_def)
qed

subsection \<open>The interface of a key store\<close>

text \<open>The public half of the active key of a group.\<close>

definition active_pub :: "db \<Rightarrow> string \<Rightarrow> (int \<times> bytes) option" where
  "active_pub d g = map_option (\<lambda>r. (gk_key_id r, gk_spki_der r)) (active_row d g)"

lemma active_pub_None [simp]: "active_pub d g = None \<longleftrightarrow> active_row d g = None"
  by (simp add: active_pub_def)

text \<open>
  What the key-generation service and the handlers rely on: creating succeeds only for a group
  without an active key and makes one; rotating replaces the active key by one with an id never
  used before; either touches its own group only, and a call that fails changes nothing.
\<close>

locale key_store =
  fixes invar :: "'s \<Rightarrow> bool"
    and active :: "'s \<Rightarrow> string \<Rightarrow> (int \<times> bytes) option"
    and top_id :: "'s \<Rightarrow> int"
    and create :: "'e \<Rightarrow> 's \<Rightarrow> string \<Rightarrow> (string + 'c) \<times> 's"
    and rotate :: "'e \<Rightarrow> 's \<Rightarrow> string \<Rightarrow> (string + bytes) \<times> 's"
  assumes active_top: "\<lbrakk> invar s; active s g = Some (i, pk) \<rbrakk> \<Longrightarrow> i \<le> top_id s"
    and create_done: "\<lbrakk> invar s; create e s g = (Ok c, s') \<rbrakk> \<Longrightarrow>
           active s g = None \<and> (\<exists>pk. active s' = (active s)(g \<mapsto> (top_id s', pk))) \<and>
           top_id s < top_id s'"
    and create_fails: "create e s g = (Err m, s') \<Longrightarrow> s' = s"
    and rotate_done: "\<lbrakk> invar s; rotate e s g = (Ok pk, s') \<rbrakk> \<Longrightarrow>
           active s' = (active s)(g \<mapsto> (top_id s', pk)) \<and> top_id s < top_id s'"
    and rotate_fails: "rotate e s g = (Err m, s') \<Longrightarrow> s' = s"
    and invar_create: "\<lbrakk> invar s; create e s g = (r, s') \<rbrakk> \<Longrightarrow> invar s'"
    and invar_rotate: "\<lbrakk> invar s; rotate e s g = (r', s') \<rbrakk> \<Longrightarrow> invar s'"
begin

text \<open>Once a group has a key it keeps having one.\<close>

lemma create_keeps_ready:
  assumes "invar s" and "active s h \<noteq> None" and "create e s g = (r, s')"
  shows "active s' h = active s h"
proof (cases r)
  case (Inl m)
  with assms show ?thesis using create_fails [of e s g m s'] by simp
next
  case (Inr c)
  with assms have "active s g = None" and "\<exists>pk. active s' = (active s)(g \<mapsto> (top_id s', pk))"
    using create_done [of s e g c s'] by auto
  with assms(2) show ?thesis by auto
qed

lemma rotate_keeps_ready:
  assumes "invar s" and "active s h \<noteq> None" and "rotate e s g = (r, s')"
  shows "active s' h \<noteq> None"
proof (cases r)
  case (Inl m)
  with assms show ?thesis using rotate_fails [of e s g m s'] by simp
next
  case (Inr pk)
  with assms show ?thesis using rotate_done [of s e g pk s'] by auto
qed

text \<open>A second creation for the same group is refused.\<close>

lemma create_once:
  assumes "invar s" and "active s g \<noteq> None"
  shows "\<exists>m. create e s g = (Err m, s)"
proof -
  obtain r s' where c: "create e s g = (r, s')" by (cases "create e s g")
  show ?thesis
  proof (cases r)
    case (Inl m)
    with c show ?thesis using create_fails [of e s g m s'] by auto
  next
    case (Inr x)
    with c assms show ?thesis using create_done [of s e g x s'] by auto
  qed
qed

text \<open>A key that a rotation replaces is never active again under its old id.\<close>

lemma rotate_fresh_id:
  assumes "invar s" and "rotate e s g = (Ok pk, s')" and "active s h = Some (i, pk')"
  shows "active s' g = Some (top_id s', pk) \<and> i < top_id s'"
  using assms rotate_done [of s e g pk s'] active_top [of s h i pk'] by auto

end

interpretation ks: key_store keys_inv active_pub group_keys_seq
  "\<lambda>E d g. create_key L E d k g bits" "\<lambda>E d g. rotate_key L E d k g bits"
  for L :: libs and k :: kek and bits :: nat
proof (unfold_locales, goal_cases)
  case (1 s g i pk)
  then show ?case
    by (auto simp: active_pub_def keys_inv_def dest: active_row_SomeD)
next
  case (2 s e g c s')
  then show ?case
    by (cases c) (auto elim!: create_key_Ok simp: active_pub_def active_row_new fresh_key_row_def
        fun_eq_iff, auto simp: with_new_key_def Let_def)
next
  case (3 e s g m s')
  then show ?case by (rule create_key_Err)
next
  case (4 s e g pk s')
  then obtain p blob where s': "s' = with_new_key (retire_active (now_secs (env_clock e 0)) g s)
      (now_secs (env_clock e 1)) g pk blob"
    by (blast elim: rotate_key_Ok)
  have "active_row (retire_active now g s) g = None" for now
    by (simp add: active_row_retire)
  then show ?case
    by (simp add: s' active_pub_def active_row_new active_row_retire fun_eq_iff fresh_key_row_def)
      (simp add: with_new_key_def retire_active_def Let_def)
next
  case (5 e s g m s')
  then show ?case by (rule rotate_key_Err)
next
  case (6 s e g r s')
  then show ?case by (rule create_key_inv)
next
  case (7 s e g r' s')
  then show ?case by (rule rotate_key_inv)
qed

end
