(* ===== verification/Keygen.thy ===== *)
theory Keygen
  imports Db_Keys
begin

text \<open>
  The key-generation service (\<open>src/keygen.rs\<close>). Its state is the shared database, the semaphore, the
  map of in-flight generations and the spawned tasks with their watch channels (task and channel
  \<open>i\<close> belong together). \<open>ensure\<close>, \<open>status\<close>, \<open>wait_ready\<close>, \<open>rotate\<close> and \<open>active_key\<close> are functions; the
  asynchronous worker of \<open>spawn_worker\<close> is cut at its await points into the steps of the relation
  \<open>task_step\<close>.

  Where a function gives up the lock or awaits, other tasks may run: the argument \<open>other\<close> is
  the effect of whatever they do.
\<close>

subsection \<open>State\<close>

datatype keygen_status = Ready | Pending | Failed string

text \<open>\<open>Returned\<close> carries the result of the blocking call, after the permit has been dropped.\<close>

datatype task_phase = Waiting | Running | Returned "string + unit" | Published | Gone

record task =
  t_group :: string
  t_phase :: task_phase

record kg_state =
  kg_db :: db
  kg_kek :: kek
  kg_bits :: nat
  permits :: nat
  closed :: bool
  inflight :: "string \<rightharpoonup> nat"
  channels :: "nat \<Rightarrow> keygen_status"
  tasks :: "task list"

definition keygen_new :: "db \<Rightarrow> kek \<Rightarrow> nat \<Rightarrow> nat \<Rightarrow> kg_state" where
  "keygen_new d k bits max_concurrent =
     \<lparr>kg_db = d, kg_kek = k, kg_bits = bits, permits = max max_concurrent 1, closed = False,
      inflight = Map.empty, channels = (\<lambda>_. Pending), tasks = []\<rparr>"

subsection \<open>Operations\<close>

definition spawn_worker :: "string \<Rightarrow> kg_state \<Rightarrow> kg_state" where
  "spawn_worker g s = s\<lparr>tasks := tasks s @ [\<lparr>t_group = g, t_phase = Waiting\<rparr>]\<rparr>"

text \<open>Registering the receiver of a new channel and spawning the worker that owns its sender.\<close>

definition register_worker :: "string \<Rightarrow> kg_state \<Rightarrow> kg_state" where
  "register_worker g s =
     (let i = length (tasks s) in
      spawn_worker g
        (s\<lparr>inflight := (inflight s)(g \<mapsto> i), channels := (channels s)(i := Pending)\<rparr>))"

definition ensure_locked :: "engine \<Rightarrow> kg_state \<Rightarrow> string \<Rightarrow> (string + keygen_status) \<times> kg_state" where
  "ensure_locked eng s g =
     (if inflight s g \<noteq> None then (Ok Pending, s)
      else
        (case active_key eng (kg_db s) g of
           Err e \<Rightarrow> (Err e, s)
         | Ok (Some _) \<Rightarrow> (Ok Ready, s)
         | Ok None \<Rightarrow> (Ok Pending, register_worker g s)))"

definition ensure ::
  "(nat \<Rightarrow> engine) \<Rightarrow> (kg_state \<Rightarrow> kg_state) \<Rightarrow> kg_state \<Rightarrow> string \<Rightarrow> (string + keygen_status) \<times> kg_state" where
  "ensure engs other s g =
     (case active_key (engs 0) (kg_db s) g of
        Err e \<Rightarrow> (Err e, s)
      | Ok (Some _) \<Rightarrow> (Ok Ready, s)
      | Ok None \<Rightarrow> ensure_locked (engs 1) (other s) g)"

definition status :: "engine \<Rightarrow> (kg_state \<Rightarrow> kg_state) \<Rightarrow> kg_state \<Rightarrow> string \<Rightarrow> (string + keygen_status) \<times> kg_state" where
  "status eng other s g =
     (case active_key eng (kg_db s) g of
        Err e \<Rightarrow> (Err e, s)
      | Ok (Some _) \<Rightarrow> (Ok Ready, s)
      | Ok None \<Rightarrow>
          let s = other s in
          (case inflight s g of
             Some rx \<Rightarrow> (Ok (channels s rx), s)
           | None \<Rightarrow> (Ok Pending, s)))"

text \<open>
  The wait loop is driven by what wakes it up, each with the effect of the tasks that ran until then.
  With no further event the call is still waiting, which is \<open>None\<close>.
\<close>

datatype wake =
    Deadline (wake_effect: "kg_state \<Rightarrow> kg_state")
  | Changed (wake_effect: "kg_state \<Rightarrow> kg_state")
  | SenderDropped (wake_effect: "kg_state \<Rightarrow> kg_state")

fun wait_loop ::
  "engine \<Rightarrow> (kg_state \<Rightarrow> kg_state) \<Rightarrow> string \<Rightarrow> nat \<Rightarrow> kg_state \<Rightarrow> wake list \<Rightarrow>
     ((string + keygen_status) \<times> kg_state) option" where
  "wait_loop eng other g rx s events =
     (case channels s rx of
        Ready \<Rightarrow> Some (Ok Ready, s)
      | Failed e \<Rightarrow> Some (Ok (Failed e), s)
      | Pending \<Rightarrow>
          (case events of
             [] \<Rightarrow> None
           | Deadline f # _ \<Rightarrow> Some (Ok Pending, f s)
           | Changed f # rest \<Rightarrow> wait_loop eng other g rx (f s) rest
           | SenderDropped f # _ \<Rightarrow> Some (status eng other (f s) g)))"

declare wait_loop.simps [simp del]

definition wait_ready ::
  "(nat \<Rightarrow> engine) \<Rightarrow> (nat \<Rightarrow> kg_state \<Rightarrow> kg_state) \<Rightarrow> wake list \<Rightarrow> kg_state \<Rightarrow> string \<Rightarrow>
     ((string + keygen_status) \<times> kg_state) option" where
  "wait_ready engs other events s g =
     (case ensure engs (other 0) s g of
        (Err e, s) \<Rightarrow> Some (Err e, s)
      | (Ok Ready, s) \<Rightarrow> Some (Ok Ready, s)
      | (Ok (Failed e), s) \<Rightarrow> Some (Ok (Failed e), s)
      | (Ok Pending, s) \<Rightarrow>
          let s = other 1 s in
          (case inflight s g of
             Some rx \<Rightarrow> wait_loop (engs 2) (other 2) g rx s events
           | None \<Rightarrow> Some (status (engs 2) (other 2) (other 9 s) g)))"

text \<open>
  \<open>rotate\<close>: \<open>other 0\<close> is the wait for a permit, \<open>other 1\<close> what happens until the blocking call
  starts and \<open>other 2\<close> until it is awaited and the permit dropped. Without a permit the call is still waiting (\<open>None\<close>). \<open>join\<close> is the error if the blocking task
  does not return.
\<close>

definition kg_rotate ::
  "libs \<Rightarrow> key_env \<Rightarrow> string option \<Rightarrow> (nat \<Rightarrow> kg_state \<Rightarrow> kg_state) \<Rightarrow> kg_state \<Rightarrow> string \<Rightarrow>
     ((string + bytes) \<times> kg_state) option" where
  "kg_rotate L E join other s g =
     (let s = other 0 s in
      if closed s then Some (Err ''keygen semaphore closed'', s)
      else if permits s = 0 then None
      else
        let s = other 1 (s\<lparr>permits := permits s - 1\<rparr>) in
        (case join of
           Some e \<Rightarrow> let s = other 2 s in
             Some (Err (''rotate task join error: '' @ e), s\<lparr>permits := permits s + 1\<rparr>)
         | None \<Rightarrow>
             let (r, d) = rotate_key L E (kg_db s) (kg_kek s) g (kg_bits s);
                 s = other 2 (s\<lparr>kg_db := d\<rparr>) in
             Some (r, s\<lparr>permits := permits s + 1\<rparr>)))"

definition kg_active_key :: "engine \<Rightarrow> kg_state \<Rightarrow> string \<Rightarrow> string + (int \<times> bytes) option" where
  "kg_active_key eng s g =
     bind_res (active_key eng (kg_db s) g) (\<lambda>k. Ok (map_option (\<lambda>k. (gkey_id k, gkey_spki k)) k))"

subsection \<open>The worker\<close>

definition set_phase :: "nat \<Rightarrow> task_phase \<Rightarrow> kg_state \<Rightarrow> kg_state" where
  "set_phase i p s = s\<lparr>tasks := (tasks s)[i := (tasks s ! i)\<lparr>t_phase := p\<rparr>]\<rparr>"

definition remove_inflight :: "string \<Rightarrow> kg_state \<Rightarrow> kg_state" where
  "remove_inflight g s = s\<lparr>inflight := (inflight s)(g := None)\<rparr>"

definition send :: "nat \<Rightarrow> keygen_status \<Rightarrow> kg_state \<Rightarrow> kg_state" where
  "send i st s = s\<lparr>channels := (channels s)(i := st)\<rparr>"

text \<open>The blocking call of a worker, and the release of its permit.\<close>

definition worker_create :: "libs \<Rightarrow> key_env \<Rightarrow> nat \<Rightarrow> kg_state \<Rightarrow> kg_state" where
  "worker_create L E i s =
     (let (r, d) = create_key L E (kg_db s) (kg_kek s) (t_group (tasks s ! i)) (kg_bits s) in
      set_phase i (Returned (case r of Err e \<Rightarrow> Err e | Ok _ \<Rightarrow> Ok ()))
        (s\<lparr>kg_db := d, permits := permits s + 1\<rparr>))"

text \<open>The status it publishes: a failure counts as \<open>Ready\<close> when the group has a key after all.\<close>

definition worker_status :: "engine \<Rightarrow> db \<Rightarrow> string \<Rightarrow> string + unit \<Rightarrow> keygen_status" where
  "worker_status eng d g r =
     (case r of
        Ok _ \<Rightarrow> Ready
      | Err e \<Rightarrow>
          (case active_key eng d g of Ok (Some _) \<Rightarrow> Ready | _ \<Rightarrow> Failed e))"

definition task_at :: "kg_state \<Rightarrow> nat \<Rightarrow> task_phase \<Rightarrow> bool" where
  "task_at s i p \<longleftrightarrow> i < length (tasks s) \<and> t_phase (tasks s ! i) = p"

inductive task_step :: "libs \<Rightarrow> kg_state \<Rightarrow> kg_state \<Rightarrow> bool" for L :: libs where
  acquire: "\<lbrakk> task_at s i Waiting; \<not> closed s; 0 < permits s \<rbrakk> \<Longrightarrow>
     task_step L s (set_phase i Running (s\<lparr>permits := permits s - 1\<rparr>))"
| semaphore_closed: "\<lbrakk> task_at s i Waiting; closed s \<rbrakk> \<Longrightarrow>
     task_step L s (set_phase i Published (send i (Failed ''keygen semaphore closed'') s))"
| create: "task_at s i Running \<Longrightarrow> task_step L s (worker_create L E i s)"
| panicked: "task_at s i Running \<Longrightarrow>
     task_step L s (send i (Failed (''keygen task join error: '' @ e))
       (set_phase i Published (s\<lparr>permits := permits s + 1\<rparr>)))"
| publish: "task_at s i (Returned r) \<Longrightarrow>
     task_step L s (send i (worker_status eng (kg_db s) (t_group (tasks s ! i)) r)
       (set_phase i Published s))"
| deregister: "task_at s i Published \<Longrightarrow>
     task_step L s (set_phase i Gone (remove_inflight (t_group (tasks s ! i)) s))"

inductive_cases task_stepE: "task_step L s s'"

end
