(* ===== verification/Keygen_Invariants.thy ===== *)
theory Keygen_Invariants
  imports Keygen
begin

text \<open>
  What every state of the key-generation service satisfies (one worker per group in flight, a published
  \<open>Ready\<close> means a usable key, permits are neither lost nor made up), that workers always make
  progress, and what the functions of the service answer.
\<close>

subsection \<open>The invariant\<close>

definition running :: "task \<Rightarrow> bool" where
  "running t \<longleftrightarrow> t_phase t = Running"

definition live_worker :: "kg_state \<Rightarrow> nat \<Rightarrow> string \<Rightarrow> bool" where
  "live_worker s i g \<longleftrightarrow> i < length (tasks s) \<and> t_group (tasks s ! i) = g \<and> t_phase (tasks s ! i) \<noteq> Gone"

definition has_key :: "kg_state \<Rightarrow> string \<Rightarrow> bool" where
  "has_key s g \<longleftrightarrow> active_pub (kg_db s) g \<noteq> None"

definition kg_inv :: "kg_state \<Rightarrow> bool" where
  "kg_inv s \<longleftrightarrow>
     keys_inv (kg_db s) \<and> \<not> closed s \<and>
     (\<forall>g i. inflight s g = Some i \<longleftrightarrow> live_worker s i g) \<and>
     (\<forall>i < length (tasks s). channels s i = Ready \<longrightarrow> has_key s (t_group (tasks s ! i))) \<and>
     (\<forall>i < length (tasks s). t_phase (tasks s ! i) = Returned (Ok ()) \<longrightarrow> has_key s (t_group (tasks s ! i)))"

text \<open>The workers that generate a key, and the permits that are free or held by one of them.\<close>

definition busy :: "kg_state \<Rightarrow> nat" where
  "busy s = length (filter running (tasks s))"

definition stock :: "kg_state \<Rightarrow> nat" where
  "stock s = permits s + busy s"

lemma length_filter_update:
  assumes "i < length xs"
  shows "length (filter P (xs[i := x])) + (if P (xs ! i) then 1 else 0) =
    length (filter P xs) + (if P x then 1 else 0)"
proof -
  have xs: "xs = take i xs @ xs ! i # drop (Suc i) xs"
    using assms by (rule id_take_nth_drop)
  show ?thesis
    using assms by (subst xs, subst (3) xs) (simp add: upd_conv_take_nth_drop)
qed

lemma set_phase_sel [simp]:
  "kg_db (set_phase i p s) = kg_db s" "permits (set_phase i p s) = permits s"
  "closed (set_phase i p s) = closed s" "inflight (set_phase i p s) = inflight s"
  "channels (set_phase i p s) = channels s" "length (tasks (set_phase i p s)) = length (tasks s)"
  "kg_bits (set_phase i p s) = kg_bits s" "kg_kek (set_phase i p s) = kg_kek s"
  "tasks (set_phase i p s) = (tasks s)[i := (tasks s ! i)\<lparr>t_phase := p\<rparr>]"
  by (simp_all add: set_phase_def)

lemma send_sel [simp]:
  "kg_db (send i st s) = kg_db s" "permits (send i st s) = permits s" "closed (send i st s) = closed s"
  "inflight (send i st s) = inflight s" "tasks (send i st s) = tasks s"
  "channels (send i st s) = (channels s)(i := st)"
  by (simp_all add: send_def)

lemma remove_inflight_sel [simp]:
  "kg_db (remove_inflight g s) = kg_db s" "permits (remove_inflight g s) = permits s"
  "closed (remove_inflight g s) = closed s" "tasks (remove_inflight g s) = tasks s"
  "channels (remove_inflight g s) = channels s" "inflight (remove_inflight g s) = (inflight s)(g := None)"
  by (simp_all add: remove_inflight_def)

lemma kg_db_update_sel [simp]:
  "has_key (s\<lparr>permits := n\<rparr>) g = has_key s g"
  by (simp add: has_key_def)

text \<open>Keys are never lost.\<close>

lemma create_keeps_key:
  "\<lbrakk> keys_inv d; create_key L E d k g bits = (r, d'); active_pub d h \<noteq> None \<rbrakk> \<Longrightarrow> active_pub d' h \<noteq> None"
  using ks.create_keeps_ready [of d h L E k g bits r d'] by simp

lemma rotate_keeps_key:
  "\<lbrakk> keys_inv d; rotate_key L E d k g bits = (r, d'); active_pub d h \<noteq> None \<rbrakk> \<Longrightarrow> active_pub d' h \<noteq> None"
  using ks.rotate_keeps_ready [of d h L E k g bits r d'] by simp

lemma active_row_cong: "group_keys d' = group_keys d \<Longrightarrow> active_row d' g = active_row d g"
  by (simp add: active_row_def)

lemma active_pub_cong: "group_keys d' = group_keys d \<Longrightarrow> active_pub d' g = active_pub d g"
  by (simp add: active_pub_def active_row_def)

lemma create_makes_key:
  "\<lbrakk> keys_inv d; create_key L E d k g bits = (Ok c, d') \<rbrakk> \<Longrightarrow> active_pub d' g \<noteq> None"
  using ks.create_done [of d L E k g bits c d'] by (auto simp del: active_pub_None)

subsection \<open>Preservation\<close>

text \<open>A step of one task that moves it between phases other than \<open>Gone\<close>.\<close>

lemma live_worker_phase:
  assumes "tasks s' = (tasks s)[i := (tasks s ! i)\<lparr>t_phase := p\<rparr>]" and "p \<noteq> Gone"
    and "i < length (tasks s)" and "t_phase (tasks s ! i) \<noteq> Gone"
  shows "live_worker s' j g = live_worker s j g"
  using assms by (cases "j = i") (auto simp: live_worker_def)

lemma kg_inv_phase:
  assumes inv: "kg_inv s" and i: "i < length (tasks s)" and "t_phase (tasks s ! i) \<noteq> Gone" and "p \<noteq> Gone"
    and tasks: "tasks s' = (tasks s)[i := (tasks s ! i)\<lparr>t_phase := p\<rparr>]"
    and "inflight s' = inflight s" and "closed s' = closed s" and keys: "keys_inv (kg_db s')"
    and mono: "\<And>g. has_key s g \<Longrightarrow> has_key s' g"
    and chan: "\<And>j. j \<noteq> i \<Longrightarrow> channels s' j = channels s j"
    and chan_i: "channels s' i = Ready \<Longrightarrow> has_key s' (t_group (tasks s ! i))"
    and ret: "p = Returned (Ok ()) \<Longrightarrow> has_key s' (t_group (tasks s ! i))"
  shows "kg_inv s'"
proof -
  have live: "live_worker s' j g = live_worker s j g" for j g
    by (rule live_worker_phase [OF tasks assms(4) i assms(3)])
  have "channels s' j = Ready \<longrightarrow> has_key s' (t_group (tasks s' ! j))"
    and "t_phase (tasks s' ! j) = Returned (Ok ()) \<longrightarrow> has_key s' (t_group (tasks s' ! j))"
    if "j < length (tasks s')" for j
    using inv that i chan [of j] chan_i ret mono
    by (cases "j = i"; auto simp: kg_inv_def tasks)+
  then show ?thesis
    using inv assms(6,7) keys by (simp add: kg_inv_def live)
qed

text \<open>A step that ends a task.\<close>

lemma kg_inv_gone:
  assumes inv: "kg_inv s" and i: "i < length (tasks s)"
    and tasks: "tasks s' = (tasks s)[i := (tasks s ! i)\<lparr>t_phase := Gone\<rparr>]"
    and infl: "inflight s' = (inflight s)(t_group (tasks s ! i) := None)"
    and alive: "t_phase (tasks s ! i) \<noteq> Gone"
    and "closed s' = closed s" and keys: "keys_inv (kg_db s')" and "channels s' = channels s"
    and mono: "\<And>g. has_key s g \<Longrightarrow> has_key s' g"
  shows "kg_inv s'"
proof -
  have old: "inflight s g = Some j \<longleftrightarrow> live_worker s j g" for g j
    using inv by (simp add: kg_inv_def)
  have "inflight s (t_group (tasks s ! i)) = Some i"
    using i alive by (simp add: old live_worker_def)
  then have "live_worker s j (t_group (tasks s ! i)) \<longleftrightarrow> j = i" for j
    by (auto simp flip: old)
  moreover have "live_worker s' j g \<longleftrightarrow> live_worker s j g \<and> j \<noteq> i" for j g
    using i by (cases "j = i") (auto simp: live_worker_def tasks)
  moreover have "live_worker s i g \<longleftrightarrow> g = t_group (tasks s ! i)" for g
    using i alive by (auto simp: live_worker_def)
  ultimately have "inflight s' g = Some j \<longleftrightarrow> live_worker s' j g" for g j
    by (auto simp: infl old)
  moreover have "channels s' j = Ready \<longrightarrow> has_key s' (t_group (tasks s' ! j))"
    and "t_phase (tasks s' ! j) = Returned (Ok ()) \<longrightarrow> has_key s' (t_group (tasks s' ! j))"
    if "j < length (tasks s')" for j
    using inv that i mono assms(8) by (cases "j = i"; auto simp: kg_inv_def tasks)+
  ultimately show ?thesis
    using inv assms(6) keys by (simp add: kg_inv_def)
qed

lemma worker_status_Ready:
  "worker_status eng d g r = Ready \<Longrightarrow> r = Ok () \<or> active_pub d g \<noteq> None"
  by (auto simp: worker_status_def active_key_def active_pub_def split: sum.splits option.splits)

lemma task_step_inv:
  assumes "task_step L s s'" and inv: "kg_inv s"
  shows "kg_inv s'"
  using assms(1)
proof cases
  case (acquire i)
  then show ?thesis
    using inv by (intro kg_inv_phase [OF inv, of i Running])
      (auto simp: task_at_def kg_inv_def has_key_def)
next
  case (semaphore_closed i)
  with inv show ?thesis by (simp add: kg_inv_def)
next
  case (create i E)
  obtain r d where c: "create_key L E (kg_db s) (kg_kek s) (t_group (tasks s ! i)) (kg_bits s) = (r, d)"
    by (cases "create_key L E (kg_db s) (kg_kek s) (t_group (tasks s ! i)) (kg_bits s)")
  have "keys_inv (kg_db s)"
    using inv by (simp add: kg_inv_def)
  note facts = create_key_inv [OF this c] create_keeps_key [OF this c] create_makes_key [OF this]
  have "(case r of Err e \<Rightarrow> Err e | Ok _ \<Rightarrow> Ok ()) = Ok () \<Longrightarrow> active_pub d (t_group (tasks s ! i)) \<noteq> None"
    using c facts(3) by (cases r) auto
  moreover have "channels s i = Ready \<Longrightarrow> has_key s (t_group (tasks s ! i))"
    using inv create(2) by (simp add: kg_inv_def task_at_def)
  ultimately show ?thesis
    using create c facts(1,2)
    by (intro kg_inv_phase [OF inv, of i "Returned (case r of Err e \<Rightarrow> Err e | Ok _ \<Rightarrow> Ok ())"])
      (auto simp: worker_create_def task_at_def has_key_def)
next
  case (panicked i e)
  then show ?thesis
    using inv by (intro kg_inv_phase [OF inv, of i Published])
      (auto simp: task_at_def kg_inv_def has_key_def)
next
  case (publish i r eng)
  have "r = Ok () \<Longrightarrow> has_key s (t_group (tasks s ! i))"
    using inv publish(2) by (simp add: kg_inv_def task_at_def)
  with publish inv show ?thesis
    by (intro kg_inv_phase [OF inv, of i Published])
      (auto simp: task_at_def kg_inv_def has_key_def simp del: active_pub_None dest!: worker_status_Ready)
next
  case (deregister i)
  then show ?thesis
    using inv by (intro kg_inv_gone [OF inv, of i]) (auto simp: task_at_def kg_inv_def has_key_def)
qed

text \<open>A worker takes and returns one permit.\<close>

lemma stock_update:
  assumes "i < length (tasks s)" and "tasks s' = (tasks s)[i := (tasks s ! i)\<lparr>t_phase := p\<rparr>]"
    and "permits s' + (if p = Running then 1 else 0) =
      permits s + (if t_phase (tasks s ! i) = Running then 1 else 0)"
  shows "stock s' = stock s"
  using length_filter_update [OF assms(1), of running "(tasks s ! i)\<lparr>t_phase := p\<rparr>"] assms(2,3)
  by (simp add: stock_def busy_def running_def split: if_splits)

lemma task_step_stock:
  assumes "task_step L s s'"
  shows "stock s' = stock s"
  using assms
proof cases
  case (create i E)
  then show ?thesis
    by (intro stock_update [of i s _ "t_phase (tasks s' ! i)"])
      (auto simp: task_at_def worker_create_def split: prod.splits)
qed (auto intro!: stock_update simp: task_at_def)

lemma register_worker_sel [simp]:
  "tasks (register_worker g s) = tasks s @ [\<lparr>t_group = g, t_phase = Waiting\<rparr>]"
  "kg_db (register_worker g s) = kg_db s" "closed (register_worker g s) = closed s"
  "permits (register_worker g s) = permits s"
  "inflight (register_worker g s) = (inflight s)(g \<mapsto> length (tasks s))"
  "channels (register_worker g s) = (channels s)(length (tasks s) := Pending)"
  by (simp_all add: register_worker_def spawn_worker_def Let_def)

lemma register_worker_inv:
  assumes inv: "kg_inv s" and free: "inflight s g = None"
  shows "kg_inv (register_worker g s)"
proof -
  let ?s = "register_worker g s"
  have old: "inflight s h = Some j \<longleftrightarrow> live_worker s j h" for h j
    using inv by (simp add: kg_inv_def)
  have live: "live_worker ?s j h \<longleftrightarrow> live_worker s j h \<or> (j = length (tasks s) \<and> h = g)" for j h
    by (auto simp: live_worker_def nth_append less_Suc_eq)
  have above: "\<not> live_worker s (length (tasks s)) h" for h
    by (simp add: live_worker_def)
  have none: "\<not> live_worker s j g" for j
    using free by (simp flip: old)
  have "inflight ?s h = Some j \<longleftrightarrow> live_worker ?s j h" for h j
    using above none by (auto simp: live old split: if_splits)
  moreover have "has_key ?s = has_key s"
    by (simp add: has_key_def fun_eq_iff)
  ultimately show ?thesis
    using inv by (auto simp: kg_inv_def nth_append less_Suc_eq)
qed

lemma ensure_locked_outcome:
  assumes "ensure_locked eng s g = (r, s')"
  shows "s' = s \<or> (inflight s g = None \<and> r = Ok Pending \<and> s' = register_worker g s)"
proof (cases "active_key eng (kg_db s) g")
  case (Inl e)
  with assms show ?thesis by (simp add: ensure_locked_def split: if_split_asm)
next
  case (Inr k)
  with assms show ?thesis by (cases k) (simp_all add: ensure_locked_def split: if_split_asm)
qed

lemma ensure_locked_cases:
  assumes "ensure_locked eng s g = (r, s')"
  obtains (same) "s' = s" | (registered) "inflight s g = None" and "r = Ok Pending" and "s' = register_worker g s"
  using ensure_locked_outcome [OF assms] by (elim disjE conjE) (rule same registered; assumption)+

lemma ensure_locked_inv:
  assumes "kg_inv s" and "ensure_locked eng s g = (r, s')"
  shows "kg_inv s'"
  using assms(2) by (rule ensure_locked_cases) (auto simp: assms(1) register_worker_inv)

lemma ensure_locked_stock:
  "ensure_locked eng s g = (r, s') \<Longrightarrow> stock s' = stock s"
  "ensure_locked eng s g = (r, s') \<Longrightarrow> busy s' = busy s"
  by (erule ensure_locked_cases, simp_all add: stock_def busy_def running_def)+

text \<open>No channel is used before its task exists.\<close>

definition channels_fresh :: "kg_state \<Rightarrow> bool" where
  "channels_fresh s \<longleftrightarrow> (\<forall>j \<ge> length (tasks s). channels s j = Pending)"

lemma task_step_fresh: "task_step L s s' \<Longrightarrow> channels_fresh s \<Longrightarrow> channels_fresh s'"
  by (erule task_stepE)
    (auto simp: channels_fresh_def task_at_def worker_create_def split: prod.splits)

lemma ensure_locked_fresh: "ensure_locked eng s g = (r, s') \<Longrightarrow> channels_fresh s \<Longrightarrow> channels_fresh s'"
  by (erule ensure_locked_cases) (simp_all add: channels_fresh_def)

lemma keygen_new_inv:
  "keys_inv d \<Longrightarrow> kg_inv (keygen_new d k bits n)" "stock (keygen_new d k bits n) = max n 1"
  by (simp_all add: kg_inv_def keygen_new_def live_worker_def stock_def busy_def)

subsection \<open>Progress\<close>

text \<open>How many steps a task still has to take.\<close>

fun phase_rank :: "task_phase \<Rightarrow> nat" where
  "phase_rank Waiting = 4"
| "phase_rank Running = 3"
| "phase_rank (Returned _) = 2"
| "phase_rank Published = 1"
| "phase_rank Gone = 0"

definition work_left :: "kg_state \<Rightarrow> nat" where
  "work_left s = sum_list (map (\<lambda>t. phase_rank (t_phase t)) (tasks s))"

definition all_done :: "kg_state \<Rightarrow> bool" where
  "all_done s \<longleftrightarrow> (\<forall>t \<in> set (tasks s). t_phase t = Gone)"

lemma work_left_update:
  assumes "i < length ts" and "phase_rank p < phase_rank (t_phase (ts ! i))"
  shows "sum_list (map (\<lambda>t. phase_rank (t_phase t)) (ts[i := (ts ! i)\<lparr>t_phase := p\<rparr>])) <
    sum_list (map (\<lambda>t. phase_rank (t_phase t)) ts)"
  using assms
proof (induction ts arbitrary: i)
  case Nil
  then show ?case by simp
next
  case (Cons t ts)
  then show ?case by (cases i) simp_all
qed

lemma task_step_decreases: "task_step L s s' \<Longrightarrow> work_left s' < work_left s"
  by (erule task_stepE)
    (auto simp: work_left_def task_at_def worker_create_def intro!: work_left_update split: prod.splits)

lemma task_step_enabled:
  assumes "\<not> closed s" and "0 < stock s" and "\<not> all_done s"
  shows "\<exists>s'. task_step L s s'"
proof -
  from assms(3) obtain i where i: "i < length (tasks s)" "t_phase (tasks s ! i) \<noteq> Gone"
    by (auto simp: all_done_def in_set_conv_nth)
  show ?thesis
  proof (cases "\<exists>j < length (tasks s). t_phase (tasks s ! j) \<notin> {Gone, Waiting}")
    case True
    then obtain j where j: "j < length (tasks s)" "t_phase (tasks s ! j) \<notin> {Gone, Waiting}"
      by blast
    then consider "task_at s j Running" | r where "task_at s j (Returned r)" | "task_at s j Published"
      by (cases "t_phase (tasks s ! j)") (auto simp: task_at_def)
    then show ?thesis
      by cases (meson task_step.intros)+
  next
    case False
    then have "filter running (tasks s) = []"
      by (fastforce simp: filter_empty_conv running_def in_set_conv_nth)
    with assms(2) have "0 < permits s"
      by (simp add: stock_def busy_def)
    moreover have "task_at s i Waiting"
      using False i by (auto simp: task_at_def)
    ultimately show ?thesis
      using assms(1) by (meson task_step.acquire)
  qed
qed

lemma task_step_closed: "task_step L s s' \<Longrightarrow> closed s' = closed s"
  by (erule task_stepE) (auto simp: worker_create_def split: prod.splits)

lemma tasks_drain:
  assumes "\<not> closed s" and "0 < stock s"
  shows "\<exists>s'. (task_step L)\<^sup>*\<^sup>* s s' \<and> all_done s'"
  using assms
proof (induction "work_left s" arbitrary: s rule: less_induct)
  case less
  show ?case
  proof (cases "all_done s")
    case True
    then show ?thesis by blast
  next
    case False
    then obtain s1 where s1: "task_step L s s1"
      using task_step_enabled [OF less.prems] by blast
    with less.hyps [of s1] task_step_decreases task_step_stock task_step_closed less.prems
    obtain s' where "(task_step L)\<^sup>*\<^sup>* s1 s'" "all_done s'"
      by metis
    with s1 show ?thesis by (meson converse_rtranclp_into_rtranclp)
  qed
qed

lemma all_done_inflight: "kg_inv s \<Longrightarrow> all_done s \<Longrightarrow> inflight s = Map.empty"
proof (rule ext, rule ccontr)
  fix g
  assume "kg_inv s" and "all_done s" and "inflight s g \<noteq> None"
  then show False
    by (auto simp: kg_inv_def all_done_def live_worker_def)
qed

subsection \<open>What a client of the service may rely on\<close>

text \<open>How the state develops while other tasks run: tasks are only added, keys are never lost.\<close>

definition good :: "kg_state \<Rightarrow> bool" where
  "good s \<longleftrightarrow> kg_inv s \<and> channels_fresh s"

definition evolves :: "kg_state \<Rightarrow> kg_state \<Rightarrow> bool" where
  "evolves s s' \<longleftrightarrow> good s' \<and> length (tasks s) \<le> length (tasks s') \<and>
     (\<forall>i < length (tasks s). t_group (tasks s' ! i) = t_group (tasks s ! i)) \<and>
     (\<forall>g. has_key s g \<longrightarrow> has_key s' g)"

definition rely :: "(kg_state \<Rightarrow> kg_state) \<Rightarrow> bool" where
  "rely other \<longleftrightarrow> (\<forall>s. good s \<longrightarrow> evolves s (other s))"

lemma evolves_refl: "good s \<Longrightarrow> evolves s s"
  by (simp add: evolves_def)

lemma evolves_good: "evolves s s' \<Longrightarrow> good s'"
  by (simp add: evolves_def)

lemma evolves_trans: "evolves s1 s2 \<Longrightarrow> evolves s2 s3 \<Longrightarrow> evolves s1 s3"
  by (auto simp: evolves_def)

lemma rely_id: "rely id"
  by (simp add: rely_def evolves_refl)

lemma t_group_update [simp]:
  "i < length ts \<Longrightarrow> t_group (ts[j := (ts ! j)\<lparr>t_phase := p\<rparr>] ! i) = t_group (ts ! i)"
  by (cases "i = j") auto

lemma task_step_evolves:
  assumes "task_step L s s'" and "good s"
  shows "evolves s s'"
proof -
  have "good s'"
    using assms task_step_inv task_step_fresh by (auto simp: good_def)
  moreover have "keys_inv (kg_db s)"
    using assms(2) by (simp add: good_def kg_inv_def)
  note keeps = create_keeps_key [OF this]
  have "length (tasks s') = length (tasks s) \<and>
      (\<forall>i < length (tasks s). t_group (tasks s' ! i) = t_group (tasks s ! i)) \<and>
      (\<forall>g. has_key s g \<longrightarrow> has_key s' g)"
    using assms(1) by cases
      (auto simp: worker_create_def has_key_def simp del: active_pub_None
        split: prod.splits dest: keeps)
  ultimately show ?thesis by (simp add: evolves_def)
qed

lemma ensure_locked_evolves:
  assumes "ensure_locked eng s g = (r, s')" and "good s"
  shows "evolves s s'"
proof -
  have "good s'"
    using assms ensure_locked_inv ensure_locked_fresh by (auto simp: good_def)
  with assms(1) show ?thesis
    by (auto elim!: ensure_locked_cases simp: evolves_def nth_append has_key_def)
qed

subsection \<open>Answers of the service\<close>

lemma active_key_Some_iff:
  "(\<exists>k. active_key eng d g = Ok (Some k)) \<longleftrightarrow> stmt_fault eng 0 = None \<and> active_pub d g \<noteq> None"
  by (cases "active_row d g") (auto simp: active_key_def)

lemma active_key_has_key: "active_key eng (kg_db s) g = Ok (Some k) \<Longrightarrow> has_key s g"
  using active_key_Some_iff [of eng "kg_db s" g] by (auto simp: has_key_def simp del: active_pub_None)

lemma ensure_spec:
  assumes "good s" and "rely other" and "ensure engs other s g = (r, s')"
  shows "evolves s s'" and "r = Ok Ready \<Longrightarrow> has_key s' g" and "r \<noteq> Ok (Failed e)"
    and "r = Ok Pending \<Longrightarrow> \<exists>i. inflight s' g = Some i"
proof -
  have o: "evolves s (other s)" "good (other s)"
    using assms(1,2) by (auto simp: rely_def evolves_def)
  show "evolves s s'"
    using assms(3) evolves_refl [OF assms(1)]
      evolves_trans [OF o(1) ensure_locked_evolves [OF _ o(2)]]
    by (auto simp: ensure_def split: sum.splits option.splits)
  show "r = Ok Ready \<Longrightarrow> has_key s' g"
    using assms(3) by (auto simp: ensure_def ensure_locked_def dest: active_key_has_key
        split: sum.splits option.splits if_splits)
  show "r \<noteq> Ok (Failed e)"
    using assms(3) by (auto simp: ensure_def ensure_locked_def split: sum.splits option.splits if_splits)
  show "r = Ok Pending \<Longrightarrow> \<exists>i. inflight s' g = Some i"
    using assms(3) by (auto simp: ensure_def ensure_locked_def
        split: sum.splits option.splits if_splits)
qed

lemma status_spec:
  assumes "good s" and "rely other" and "status eng other s g = (r, s')"
  shows "evolves s s'" and "r = Ok Ready \<Longrightarrow> has_key s' g"
proof -
  have o: "evolves s (other s)" "good (other s)"
    using assms(1,2) by (auto simp: rely_def evolves_def)
  show "evolves s s'"
    using assms(3) evolves_refl [OF assms(1)] o(1)
    by (auto simp: status_def Let_def split: sum.splits option.splits)
  have "has_key (other s) g" if "inflight (other s) g = Some i" "channels (other s) i = Ready" for i
    using o(2) that unfolding good_def kg_inv_def live_worker_def by metis
  then show "r = Ok Ready \<Longrightarrow> has_key s' g"
    using assms(3) by (auto simp: status_def Let_def dest: active_key_has_key
        split: sum.splits option.splits)
qed

text \<open>Wake-ups before which other tasks ran as a client may rely on.\<close>

definition wakes_ok :: "wake list \<Rightarrow> bool" where
  "wakes_ok events \<longleftrightarrow> (\<forall>w \<in> set events. rely (wake_effect w))"

lemmas wait_loop_events =
  wait_loop.simps [of _ _ _ _ _ "[]"] wait_loop.simps [of _ _ _ _ _ "w # ws" for w ws]

lemma wait_loop_spec:
  assumes "good s" and "rely other" and "wakes_ok events"
    and "rx < length (tasks s)" and "t_group (tasks s ! rx) = g"
    and "wait_loop eng other g rx s events = Some (r, s')"
  shows "evolves s s' \<and> (r = Ok Ready \<longrightarrow> has_key s' g)"
  using assms
proof (induction events arbitrary: s)
  case Nil
  then show ?case
    by (auto simp: wait_loop_events good_def kg_inv_def evolves_def
        split: keygen_status.splits)
next
  case (Cons w ws)
  have key: "channels s rx = Ready \<Longrightarrow> has_key s g"
    using Cons.prems(1,4,5) by (auto simp: good_def kg_inv_def)
  show ?case
  proof (cases "channels s rx")
    case Pending
    let ?s1 = "wake_effect w s"
    have ev: "evolves s ?s1" and ws: "wakes_ok ws"
      using Cons.prems(1,3) by (simp_all add: wakes_ok_def rely_def)
    show ?thesis
    proof (cases w)
      case (Deadline f)
      with Pending Cons.prems(6) ev show ?thesis by (auto simp: wait_loop_events)
    next
      case (Changed f)
      moreover have "rx < length (tasks ?s1)" "t_group (tasks ?s1 ! rx) = g"
        using ev Cons.prems(4,5) by (auto simp: evolves_def)
      moreover have "wait_loop eng other g rx ?s1 ws = Some (r, s')"
        using Cons.prems(6) Pending Changed by (simp add: wait_loop_events)
      ultimately show ?thesis
        using Cons.IH [of ?s1] Cons.prems(2) ws ev evolves_good evolves_trans by blast
    next
      case (SenderDropped f)
      have "status eng other ?s1 g = (r, s')"
        using Cons.prems(6) Pending SenderDropped by (simp add: wait_loop_events)
      with status_spec [OF evolves_good [OF ev] Cons.prems(2)] ev evolves_trans show ?thesis by blast
    qed
  next
    case Ready
    with Cons.prems key show ?thesis by (auto simp: wait_loop_events evolves_refl)
  next
    case (Failed e)
    with Cons.prems show ?thesis by (auto simp: wait_loop_events evolves_refl)
  qed
qed

text \<open>The wait ends: whatever happens before, the deadline makes it return.\<close>

lemma wait_loop_returns:
  "Deadline f \<in> set events \<Longrightarrow> \<exists>r. wait_loop eng other g rx s events = Some r"
proof (induction events arbitrary: s)
  case Nil
  then show ?case by simp
next
  case (Cons w ws)
  then show ?case
    by (cases w) (auto simp: wait_loop_events split: keygen_status.splits)
qed

lemma wait_ready_returns:
  "Deadline f \<in> set events \<Longrightarrow> \<exists>r. wait_ready engs other events s g = Some r"
  using wait_loop_returns [of f events "engs 2" "other 2" g]
  by (auto simp: wait_ready_def Let_def split: prod.splits sum.splits keygen_status.splits option.splits)

lemma wait_ready_spec:
  assumes "good s" and "\<forall>i. rely (other i)"
    and "wakes_ok events"
    and "wait_ready engs other events s g = Some (r, s')"
  shows "evolves s s' \<and> (r = Ok Ready \<longrightarrow> has_key s' g)"
proof -
  obtain r1 s1 where e: "ensure engs (other 0) s g = (r1, s1)"
    by (cases "ensure engs (other 0) s g")
  note spec = ensure_spec [OF assms(1) assms(2) [rule_format] e]
  show ?thesis
  proof (cases "r1 = Ok Pending")
    case False
    then have "r = r1 \<and> s' = s1"
      using assms(4) e by (auto simp: wait_ready_def split: sum.splits keygen_status.splits)
    with spec show ?thesis by blast
  next
    case True
    let ?s2 = "other 1 s1"
    have ev: "evolves s1 ?s2"
      using assms(2) spec(1) by (auto simp: rely_def dest: evolves_good)
    then have ev2: "evolves s ?s2" and good2: "good ?s2"
      using spec(1) evolves_trans evolves_good by blast+
    show ?thesis
    proof (cases "inflight ?s2 g")
      case None
      with assms(4) e True have status: "status (engs 2) (other 2) (other 9 ?s2) g = (r, s')"
        by (simp add: wait_ready_def)
      have ev9: "evolves ?s2 (other 9 ?s2)"
        using assms(2) good2 by (simp add: rely_def)
      note spec9 = status_spec [OF evolves_good [OF ev9] assms(2) [rule_format] status]
      show ?thesis
        using spec9(2) evolves_trans [OF evolves_trans [OF ev2 ev9] spec9(1)] by blast
    next
      case (Some rx)
      with assms(4) e True have "wait_loop (engs 2) (other 2) g rx ?s2 events = Some (r, s')"
        by (simp add: wait_ready_def)
      moreover have "rx < length (tasks ?s2)" "t_group (tasks ?s2 ! rx) = g"
        using good2 Some by (auto simp: good_def kg_inv_def live_worker_def)
      ultimately show ?thesis
        using wait_loop_spec [OF good2] assms(2,3) ev2 evolves_trans by blast
    qed
  qed
qed

subsection \<open>What the waiting calls do to the state\<close>

text \<open>
  A relation that the surroundings of a call stay within, and that allows registering a worker, also
  relates the state before the call to the state after it.
\<close>

locale interference =
  fixes R :: "kg_state \<Rightarrow> kg_state \<Rightarrow> bool"
  assumes stay: "R s s"
    and chain: "R s1 s2 \<Longrightarrow> R s2 s3 \<Longrightarrow> R s1 s3"
    and locked: "ensure_locked eng s g = (r, s') \<Longrightarrow> R s s'"
begin

lemma ensure_within:
  assumes "\<And>s. R s (other s)" and "ensure engs other s g = (r, s')"
  shows "R s s'"
  using assms(2) stay chain [OF assms(1) locked]
  by (auto simp: ensure_def split: sum.splits option.splits)

lemma status_within:
  assumes "\<And>s. R s (other s)" and "status eng other s g = (r, s')"
  shows "R s s'"
  using assms stay by (auto simp: status_def Let_def split: sum.splits option.splits)

lemma wait_loop_within:
  assumes "\<And>s. R s (other s)" and "\<forall>w \<in> set events. \<forall>s. R s (wake_effect w s)"
    and "wait_loop eng other g rx s events = Some (r, s')"
  shows "R s s'"
  using assms(2,3)
proof (induction events arbitrary: s)
  case Nil
  then show ?case by (auto simp: wait_loop_events stay split: keygen_status.splits)
next
  case (Cons w ws)
  have w: "R s (wake_effect w s)"
    using Cons.prems(1) by simp
  show ?case
  proof (cases "channels s rx = Pending")
    case True
    with Cons.prems(2) show ?thesis
      using w chain [OF w] Cons.IH [of "wake_effect w s"] Cons.prems(1) status_within [OF assms(1)]
      by (cases w) (auto simp: wait_loop_events)
  next
    case False
    with Cons.prems(2) show ?thesis
      by (cases "channels s rx") (auto simp: wait_loop_events stay)
  qed
qed

lemma wait_ready_within:
  assumes "\<And>i s. R s (other i s)" and "\<forall>w \<in> set events. \<forall>s. R s (wake_effect w s)"
    and "wait_ready engs other events s g = Some (r, s')"
  shows "R s s'"
proof -
  obtain r1 s1 where e: "ensure engs (other 0) s g = (r1, s1)"
    by (cases "ensure engs (other 0) s g")
  have s1: "R s s1"
    using ensure_within [OF assms(1) e] .
  then have s2: "R s (other 1 s1)"
    using chain assms(1) by blast
  then have s3: "R s (other 9 (other 1 s1))"
    using chain assms(1) by blast
  have "s' = s1 \<or> status (engs 2) (other 2) (other 9 (other 1 s1)) g = (r, s') \<or>
      (\<exists>rx. wait_loop (engs 2) (other 2) g rx (other 1 s1) events = Some (r, s'))"
    using assms(3) e by (auto simp: wait_ready_def Let_def split: sum.splits keygen_status.splits option.splits)
  with s1 chain [OF s2] chain [OF s3] show ?thesis
    using status_within [of "other 2", OF assms(1)] wait_loop_within [of "other 2", OF assms(1,2)] by metis
qed

end

text \<open>The issuance table is nobody's business but that of \<open>/sign\<close>.\<close>

definition same_issuances :: "kg_state \<Rightarrow> kg_state \<Rightarrow> bool" where
  "same_issuances s s' \<longleftrightarrow> issuances (kg_db s') = issuances (kg_db s) \<and>
     issuances_seq (kg_db s') = issuances_seq (kg_db s)"

lemma ensure_locked_db: "ensure_locked eng s g = (r, s') \<Longrightarrow> kg_db s' = kg_db s"
  by (erule ensure_locked_cases) simp_all

interpretation si: interference same_issuances
  by unfold_locales (auto simp: same_issuances_def dest: ensure_locked_db)

end
