(* ===== verification/Errors.thy ===== *)
theory Errors
  imports Signet_Prelude
begin

text \<open>
  The service's error type and its HTTP mapping (\<open>src/error.rs\<close>). A response is its status code and
  the members of its JSON body, in order.
\<close>

subsection \<open>AppError\<close>

datatype app_error =
    BadRequest string
  | AlreadyIssued
  | RateLimited
  | NoSuchKey
  | KeyPending
  | Forbidden string
  | NotFound string
  | DedupTaken
  | Internal string

datatype json = JStr string | JInt int

record http_response =
  status_code :: nat
  resp_body :: "(string \<times> json) list"

text \<open>\<open>impl Display for AppError\<close>: the text that goes to the log.\<close>

fun app_error_fmt :: "app_error \<Rightarrow> string" where
  "app_error_fmt (BadRequest m) = ''bad request: '' @ m"
| "app_error_fmt AlreadyIssued = ''already issued''"
| "app_error_fmt RateLimited = ''rate limited''"
| "app_error_fmt NoSuchKey = ''no such key''"
| "app_error_fmt KeyPending = ''key pending''"
| "app_error_fmt (Forbidden m) = ''forbidden: '' @ m"
| "app_error_fmt (NotFound m) = ''not found: '' @ m"
| "app_error_fmt DedupTaken = ''taken''"
| "app_error_fmt (Internal m) = ''internal error: '' @ m"

fun error_status :: "app_error \<Rightarrow> nat \<times> string" where
  "error_status (BadRequest _) = (400, ''bad_request'')"
| "error_status AlreadyIssued = (409, ''already_issued'')"
| "error_status RateLimited = (429, ''rate_limited'')"
| "error_status NoSuchKey = (404, ''no_such_key'')"
| "error_status KeyPending = (202, ''pending'')"
| "error_status (Forbidden _) = (403, ''forbidden'')"
| "error_status (NotFound _) = (404, ''not_found'')"
| "error_status DedupTaken = (409, ''taken'')"
| "error_status (Internal _) = (500, ''internal_error'')"

fun error_message :: "app_error \<Rightarrow> string" where
  "error_message (BadRequest m) = m"
| "error_message AlreadyIssued = ''a signature was already issued for this participation''"
| "error_message RateLimited = ''rate limit exceeded''"
| "error_message NoSuchKey = ''no key for this group''"
| "error_message KeyPending = ''key is being generated; retry shortly''"
| "error_message (Forbidden m) = m"
| "error_message (NotFound m) = m"
| "error_message DedupTaken = ''this credential is already registered to another owner''"
| "error_message (Internal _) = ''internal error''"

definition into_response :: "app_error \<Rightarrow> http_response" where
  "into_response e =
     (let (status, code) = error_status e; message = error_message e in
      \<lparr>status_code = status,
       resp_body = (if e = KeyPending
               then [(''status'', JStr ''pending''), (''message'', JStr message)]
               else [(''error'', JStr code), (''message'', JStr message)])\<rparr>)"

end
