(* ===== verification/Identity.thy ===== *)
theory Identity
  imports Errors
begin

text \<open>
  Peer identity (\<open>src/identity.rs\<close>): the names in the leaf certificate, their classification by the
  allow-lists, the TLS acceptor that pins the result to a connection, the service wrapper that puts it
  into every request and the extractor that handlers read it with. Parsing X.509 is the parameter
  \<open>x509_parse\<close> of \<open>libs\<close>; the outcome of the TLS handshake is an argument of \<open>accept\<close>.
\<close>

subsection \<open>Roles and policy\<close>

datatype role = Client | Admin | Prf

record client_identity =
  id_name :: string
  id_role :: role
  prf_allowed :: bool

definition is_admin :: "client_identity \<Rightarrow> bool" where
  "is_admin i \<longleftrightarrow> id_role i = Admin"

definition may_sign :: "client_identity \<Rightarrow> bool" where
  "may_sign i = (case id_role i of Client \<Rightarrow> True | Admin \<Rightarrow> True | Prf \<Rightarrow> False)"

definition may_prf :: "client_identity \<Rightarrow> bool" where
  "may_prf i = prf_allowed i"

record identity_policy =
  allowed_clients :: "string set"
  admins :: "string set"
  prf_clients :: "string set"

definition client_list_is_open :: "identity_policy \<Rightarrow> bool" where
  "client_list_is_open P = (allowed_clients P = {})"

definition admin_list_is_empty :: "identity_policy \<Rightarrow> bool" where
  "admin_list_is_empty P = (admins P = {})"

definition classify :: "identity_policy \<Rightarrow> string list \<Rightarrow> client_identity option" where
  "classify P candidates =
     (let prf = list_ex (\<lambda>c. c \<in> prf_clients P) candidates in
      case find (\<lambda>c. c \<in> admins P) candidates of
        Some name \<Rightarrow> Some \<lparr>id_name = name, id_role = Admin, prf_allowed = prf\<rparr>
      | None \<Rightarrow>
          if (allowed_clients P = {}) then
            Some \<lparr>id_name = (case candidates of [] \<Rightarrow> ''<unnamed-client>'' | c # _ \<Rightarrow> c),
                  id_role = Client, prf_allowed = prf\<rparr>
          else
            (case find (\<lambda>c. c \<in> allowed_clients P) candidates of
               Some name \<Rightarrow> Some \<lparr>id_name = name, id_role = Client, prf_allowed = prf\<rparr>
             | None \<Rightarrow>
                 if prf then
                   Some \<lparr>id_name = (case find (\<lambda>c. c \<in> prf_clients P) candidates of
                                      Some name \<Rightarrow> name | None \<Rightarrow> ''<unnamed-prf-client>''),
                         id_role = Prf, prf_allowed = prf\<rparr>
                 else None))"

subsection \<open>Names in the leaf\<close>

fun dns_names :: "general_name list \<Rightarrow> string list" where
  "dns_names [] = []"
| "dns_names (DNSName n # gs) = n # dns_names gs"
| "dns_names (OtherName # gs) = dns_names gs"

definition identity_names_from_leaf :: "libs \<Rightarrow> bytes \<Rightarrow> string list" where
  "identity_names_from_leaf L leaf =
     (case x509_parse L leaf of
        None \<Rightarrow> []
      | Some c \<Rightarrow>
          List.map_filter (\<lambda>cn. cn) (common_names c) @
          (case alternative_names c of None \<Rightarrow> [] | Some gs \<Rightarrow> dns_names gs))"

subsection \<open>The acceptor\<close>

datatype io_error = TimedOut string | PermissionDenied string | OtherIo string

definition DEFAULT_HANDSHAKE_TIMEOUT :: nat where "DEFAULT_HANDSHAKE_TIMEOUT = 10000"

record identity_acceptor =
  acc_policy :: identity_policy
  handshake_timeout :: nat

definition acceptor_new :: "identity_policy \<Rightarrow> identity_acceptor" where
  "acceptor_new P = \<lparr>acc_policy = P, handshake_timeout = DEFAULT_HANDSHAKE_TIMEOUT\<rparr>"

definition with_handshake_timeout :: "identity_acceptor \<Rightarrow> nat \<Rightarrow> identity_acceptor" where
  "with_handshake_timeout A t = A\<lparr>handshake_timeout := t\<rparr>"

text \<open>
  \<open>hs\<close> is what the peer and the TLS library make of the handshake: \<open>None\<close> if it never completes, or
  the time in milliseconds after which it does and its result, the peer's certificate chain
  (\<open>None\<close> when there is none) or an I/O error.
\<close>

type_synonym handshake = "(nat \<times> (io_error + bytes list option)) option"

definition tls_timeout :: "nat \<Rightarrow> handshake \<Rightarrow> (io_error + bytes list option) option" where
  "tls_timeout limit hs =
     (case hs of None \<Rightarrow> None | Some (t, r) \<Rightarrow> if t \<le> limit then Some r else None)"

definition accept :: "libs \<Rightarrow> identity_acceptor \<Rightarrow> handshake \<Rightarrow> io_error + client_identity" where
  "accept L A hs =
     (case tls_timeout (handshake_timeout A) hs of
        None \<Rightarrow> Err (TimedOut ''TLS handshake timed out'')
      | Some (Err e) \<Rightarrow> Err e
      | Some (Ok chain) \<Rightarrow>
          (case chain of
             Some (leaf # _) \<Rightarrow>
               (case classify (acc_policy A) (identity_names_from_leaf L leaf) of
                  Some i \<Rightarrow> Ok i
                | None \<Rightarrow> Err (PermissionDenied ''client identity not permitted''))
           | _ \<Rightarrow> Err (PermissionDenied ''mTLS: no peer certificate present after handshake'')))"

subsection \<open>The identity in a request\<close>

record 'b request =
  extension :: "client_identity option"
  payload :: 'b

definition identity_service_call :: "('b request \<Rightarrow> 'r) \<Rightarrow> client_identity \<Rightarrow> 'b request \<Rightarrow> 'r" where
  "identity_service_call inner i req = inner (req\<lparr>extension := Some i\<rparr>)"

definition from_request_parts :: "'b request \<Rightarrow> app_error + client_identity" where
  "from_request_parts req = ok_or (Internal ''client identity unavailable'') (extension req)"

subsection \<open>Lemmas\<close>

text \<open>Which of the lists the candidates are on decides everything.\<close>

definition listed :: "string list \<Rightarrow> string set \<Rightarrow> bool" where
  "listed candidates S \<longleftrightarrow> (\<exists>c \<in> set candidates. c \<in> S)"

lemma find_listed: "find (\<lambda>c. c \<in> S) cs = None \<longleftrightarrow> \<not> listed cs S"
  by (auto simp: find_None_iff listed_def)

lemma find_Some_listed: "find (\<lambda>c. c \<in> S) cs = Some x \<Longrightarrow> listed cs S"
  by (auto simp: listed_def dest: find_SomeD)

lemma list_ex_listed: "list_ex (\<lambda>c. c \<in> S) cs \<longleftrightarrow> listed cs S"
  by (auto simp: list_ex_iff listed_def)

lemma classify_None_iff:
  "classify P cs = None \<longleftrightarrow> allowed_clients P \<noteq> {} \<and> \<not> listed cs (admins P) \<and>
     \<not> listed cs (allowed_clients P) \<and> \<not> listed cs (prf_clients P)"
  by (auto simp: classify_def Let_def list_ex_listed find_listed
      dest: find_Some_listed split: option.splits)

lemma classify_rights:
  assumes "classify P cs = Some i"
  shows "may_prf i \<longleftrightarrow> listed cs (prf_clients P)"
    and "is_admin i \<longleftrightarrow> listed cs (admins P)"
    and "may_sign i \<longleftrightarrow> listed cs (admins P) \<or> allowed_clients P = {} \<or> listed cs (allowed_clients P)"
  using assms by (auto simp: classify_def Let_def list_ex_listed may_prf_def
      is_admin_def may_sign_def find_listed dest: find_Some_listed split: option.splits if_splits)

lemma classify_name:
  assumes "classify P cs = Some i"
  shows "id_name i \<in> set cs \<or> (cs = [] \<and> id_name i = ''<unnamed-client>'')"
  using assms by (auto simp: classify_def Let_def list_ex_iff dest!: find_SomeD find_NoneD
      split: option.splits if_splits list.splits)

lemma accept_Ok_iff:
  "accept L A hs = Ok i \<longleftrightarrow>
     (\<exists>t leaf rest. hs = Some (t, Ok (Some (leaf # rest))) \<and> t \<le> handshake_timeout A \<and>
        classify (acc_policy A) (identity_names_from_leaf L leaf) = Some i)"
  by (auto simp: accept_def tls_timeout_def split: option.splits sum.splits list.splits if_splits)

lemma identity_reaches_handler:
  "identity_service_call (\<lambda>req. from_request_parts req) i req = Ok i"
  by (simp add: identity_service_call_def from_request_parts_def)

end
