(* ===== verification/Db_Ledger.thy ===== *)
theory Db_Ledger
  imports Db_Schema
begin

text \<open>
  The PRF-surface tables of \<open>src/db.rs\<close>: the write-once service keys and the credential dedup
  ledger. The interface of the former is the locale \<open>write_once_store\<close>; the ledger refines an abstract
  registry (which entry and owner a value belongs to).
\<close>

subsection \<open>Service keys\<close>

definition service_blob :: "db \<Rightarrow> string \<Rightarrow> bytes option" where
  "service_blob d purpose =
     map_option sk_sealed (find (\<lambda>r. sk_purpose r = purpose) (service_keys d))"

definition get_service_key :: "engine \<Rightarrow> db \<Rightarrow> string \<Rightarrow> string + bytes option" where
  "get_service_key eng d purpose = run_stmt eng 0 (service_blob d purpose)"

definition insert_service_key ::
  "engine \<Rightarrow> int \<Rightarrow> db \<Rightarrow> string \<Rightarrow> bytes \<Rightarrow> (string + bool) \<times> db" where
  "insert_service_key eng clk d purpose blob =
     (case run_insert eng 0 (if service_blob d purpose \<noteq> None then Some ''service_keys.purpose'' else None)
             (d\<lparr>service_keys := service_keys d @
                 [\<lparr>sk_purpose = purpose, sk_sealed = blob, sk_created_at = now_secs clk\<rparr>]\<rparr>) of
        Ok d' \<Rightarrow> (Ok True, d')
      | Err (ConstraintViolation _) \<Rightarrow> (Ok False, d)
      | Err (SqliteFailure m) \<Rightarrow> (Err m, d))"

lemma service_blob_snoc:
  "service_blob (d\<lparr>service_keys := service_keys d @ [r]\<rparr>) p =
     (case service_blob d p of Some b \<Rightarrow> Some b
      | None \<Rightarrow> if sk_purpose r = p then Some (sk_sealed r) else None)"
  by (auto simp: service_blob_def find_snoc split: option.splits)

lemma insert_service_True_iff:
  "insert_service_key eng clk d p b = (Ok True, d') \<longleftrightarrow>
     stmt_fault eng 0 = None \<and> service_blob d p = None \<and>
     d' = d\<lparr>service_keys := service_keys d @
            [\<lparr>sk_purpose = p, sk_sealed = b, sk_created_at = now_secs clk\<rparr>]\<rparr>"
  by (auto simp: insert_service_key_def run_insert_def split: option.splits)

lemma insert_service_False_iff:
  "insert_service_key eng clk d p b = (Ok False, d') \<longleftrightarrow>
     stmt_fault eng 0 = None \<and> service_blob d p \<noteq> None \<and> d' = d"
  by (auto simp: insert_service_key_def run_insert_def split: option.splits)

lemma insert_service_Err: "insert_service_key eng clk d p b = (Err m, d') \<Longrightarrow> d' = d"
  by (auto simp: insert_service_key_def split: sum.splits sql_error.splits)

lemma insert_service_inv:
  assumes "service_inv d" and "insert_service_key eng clk d p b = (r, d')"
  shows "service_inv d'"
proof (cases "r = Ok True")
  case True
  with assms show ?thesis
    by (auto simp: insert_service_True_iff service_inv_def unique_on_snoc service_blob_def
        find_None_iff)
next
  case False
  then have "d' = d"
    using assms(2) by (cases r) (auto simp: insert_service_False_iff dest: insert_service_Err)
  with assms(1) show ?thesis by simp
qed

lemma insert_service_frame [frame_simps]:
  assumes "insert_service_key eng clk d p b = (r, d')"
  shows "group_keys d' = group_keys d" and "issuances d' = issuances d"
    and "dedup_entries d' = dedup_entries d"
    and "keys_inv d' = keys_inv d" and "issuance_inv d' = issuance_inv d"
    and "ledger_inv d' = ledger_inv d"
  using assms by (auto simp: insert_service_key_def run_insert_Ok_iff frame_simps
      split: sum.splits sql_error.splits)

text \<open>
  What the key lifecycle relies on: a blob is stored only where there was none, and nothing ever
  replaces it.
\<close>

locale write_once_store =
  fixes contents :: "'s \<Rightarrow> 'k \<rightharpoonup> 'v"
    and insert_new :: "'e \<Rightarrow> 's \<Rightarrow> 'k \<Rightarrow> 'v \<Rightarrow> (string + bool) \<times> 's"
  assumes insert_stored: "insert_new e s k v = (Ok True, s') \<Longrightarrow>
           contents s k = None \<and> contents s' = (contents s)(k \<mapsto> v)"
    and insert_refused: "insert_new e s k v = (Ok False, s') \<Longrightarrow> contents s k \<noteq> None \<and> s' = s"
    and insert_failed: "insert_new e s k v = (Err m, s') \<Longrightarrow> s' = s"
begin

lemma never_overwritten:
  assumes "contents s k = Some v" and "insert_new e s k' v' = (r, s')"
  shows "contents s' k = Some v"
proof (cases r)
  case (Inl m)
  with assms show ?thesis using insert_failed [of e s k' v' m s'] by simp
next
  case (Inr b)
  with assms show ?thesis
    using insert_stored [of e s k' v' s'] insert_refused [of e s k' v' s'] by (cases b) auto
qed

lemma second_insert_refused:
  assumes "contents s k = Some v"
  shows "fst (insert_new e s k v') \<noteq> Ok True"
  using assms insert_stored [of e s k v' "snd (insert_new e s k v')"]
  by (cases "insert_new e s k v'") auto

end

interpretation sks: write_once_store service_blob "\<lambda>(eng, clk) d. insert_service_key eng clk d"
proof (unfold_locales, goal_cases)
  case (1 e s k v s')
  then show ?case
    by (cases e) (auto simp: insert_service_True_iff service_blob_snoc fun_eq_iff
        split: option.splits)
next
  case (2 e s k v s')
  then show ?case by (cases e) (auto simp: insert_service_False_iff)
next
  case (3 e s k v m s')
  then show ?case by (cases e) (auto dest: insert_service_Err)
qed

subsection \<open>Dedup ledger: operations\<close>

record dedup_entry =
  entry_ref :: bytes
  entry_value :: bytes
  owner_tag :: string
  badge_type :: string

datatype dedup_register = Registered bytes | AlreadyYours bytes | Taken
datatype dedup_release = Released | ReleaseNotFound | ReleaseOwnerMismatch
datatype dedup_reassign = Reassigned nat | ReassignNotFound | ReassignOwnerMismatch

definition owner_eq :: "libs \<Rightarrow> string \<Rightarrow> string \<Rightarrow> bool" where
  "owner_eq L a b = ct_eq L (str_bytes a) (str_bytes b)"

definition row_by_ref :: "db \<Rightarrow> bytes \<Rightarrow> dedup_row option" where
  "row_by_ref d ref = find (\<lambda>r. de_entry_ref r = ref) (dedup_entries d)"

definition row_by_value :: "db \<Rightarrow> bytes \<Rightarrow> dedup_row option" where
  "row_by_value d v = find (\<lambda>r. de_value r = v) (dedup_entries d)"

definition register_dedup ::
  "libs \<Rightarrow> engine \<Rightarrow> int \<Rightarrow> db \<Rightarrow> bytes \<Rightarrow> bytes \<Rightarrow> string \<Rightarrow> string \<Rightarrow> (string + dedup_register) \<times> db" where
  "register_dedup L eng clk d ref v owner badge =
     (case run_insert eng 0
             (if row_by_ref d ref \<noteq> None then Some ''dedup_entries.entry_ref''
              else if row_by_value d v \<noteq> None then Some ''dedup_entries.value'' else None)
             (d\<lparr>dedup_entries := dedup_entries d @
                 [\<lparr>de_entry_ref = ref, de_value = v, de_owner_tag = owner, de_badge_type = badge,
                   de_created_at = now_secs clk\<rparr>]\<rparr>) of
        Ok d' \<Rightarrow> (Ok (Registered ref), d')
      | Err (ConstraintViolation _) \<Rightarrow>
          (bind_res (run_stmt eng 1 (row_by_value d v)) (\<lambda>existing.
             case existing of
               Some r \<Rightarrow> if owner_eq L (de_owner_tag r) owner then Ok (AlreadyYours (de_entry_ref r))
                         else Ok Taken
             | None \<Rightarrow> Err (''dedup register hit a constraint but no row exists for the value '' @
                            ''(entry_ref collision?)'')), d)
      | Err (SqliteFailure m) \<Rightarrow> (Err m, d))"

definition dedup_entry_by_ref :: "engine \<Rightarrow> db \<Rightarrow> bytes \<Rightarrow> string + dedup_entry option" where
  "dedup_entry_by_ref eng d ref =
     run_stmt eng 0 (map_option
       (\<lambda>r. \<lparr>entry_ref = de_entry_ref r, entry_value = de_value r, owner_tag = de_owner_tag r,
             badge_type = de_badge_type r\<rparr>) (row_by_ref d ref))"

definition delete_ref :: "bytes \<Rightarrow> db \<Rightarrow> db" where
  "delete_ref ref d = d\<lparr>dedup_entries := filter (\<lambda>r. de_entry_ref r \<noteq> ref) (dedup_entries d)\<rparr>"

definition release_dedup ::
  "libs \<Rightarrow> engine \<Rightarrow> db \<Rightarrow> bytes \<Rightarrow> string \<Rightarrow> (string + dedup_release) \<times> db" where
  "release_dedup L eng d ref owner =
     (case run_stmt eng 0 (row_by_ref d ref) of
        Err m \<Rightarrow> (Err m, d)
      | Ok None \<Rightarrow> (Ok ReleaseNotFound, d)
      | Ok (Some r) \<Rightarrow>
          if \<not> owner_eq L (de_owner_tag r) owner then (Ok ReleaseOwnerMismatch, d)
          else (case run_stmt eng 1 (delete_ref ref d) of
                  Err m \<Rightarrow> (Err m, d)
                | Ok d' \<Rightarrow> (Ok Released, d')))"

definition set_owner :: "bytes \<Rightarrow> string \<Rightarrow> db \<Rightarrow> db" where
  "set_owner ref owner d = d\<lparr>dedup_entries :=
     map (\<lambda>r. if de_entry_ref r = ref then r\<lparr>de_owner_tag := owner\<rparr> else r) (dedup_entries d)\<rparr>"

text \<open>
  The loop of \<open>reassign_dedup\<close> inside its transaction: two statements per listed ref, numbered from
  \<open>i\<close> (\<open>BEGIN\<close> and \<open>COMMIT\<close> are 0 and 1). An early return carries the outcome and drops the transaction.
\<close>

fun reassign_loop ::
  "libs \<Rightarrow> engine \<Rightarrow> string \<Rightarrow> string \<Rightarrow> nat \<Rightarrow> nat \<Rightarrow> db \<Rightarrow> bytes list \<Rightarrow> (string + dedup_reassign) + nat \<times> db" where
  "reassign_loop L eng from to i moved d [] = Inr (moved, d)"
| "reassign_loop L eng from to i moved d (ref # refs) =
     (case run_stmt eng i (row_by_ref d ref) of
        Err m \<Rightarrow> Inl (Err m)
      | Ok None \<Rightarrow> Inl (Ok ReassignNotFound)
      | Ok (Some r) \<Rightarrow>
          if owner_eq L (de_owner_tag r) from then
            (case run_stmt eng (i + 1) (set_owner ref to d) of
               Err m \<Rightarrow> Inl (Err m)
             | Ok d' \<Rightarrow> reassign_loop L eng from to (i + 2) (moved + 1) d' refs)
          else if owner_eq L (de_owner_tag r) to then
            reassign_loop L eng from to (i + 2) moved d refs
          else Inl (Ok ReassignOwnerMismatch))"

definition reassign_dedup ::
  "libs \<Rightarrow> engine \<Rightarrow> db \<Rightarrow> bytes list \<Rightarrow> string \<Rightarrow> string \<Rightarrow> (string + dedup_reassign) \<times> db" where
  "reassign_dedup L eng d refs from to =
     (case run_stmt eng 0 () of
        Err m \<Rightarrow> (Err m, d)
      | Ok _ \<Rightarrow>
          (case reassign_loop L eng from to 2 0 d refs of
             Inl out \<Rightarrow> (out, d)
           | Inr (moved, d') \<Rightarrow>
               (case run_stmt eng 1 d' of
                  Err m \<Rightarrow> (Err m, d)
                | Ok d'' \<Rightarrow> (Ok (Reassigned moved), d''))))"

subsection \<open>The ledger as a map from entry refs\<close>

text \<open>\<open>ledger d ref\<close> is the value, the owner and the badge type recorded under \<open>ref\<close>.\<close>

definition ledger :: "db \<Rightarrow> bytes \<rightharpoonup> bytes \<times> string \<times> string" where
  "ledger d = map_of (map (\<lambda>r. (de_entry_ref r, de_value r, de_owner_tag r, de_badge_type r))
     (dedup_entries d))"

lemma ledger_row:
  "ledger d ref = map_option (\<lambda>r. (de_value r, de_owner_tag r, de_badge_type r)) (row_by_ref d ref)"
  unfolding ledger_def row_by_ref_def by (rule map_of_find)

lemma owner_eq_iff [simp]: "ct_eq_spec L \<Longrightarrow> owner_eq L a b \<longleftrightarrow> a = b"
  by (simp add: owner_eq_def ct_eq_spec_def)

lemma row_by_ref_SomeD: "row_by_ref d ref = Some r \<Longrightarrow> r \<in> set (dedup_entries d) \<and> de_entry_ref r = ref"
  unfolding row_by_ref_def by (drule find_SomeD) simp

lemma row_by_value_SomeD: "row_by_value d v = Some r \<Longrightarrow> r \<in> set (dedup_entries d) \<and> de_value r = v"
  unfolding row_by_value_def by (drule find_SomeD) simp

lemma row_by_ref_eq:
  "\<lbrakk> ledger_inv d; r \<in> set (dedup_entries d) \<rbrakk> \<Longrightarrow> row_by_ref d (de_entry_ref r) = Some r"
  unfolding row_by_ref_def ledger_inv_def using find_unique [of de_entry_ref whole] by fastforce

lemma row_by_value_ledger:
  assumes "ledger_inv d" and "row_by_value d v = Some r"
  shows "ledger d (de_entry_ref r) = Some (v, de_owner_tag r, de_badge_type r)"
  using assms row_by_value_SomeD [OF assms(2)] row_by_ref_eq by (simp add: ledger_row)

lemma row_by_value_None_iff:
  assumes "ledger_inv d"
  shows "row_by_value d v = None \<longleftrightarrow> (\<forall>ref o' b. ledger d ref \<noteq> Some (v, o', b))"
proof
  assume "row_by_value d v = None"
  then show "\<forall>ref o' b. ledger d ref \<noteq> Some (v, o', b)"
    by (auto simp: ledger_row row_by_value_def dest: row_by_ref_SomeD find_NoneD)
next
  assume "\<forall>ref o' b. ledger d ref \<noteq> Some (v, o', b)"
  then show "row_by_value d v = None"
    by (cases "row_by_value d v") (auto dest: row_by_value_ledger [OF assms])
qed

text \<open>A value is recorded under one ref only.\<close>

lemma ledger_value_unique:
  assumes "ledger_inv d" and "ledger d ref = Some (v, o1, b1)" and "ledger d ref' = Some (v, o2, b2)"
  shows "ref = ref'"
proof -
  from assms(2,3) obtain r r' where "row_by_ref d ref = Some r" "row_by_ref d ref' = Some r'"
    "de_value r = v" "de_value r' = v"
    by (auto simp: ledger_row)
  moreover from this have "r = r'"
    using assms(1) unique_on_eq [of de_value whole "dedup_entries d" r r']
    by (auto simp: ledger_inv_def dest!: row_by_ref_SomeD)
  ultimately show ?thesis
    by (auto dest!: row_by_ref_SomeD)
qed

subsection \<open>Effect of each operation\<close>

lemma register_Registered_iff:
  "register_dedup L eng clk d ref v owner badge = (Ok (Registered ref'), d') \<longleftrightarrow>
     ref' = ref \<and> stmt_fault eng 0 = None \<and> row_by_ref d ref = None \<and> row_by_value d v = None \<and>
     d' = d\<lparr>dedup_entries := dedup_entries d @ [\<lparr>de_entry_ref = ref, de_value = v,
        de_owner_tag = owner, de_badge_type = badge, de_created_at = now_secs clk\<rparr>]\<rparr>"
  by (auto simp: register_dedup_def run_insert_def bind_res_Ok_iff split: option.splits if_splits)

lemma register_other:
  "register_dedup L eng clk d ref v owner badge = (res, d') \<Longrightarrow>
     (\<forall>ref'. res \<noteq> Ok (Registered ref')) \<Longrightarrow> d' = d"
  by (auto simp: register_dedup_def split: sum.splits sql_error.splits)

lemma register_AlreadyYoursD:
  "register_dedup L eng clk d ref v owner badge = (Ok (AlreadyYours ref'), d') \<Longrightarrow>
     \<exists>r. row_by_value d v = Some r \<and> owner_eq L (de_owner_tag r) owner \<and> ref' = de_entry_ref r"
  by (auto simp: register_dedup_def bind_res_Ok_iff
      split: sum.splits sql_error.splits option.splits if_splits)

lemma register_TakenD:
  "register_dedup L eng clk d ref v owner badge = (Ok Taken, d') \<Longrightarrow>
     \<exists>r. row_by_value d v = Some r \<and> \<not> owner_eq L (de_owner_tag r) owner"
  by (auto simp: register_dedup_def bind_res_Ok_iff
      split: sum.splits sql_error.splits option.splits if_splits)

text \<open>With a working engine and a fresh ref, registration always gives a verdict.\<close>

lemma register_total:
  assumes "\<forall>i. stmt_fault eng i = None" and "row_by_ref d ref = None"
  shows "\<exists>out. fst (register_dedup L eng clk d ref v owner badge) = Ok out"
  using assms by (auto simp: register_dedup_def run_insert_def run_stmt_def split: option.splits)

lemma register_inv:
  assumes "ledger_inv d" and "register_dedup L eng clk d ref v owner badge = (res, d')"
  shows "ledger_inv d'"
proof (cases "\<exists>ref'. res = Ok (Registered ref')")
  case True
  with assms show ?thesis
    by (auto simp: register_Registered_iff ledger_inv_def unique_on_snoc row_by_ref_def
        row_by_value_def find_None_iff)
next
  case False
  with assms show ?thesis by (auto dest: register_other)
qed

lemma ledger_register:
  "\<lbrakk> row_by_ref d ref = None;
     d' = d\<lparr>dedup_entries := dedup_entries d @ [\<lparr>de_entry_ref = ref, de_value = v,
        de_owner_tag = owner, de_badge_type = badge, de_created_at = t\<rparr>]\<rparr> \<rbrakk> \<Longrightarrow>
     ledger d' = (ledger d)(ref \<mapsto> (v, owner, badge))"
  by (auto simp: fun_eq_iff ledger_row row_by_ref_def find_snoc split: option.splits)

lemma ledger_delete_ref: "ledger (delete_ref ref d) = (ledger d)(ref := None)"
  by (simp add: ledger_def delete_ref_def map_of_delete_key)

lemma delete_ref_inv: "ledger_inv d \<Longrightarrow> ledger_inv (delete_ref ref d)"
  by (simp add: ledger_inv_def delete_ref_def unique_on_filter)

lemma release_Released_iff:
  "release_dedup L eng d ref owner = (Ok Released, d') \<longleftrightarrow>
     stmt_fault eng 0 = None \<and> stmt_fault eng 1 = None \<and>
     (\<exists>r. row_by_ref d ref = Some r \<and> owner_eq L (de_owner_tag r) owner) \<and> d' = delete_ref ref d"
  by (auto simp: release_dedup_def run_stmt_def split: option.splits)

lemma release_other: "release_dedup L eng d ref owner = (res, d') \<Longrightarrow> res \<noteq> Ok Released \<Longrightarrow> d' = d"
  by (auto simp: release_dedup_def split: sum.splits option.splits if_splits)

lemma release_inv:
  "\<lbrakk> ledger_inv d; release_dedup L eng d ref owner = (res, d') \<rbrakk> \<Longrightarrow> ledger_inv d'"
  by (cases "res = Ok Released") (auto simp: release_Released_iff delete_ref_inv dest: release_other)

lemma set_owner_inv: "ledger_inv d \<Longrightarrow> ledger_inv (set_owner ref owner d)"
  unfolding ledger_inv_def set_owner_def by (auto intro: unique_on_map)

lemma ledger_set_owner:
  "ledger (set_owner ref owner d) =
     (ledger d)(ref := map_option (\<lambda>(v, _, b). (v, owner, b)) (ledger d ref))"
proof -
  have "map_of (map (\<lambda>r. (de_entry_ref r, de_value r, de_owner_tag r, de_badge_type r))
      (map (\<lambda>r. if de_entry_ref r = ref then r\<lparr>de_owner_tag := owner\<rparr> else r) rows)) =
    (map_of (map (\<lambda>r. (de_entry_ref r, de_value r, de_owner_tag r, de_badge_type r)) rows))
      (ref := map_option (\<lambda>(v, _, b). (v, owner, b))
        (map_of (map (\<lambda>r. (de_entry_ref r, de_value r, de_owner_tag r, de_badge_type r)) rows) ref))"
    for rows
    by (induction rows) auto
  then show ?thesis by (simp add: ledger_def set_owner_def)
qed

subsection \<open>The batch reassignment\<close>

text \<open>Re-tagging a set of refs in the abstract map.\<close>

definition retag :: "bytes set \<Rightarrow> string \<Rightarrow> (bytes \<rightharpoonup> bytes \<times> string \<times> string) \<Rightarrow>
    (bytes \<rightharpoonup> bytes \<times> string \<times> string)" where
  "retag refs owner m = (\<lambda>ref. if ref \<in> refs then map_option (\<lambda>(v, _, b). (v, owner, b)) (m ref)
     else m ref)"

definition owned_by :: "(bytes \<rightharpoonup> bytes \<times> string \<times> string) \<Rightarrow> string \<Rightarrow> bytes \<Rightarrow> bool" where
  "owned_by m owner ref \<longleftrightarrow> (\<exists>v b. m ref = Some (v, owner, b))"

lemma reassign_loop_inv:
  "\<lbrakk> reassign_loop L eng from to i moved d refs = Inr (n, d'); ledger_inv d \<rbrakk> \<Longrightarrow> ledger_inv d'"
  by (induction L eng "from" to i moved d refs rule: reassign_loop.induct)
    (auto simp: set_owner_inv split: sum.splits option.splits if_splits)

lemma reassign_loop_Inr:
  assumes "ct_eq_spec L" and "reassign_loop L eng from to i moved d refs = Inr (n, d')"
  shows "ledger d' = retag (set refs) to (ledger d) \<and>
    (\<forall>ref \<in> set refs. owned_by (ledger d) from ref \<or> owned_by (ledger d) to ref)"
  using assms(2)
proof (induction refs arbitrary: i moved d)
  case Nil
  then show ?case by (simp add: retag_def fun_eq_iff)
next
  case (Cons ref refs)
  from Cons.prems obtain r where r: "row_by_ref d ref = Some r"
    by (auto split: sum.splits option.splits)
  let ?m = "ledger d"
  from r have m: "?m ref = Some (de_value r, de_owner_tag r, de_badge_type r)"
    by (simp add: ledger_row)
  consider (moved) "de_owner_tag r = from" | (kept) "de_owner_tag r = to" "de_owner_tag r \<noteq> from"
    using Cons.prems r assms(1) by (auto split: sum.splits option.splits if_splits)
  then show ?case
  proof cases
    case moved
    let ?d1 = "set_owner ref to d"
    have "reassign_loop L eng from to (i + 2) (moved + 1) ?d1 refs = Inr (n, d')"
      using Cons.prems r assms(1) moved by (auto split: sum.splits)
    note IH = Cons.IH [OF this]
    have m1: "ledger ?d1 = ?m(ref \<mapsto> (de_value r, to, de_badge_type r))"
      by (simp add: ledger_set_owner m)
    have "ledger d' = retag (set (ref # refs)) to ?m"
      using IH m by (auto simp: m1 retag_def fun_eq_iff)
    moreover have "owned_by ?m from x \<or> owned_by ?m to x" if "x \<in> set (ref # refs)" for x
      using that IH m moved by (cases "x = ref") (auto simp: m1 owned_by_def)
    ultimately show ?thesis by blast
  next
    case kept
    have "reassign_loop L eng from to (i + 2) moved d refs = Inr (n, d')"
      using Cons.prems r assms(1) kept by (auto split: sum.splits)
    note IH = Cons.IH [OF this]
    have "ledger d' = retag (set (ref # refs)) to ?m"
      using IH m kept by (auto simp: retag_def fun_eq_iff)
    moreover have "owned_by ?m to ref"
      using m kept by (simp add: owned_by_def)
    ultimately show ?thesis using IH by auto
  qed
qed

text \<open>The count it reports is the number of distinct entries that changed owner.\<close>

lemma reassign_loop_count:
  assumes "ct_eq_spec L" and "from \<noteq> to"
    and "reassign_loop L eng from to i moved d refs = Inr (n, d')"
  shows "n = moved + card {ref \<in> set refs. owned_by (ledger d) from ref}"
  using assms(3)
proof (induction refs arbitrary: i moved d)
  case Nil
  then show ?case by simp
next
  case (Cons ref refs)
  from Cons.prems obtain r where r: "row_by_ref d ref = Some r"
    by (auto split: sum.splits option.splits)
  let ?m = "ledger d"
  from r have m: "?m ref = Some (de_value r, de_owner_tag r, de_badge_type r)"
    by (simp add: ledger_row)
  show ?case
  proof (cases "de_owner_tag r = from")
    case True
    let ?d1 = "set_owner ref to d"
    have "reassign_loop L eng from to (i + 2) (moved + 1) ?d1 refs = Inr (n, d')"
      using Cons.prems r assms(1) True by (auto split: sum.splits)
    note IH = Cons.IH [OF this]
    have m1: "ledger ?d1 = ?m(ref \<mapsto> (de_value r, to, de_badge_type r))"
      by (simp add: ledger_set_owner m)
    have eq: "{x \<in> set (ref # refs). owned_by ?m from x} =
        insert ref {x \<in> set refs. owned_by (ledger ?d1) from x}"
      using m True assms(2) by (auto simp: m1 owned_by_def)
    have "ref \<notin> {x \<in> set refs. owned_by (ledger ?d1) from x}"
      using assms(2) by (simp add: m1 owned_by_def)
    then show ?thesis using IH unfolding eq by simp
  next
    case False
    then have "reassign_loop L eng from to (i + 2) moved d refs = Inr (n, d')"
      using Cons.prems r assms(1) by (auto split: sum.splits if_splits)
    note IH = Cons.IH [OF this]
    have "{x \<in> set (ref # refs). owned_by ?m from x} = {x \<in> set refs. owned_by ?m from x}"
      using m False by (auto simp: owned_by_def)
    with IH show ?thesis by simp
  qed
qed

text \<open>Conversely, with a working engine an acceptable batch goes through.\<close>

lemma reassign_loop_total:
  assumes "ct_eq_spec L" and "from \<noteq> to" and "\<forall>j. stmt_fault eng j = None"
    and "\<forall>ref \<in> set refs. owned_by (ledger d) from ref \<or> owned_by (ledger d) to ref"
  shows "\<exists>n d'. reassign_loop L eng from to i moved d refs = Inr (n, d')"
  using assms(4)
proof (induction refs arbitrary: i moved d)
  case Nil
  then show ?case by simp
next
  case (Cons ref refs)
  then obtain r where r: "row_by_ref d ref = Some r" and owner: "de_owner_tag r \<in> {from, to}"
    by (auto simp: owned_by_def ledger_row)
  show ?case
  proof (cases "de_owner_tag r = from")
    case True
    have "\<forall>x \<in> set refs. owned_by (ledger (set_owner ref to d)) from x \<or>
        owned_by (ledger (set_owner ref to d)) to x"
      using Cons.prems r by (auto simp: ledger_set_owner owned_by_def ledger_row)
    from Cons.IH [OF this] show ?thesis
      using r True assms(1,3) by (auto simp: run_stmt_None)
  next
    case False
    then show ?thesis
      using Cons r owner assms(1,3) by (auto simp: run_stmt_None)
  qed
qed

lemma reassign_Reassigned_iff:
  "reassign_dedup L eng d refs from to = (Ok (Reassigned n), d') \<longleftrightarrow>
     stmt_fault eng 0 = None \<and> stmt_fault eng 1 = None \<and>
     reassign_loop L eng from to 2 0 d refs = Inr (n, d')"
proof -
  have loop: "reassign_loop L eng from to i moved d refs \<noteq> Inl (Ok (Reassigned n))" for i moved d
    by (induction L eng "from" to i moved d refs rule: reassign_loop.induct)
      (auto split: sum.splits option.splits)
  show ?thesis
    using loop by (auto simp: reassign_dedup_def run_stmt_def split: sum.splits option.splits prod.splits)
qed

lemma reassign_other:
  "reassign_dedup L eng d refs from to = (res, d') \<Longrightarrow> (\<forall>n. res \<noteq> Ok (Reassigned n)) \<Longrightarrow> d' = d"
  by (auto simp: reassign_dedup_def split: sum.splits prod.splits)

lemma reassign_inv:
  assumes "ledger_inv d" and "reassign_dedup L eng d refs from to = (res, d')"
  shows "ledger_inv d'"
proof (cases "\<exists>n. res = Ok (Reassigned n)")
  case True
  with assms show ?thesis by (auto simp: reassign_Reassigned_iff intro: reassign_loop_inv)
next
  case False
  with assms show ?thesis by (auto dest: reassign_other)
qed

text \<open>The ledger operations leave the other tables alone.\<close>

lemma register_frame [frame_simps]:
  assumes "register_dedup L eng clk d ref v owner badge = (res, d')"
  shows "group_keys d' = group_keys d" and "issuances d' = issuances d"
    and "service_keys d' = service_keys d"
    and "keys_inv d' = keys_inv d" and "issuance_inv d' = issuance_inv d"
    and "service_inv d' = service_inv d" and "issuances_seq d' = issuances_seq d"
  using assms by (auto simp: register_dedup_def run_insert_Ok_iff frame_simps
      split: sum.splits sql_error.splits)

lemma release_frame [frame_simps]:
  assumes "release_dedup L eng d ref owner = (res, d')"
  shows "group_keys d' = group_keys d" and "issuances d' = issuances d"
    and "service_keys d' = service_keys d"
    and "keys_inv d' = keys_inv d" and "issuance_inv d' = issuance_inv d"
    and "service_inv d' = service_inv d" and "issuances_seq d' = issuances_seq d"
  using assms by (auto simp: release_dedup_def delete_ref_def frame_simps
      split: sum.splits option.splits if_splits)

lemma reassign_loop_frame:
  "reassign_loop L eng from to i moved d refs = Inr (n, d') \<Longrightarrow> \<exists>rows. d' = d\<lparr>dedup_entries := rows\<rparr>"
proof (induction L eng "from" to i moved d refs rule: reassign_loop.induct)
  case (1 L eng "from" to i moved d)
  then show ?case by (intro exI [of _ "dedup_entries d"]) simp
next
  case (2 L eng "from" to i moved d ref refs)
  then show ?case
    by (fastforce simp: set_owner_def split: sum.splits option.splits if_splits)
qed

lemma reassign_frame [frame_simps]:
  assumes "reassign_dedup L eng d refs from to = (res, d')"
  shows "group_keys d' = group_keys d" and "issuances d' = issuances d"
    and "service_keys d' = service_keys d"
    and "keys_inv d' = keys_inv d" and "issuance_inv d' = issuance_inv d"
    and "service_inv d' = service_inv d" and "issuances_seq d' = issuances_seq d"
proof -
  have "\<exists>rows. d' = d\<lparr>dedup_entries := rows\<rparr>"
  proof (cases "\<exists>n. res = Ok (Reassigned n)")
    case True
    with assms show ?thesis by (auto simp: reassign_Reassigned_iff intro: reassign_loop_frame)
  next
    case False
    with assms have "d' = d" by (auto dest: reassign_other)
    then show ?thesis by (intro exI [of _ "dedup_entries d"]) simp
  qed
  then show "group_keys d' = group_keys d" "issuances d' = issuances d"
    "service_keys d' = service_keys d" "keys_inv d' = keys_inv d"
    "issuance_inv d' = issuance_inv d" "service_inv d' = service_inv d" "issuances_seq d' = issuances_seq d"
    by (auto simp: frame_simps)
qed

end
