(* ===== verification/Prf.thy ===== *)
theory Prf
  imports Signet_Prelude
begin

text \<open>
  The PRF key schedule and its operations (\<open>src/prf.rs\<close>). HKDF, HMAC and the VOPRF are parameters of
  \<open>libs\<close>; the randomness of a blind evaluation is an argument. \<open>lp\<close> panics on inputs over
  \<open>u16::MAX\<close> bytes, and \<open>None\<close> stands for that panic in every definition that calls it.
\<close>

subsection \<open>Constants\<close>

definition MASTER_SEED_PURPOSE :: string where "MASTER_SEED_PURPOSE = ''master-seed-v1''"
definition PAIRWISE_HMAC_PURPOSE :: string where "PAIRWISE_HMAC_PURPOSE = ''pairwise-hmac-v1''"
definition MASTER_SEED_LEN :: nat where "MASTER_SEED_LEN = 32"
definition SUITE :: string where "SUITE = ''ristretto255-SHA512''"
definition ELEMENT_LEN :: nat where "ELEMENT_LEN = 32"
definition PROOF_LEN :: nat where "PROOF_LEN = 64"
definition DEDUP_VALUE_LEN :: nat where "DEDUP_VALUE_LEN = 64"
definition NULLIFIER_PREFIX :: string where "NULLIFIER_PREFIX = ''mnv1:''"
definition INFO_NULLIFIER_SEED :: bytes where "INFO_NULLIFIER_SEED = str_bytes ''minister/v1/nullifier''"
definition INFO_DEDUP_KEYPAIR :: bytes where "INFO_DEDUP_KEYPAIR = str_bytes ''minister/v1/nullifier/dedup''"
definition INFO_DISCLOSE :: bytes where "INFO_DISCLOSE = str_bytes ''minister/v1/nullifier/disclose''"
definition TAG_PROTOCOL :: string where "TAG_PROTOCOL = ''minister/null/v1''"
definition TAG_DEDUP :: string where "TAG_DEDUP = ''dedup''"
definition TAG_RP :: string where "TAG_RP = ''rp''"

subsection \<open>Length-prefixed framing\<close>

definition lp :: "bytes \<Rightarrow> bytes \<Rightarrow> bytes option" where
  "lp out bs = (if length bs < 2 ^ 16 then Some (out @ be_bytes 2 (length bs) @ bs) else None)"

definition dedup_input :: "string \<Rightarrow> string \<Rightarrow> bytes option" where
  "dedup_input sybil_id badge =
     Option.bind (lp [] (str_bytes TAG_PROTOCOL)) (\<lambda>out.
     Option.bind (lp out (str_bytes TAG_DEDUP)) (\<lambda>out.
     Option.bind (lp out (str_bytes sybil_id)) (\<lambda>out.
     lp out (str_bytes badge))))"

subsection \<open>Keys\<close>

datatype prf_error = BadElement

record evaluate_output =
  evaluation_element :: bytes
  proof_bytes :: bytes

record prf_keys =
  prf_server :: bytes
  master_seed :: bytes
  pairwise_secret :: "bytes option"

definition from_seed :: "libs \<Rightarrow> bytes \<Rightarrow> bytes option \<Rightarrow> string + prf_keys" where
  "from_seed L seed pw =
     (case hkdf_sha512_expand L seed INFO_NULLIFIER_SEED 32 of
        None \<Rightarrow> Err ''HKDF expand for the nullifier seed failed''
      | Some seed_null \<Rightarrow>
          bind_res (map_err (\<lambda>e. ''VOPRF DeriveKeyPair failed: '' @ e)
                      (voprf_new_from_seed L seed_null INFO_DEDUP_KEYPAIR)) (\<lambda>server.
          Ok \<lparr>prf_server = server, master_seed = seed, pairwise_secret = pw\<rparr>))"

definition public_key_bytes :: "libs \<Rightarrow> prf_keys \<Rightarrow> bytes" where
  "public_key_bytes L K = voprf_public_key L (prf_server K)"

definition public_key_b64 :: "libs \<Rightarrow> prf_keys \<Rightarrow> string" where
  "public_key_b64 L K = b64url_encode L (public_key_bytes L K)"

subsection \<open>Operations\<close>

definition evaluate :: "libs \<Rightarrow> bytes \<Rightarrow> prf_keys \<Rightarrow> bytes \<Rightarrow> prf_error + evaluate_output" where
  "evaluate L rnd K blinded =
     bind_res (ok_or BadElement (voprf_deserialize L blinded)) (\<lambda>element.
     let (msg, prf) = voprf_blind_evaluate L (prf_server K) rnd element in
     Ok \<lparr>evaluation_element = msg, proof_bytes = prf\<rparr>)"

definition evaluate_unblinded :: "libs \<Rightarrow> prf_keys \<Rightarrow> bytes \<Rightarrow> string + bytes" where
  "evaluate_unblinded L K input =
     map_err (\<lambda>e. ''VOPRF evaluate failed: '' @ e) (voprf_evaluate L (prf_server K) input)"

definition disclose_info :: "string \<Rightarrow> bytes option" where
  "disclose_info client_id = lp INFO_DISCLOSE (str_bytes client_id)"

definition disclose_msg :: "bytes \<Rightarrow> string \<Rightarrow> bytes option" where
  "disclose_msg n_dedup client_id =
     Option.bind (lp [] (str_bytes TAG_PROTOCOL)) (\<lambda>m.
     Option.bind (lp m (str_bytes TAG_RP)) (\<lambda>m.
     Option.bind (lp m n_dedup) (\<lambda>m.
     lp m (str_bytes client_id))))"

definition disclose :: "libs \<Rightarrow> prf_keys \<Rightarrow> bytes \<Rightarrow> string \<Rightarrow> string option" where
  "disclose L K n_dedup client_id =
     Option.bind (disclose_info client_id) (\<lambda>info.
     Option.bind (hkdf_sha512_expand L (master_seed K) info 32) (\<lambda>k_disc.
     Option.bind (disclose_msg n_dedup client_id) (\<lambda>msg.
     Some (NULLIFIER_PREFIX @ b64url_encode L (hmac_sha256 L k_disc msg)))))"

definition has_pairwise :: "prf_keys \<Rightarrow> bool" where
  "has_pairwise K \<longleftrightarrow> pairwise_secret K \<noteq> None"

definition pairwise_hmac :: "libs \<Rightarrow> prf_keys \<Rightarrow> bytes \<Rightarrow> string option" where
  "pairwise_hmac L K input =
     map_option (\<lambda>key. b64url_encode L (hmac_sha256 L key input)) (pairwise_secret K)"

subsection \<open>Framing is injective\<close>

text \<open>\<open>frame\<close> is the concatenation of the framed fields, and \<open>unframe\<close> reads them back.\<close>

primrec frame :: "bytes list \<Rightarrow> bytes" where
  "frame [] = []"
| "frame (f # fs) = be_bytes 2 (length f) @ f @ frame fs"

fun unframe :: "bytes \<Rightarrow> bytes list option" where
  "unframe [] = Some []"
| "unframe [b] = None"
| "unframe (b1 # b2 # rest) =
     (let n = be_val [b1, b2] in
      if length rest < n then None
      else map_option (\<lambda>fs. take n rest # fs) (unframe (drop n rest)))"

definition fits :: "bytes \<Rightarrow> bool" where
  "fits f \<longleftrightarrow> length f < 2 ^ 16"

lemma lp_Some_iff: "lp out f = Some out' \<longleftrightarrow> fits f \<and> out' = out @ frame [f]"
  by (auto simp: lp_def fits_def)

lemma lp_None_iff: "lp out f = None \<longleftrightarrow> \<not> fits f"
  by (simp add: lp_def fits_def)

lemma unframe_frame: "\<forall>f \<in> set fs. fits f \<Longrightarrow> unframe (frame fs) = Some fs"
proof (induction fs)
  case Nil
  then show ?case by simp
next
  case (Cons f fs)
  obtain b1 b2 where b: "be_bytes 2 (length f) = [b1, b2]"
    by (simp add: numeral_2_eq_2)
  have "be_val [b1, b2] = length f"
    using be_val_be_bytes [of 2 "length f"] Cons.prems by (simp only: b) (simp add: fits_def)
  with b Cons show ?case by (simp add: Let_def del: be_val.simps)
qed

lemma frame_inj:
  assumes "\<forall>f \<in> set fs. fits f" and "\<forall>g \<in> set gs. fits g" and "frame fs = frame gs"
  shows "fs = gs"
  by (metis assms option.inject unframe_frame)

lemma frame_append: "frame (fs @ gs) = frame fs @ frame gs"
  by (induction fs) simp_all

lemma tags_fit [simp]:
  "fits (str_bytes TAG_PROTOCOL)" "fits (str_bytes TAG_DEDUP)" "fits (str_bytes TAG_RP)"
  by (simp_all add: fits_def TAG_PROTOCOL_def TAG_DEDUP_def TAG_RP_def)

lemma dedup_input_Some_iff:
  "dedup_input s b = Some m \<longleftrightarrow> fits (str_bytes s) \<and> fits (str_bytes b) \<and>
     m = frame [str_bytes TAG_PROTOCOL, str_bytes TAG_DEDUP, str_bytes s, str_bytes b]"
  by (auto simp: dedup_input_def bind_eq_Some_conv lp_Some_iff)

lemma disclose_msg_Some_iff:
  "disclose_msg n c = Some m \<longleftrightarrow> fits n \<and> fits (str_bytes c) \<and>
     m = frame [str_bytes TAG_PROTOCOL, str_bytes TAG_RP, n, str_bytes c]"
  by (auto simp: disclose_msg_def bind_eq_Some_conv lp_Some_iff)

lemma disclose_info_Some_iff:
  "disclose_info c = Some i \<longleftrightarrow> fits (str_bytes c) \<and> i = INFO_DISCLOSE @ frame [str_bytes c]"
  by (auto simp: disclose_info_def lp_Some_iff)

lemma frame_head_inj:
  "\<lbrakk> fits f; fits g; frame [f] = frame [g] \<rbrakk> \<Longrightarrow> f = g"
  using frame_inj [of "[f]" "[g]"] by simp

lemma disclose_info_inj:
  "\<lbrakk> disclose_info c = Some i; disclose_info c' = Some i \<rbrakk> \<Longrightarrow> c = c'"
  using frame_head_inj [of "str_bytes c" "str_bytes c'"]
  by (auto simp: disclose_info_Some_iff simp del: frame.simps)

text \<open>The three derivations from the master seed and the VOPRF seed use distinct \<open>info\<close> strings.\<close>

lemma info_separated:
  "disclose_info c = Some i \<Longrightarrow> i \<noteq> INFO_NULLIFIER_SEED \<and> i \<noteq> INFO_DEDUP_KEYPAIR"
  by (auto simp: disclose_info_Some_iff INFO_DISCLOSE_def INFO_NULLIFIER_SEED_def INFO_DEDUP_KEYPAIR_def
      str_bytes_def)

lemma disclose_total:
  assumes "hkdf_spec L" and "fits n" and "fits (str_bytes c)"
  shows "\<exists>out. disclose L K n c = Some (NULLIFIER_PREFIX @ out)"
proof -
  obtain i m where "disclose_info c = Some i" "disclose_msg n c = Some m"
    using assms by (simp add: disclose_info_Some_iff disclose_msg_Some_iff)
  moreover obtain k where "hkdf_sha512_expand L (master_seed K) i 32 = Some k"
    using assms(1) unfolding hkdf_spec_def by blast
  ultimately show ?thesis by (simp add: disclose_def)
qed

lemma from_seed_Ok_iff:
  "from_seed L seed pw = Ok K \<longleftrightarrow>
     (\<exists>sn server. hkdf_sha512_expand L seed INFO_NULLIFIER_SEED 32 = Some sn \<and>
        voprf_new_from_seed L sn INFO_DEDUP_KEYPAIR = Ok server \<and>
        K = \<lparr>prf_server = server, master_seed = seed, pairwise_secret = pw\<rparr>)"
  by (auto simp: from_seed_def bind_res_Ok_iff split: option.splits)

end
