(* ===== verification/Service_Keys.thy ===== *)
theory Service_Keys
  imports Db_Keys Db_Ledger Prf
begin

text \<open>
  The lifecycle of the service keys (\<open>src/dedup.rs\<close>): one-shot initialisation of the master seed and
  the boot policy that loads the keys, checks the public-key pin and imports the pairwise secret.

  Each refusal text is a constructor of \<open>refusal\<close>. A run consumes a \<open>boot_env\<close>: the engine's behaviour
  in each database call, the clock, the random nonce and seed, and what other processes that have the
  same database file open do to it before each of the calls.
\<close>

subsection \<open>Operations\<close>

definition SERVICE_KEY_ID :: int where "SERVICE_KEY_ID = 0"

datatype refusal =
    InitPinned
  | InitImport
  | AlreadyInitialized
  | InitializedConcurrently
  | ImportWithoutSurface
  | PinWithoutSurface
  | KeysWithoutClients
  | ClientsWithoutKeys
  | PinRequired
  | SeedLength nat
  | ImportExists
  | PinMismatch string string
  | ImportRaced
  | BootFailure string

definition check_init_preconditions :: "bool \<Rightarrow> bool \<Rightarrow> refusal + unit" where
  "check_init_preconditions pin_configured import_configured =
     (if pin_configured then Err InitPinned
      else if import_configured then Err InitImport
      else Ok ())"

record boot_env =
  be_engine :: "nat \<Rightarrow> engine"
  be_clock :: int
  be_nonce :: bytes
  be_rng :: "string + bytes"
  be_other :: "nat \<Rightarrow> db \<Rightarrow> db"

text \<open>The \<open>i\<close>-th database call of a run, a lookup or an insertion.\<close>

definition boot_get :: "boot_env \<Rightarrow> nat \<Rightarrow> db \<Rightarrow> string \<Rightarrow> (refusal + bytes option) \<times> db" where
  "boot_get E i d purpose =
     (let d = be_other E i d in
      (map_err BootFailure (get_service_key (be_engine E i) d purpose), d))"

definition boot_put :: "boot_env \<Rightarrow> nat \<Rightarrow> db \<Rightarrow> string \<Rightarrow> bytes \<Rightarrow> (refusal + bool) \<times> db" where
  "boot_put E i d purpose blob =
     (let (r, d') = insert_service_key (be_engine E i) (be_clock E) (be_other E i d) purpose blob in
      (map_err BootFailure r, d'))"

definition seal_master_seed ::
  "libs \<Rightarrow> boot_env \<Rightarrow> nat \<Rightarrow> db \<Rightarrow> kek \<Rightarrow> bytes \<Rightarrow> (refusal + string) \<times> db" where
  "seal_master_seed L E i d k seed =
     (case boot_get E i d MASTER_SEED_PURPOSE of
        (Err e, d) \<Rightarrow> (Err e, d)
      | (Ok (Some _), d) \<Rightarrow> (Err AlreadyInitialized, d)
      | (Ok None, d) \<Rightarrow>
          (case from_seed L seed None of
             Err e \<Rightarrow> (Err (BootFailure e), d)
           | Ok keys \<Rightarrow>
               (case seal L (be_nonce E) k MASTER_SEED_PURPOSE SERVICE_KEY_ID seed of
                  Err e \<Rightarrow> (Err (BootFailure e), d)
                | Ok sealed \<Rightarrow>
                    (case boot_put E (Suc i) d MASTER_SEED_PURPOSE sealed of
                       (Err e, d) \<Rightarrow> (Err e, d)
                     | (Ok False, d) \<Rightarrow> (Err InitializedConcurrently, d)
                     | (Ok True, d) \<Rightarrow> (Ok (public_key_b64 L keys), d)))))"

definition init_service_keys :: "libs \<Rightarrow> boot_env \<Rightarrow> db \<Rightarrow> kek \<Rightarrow> (refusal + string) \<times> db" where
  "init_service_keys L E d k =
     (case boot_get E 0 d MASTER_SEED_PURPOSE of
        (Err e, d) \<Rightarrow> (Err e, d)
      | (Ok (Some _), d) \<Rightarrow> (Err AlreadyInitialized, d)
      | (Ok None, d) \<Rightarrow>
          (case be_rng E of
             Err e \<Rightarrow> (Err (BootFailure (''OS RNG failure: '' @ e)), d)
           | Ok seed \<Rightarrow> seal_master_seed L E 1 d k seed))"

record prf_boot_args =
  prf_clients_configured :: bool
  dedup_pubkey_pin :: "string option"
  import_pairwise :: "bytes option"

datatype prf_boot = Disabled | Enabled prf_keys

text \<open>Resolving the pairwise secret: the bytes, and whether they come from an import.\<close>

definition resolve_pairwise ::
  "libs \<Rightarrow> boot_env \<Rightarrow> db \<Rightarrow> kek \<Rightarrow> bytes option \<Rightarrow> (refusal + bytes option \<times> bool) \<times> db" where
  "resolve_pairwise L E d k import =
     (case boot_get E 1 d PAIRWISE_HMAC_PURPOSE of
        (Err e, d) \<Rightarrow> (Err e, d)
      | (Ok stored, d) \<Rightarrow>
          ((case import of
              Some secret \<Rightarrow> if stored \<noteq> None then Err ImportExists else Ok (Some secret, True)
            | None \<Rightarrow>
                (case stored of
                   Some sealed_pw \<Rightarrow>
                     map_err BootFailure
                       (bind_res (open_sealed L k PAIRWISE_HMAC_PURPOSE SERVICE_KEY_ID sealed_pw)
                         (\<lambda>s. Ok (Some s, False)))
                 | None \<Rightarrow> Ok (None, False))), d))"

text \<open>The last step: seal an imported secret, once everything else has been validated.\<close>

definition persist_import ::
  "libs \<Rightarrow> boot_env \<Rightarrow> db \<Rightarrow> kek \<Rightarrow> bytes \<Rightarrow> (refusal + unit) \<times> db" where
  "persist_import L E d k secret =
     (case seal L (be_nonce E) k PAIRWISE_HMAC_PURPOSE SERVICE_KEY_ID secret of
        Err e \<Rightarrow> (Err (BootFailure e), d)
      | Ok sealed_pw \<Rightarrow>
          (case boot_put E 2 d PAIRWISE_HMAC_PURPOSE sealed_pw of
             (Err e, d) \<Rightarrow> (Err e, d)
           | (Ok False, d) \<Rightarrow> (Err ImportRaced, d)
           | (Ok True, d) \<Rightarrow> (Ok (), d)))"

definition load_seed :: "libs \<Rightarrow> kek \<Rightarrow> bytes \<Rightarrow> refusal + bytes" where
  "load_seed L k sealed =
     bind_res (map_err BootFailure (open_sealed L k MASTER_SEED_PURPOSE SERVICE_KEY_ID sealed))
       (\<lambda>seed. if length seed \<noteq> MASTER_SEED_LEN then Err (SeedLength (length seed)) else Ok seed)"

definition boot_enabled ::
  "libs \<Rightarrow> boot_env \<Rightarrow> db \<Rightarrow> kek \<Rightarrow> prf_boot_args \<Rightarrow> bytes \<Rightarrow> (refusal + prf_boot) \<times> db" where
  "boot_enabled L E d k args sealed =
     (case dedup_pubkey_pin args of
        None \<Rightarrow> (Err PinRequired, d)
      | Some raw_pin \<Rightarrow>
          (case load_seed L k sealed of
             Err e \<Rightarrow> (Err e, d)
           | Ok seed \<Rightarrow>
               (case resolve_pairwise L E d k (import_pairwise args) of
                  (Err e, d) \<Rightarrow> (Err e, d)
                | (Ok (pw, importing), d) \<Rightarrow>
                    (case from_seed L seed pw of
                       Err e \<Rightarrow> (Err (BootFailure e), d)
                     | Ok keys \<Rightarrow>
                         if public_key_b64 L keys \<noteq> str_trim raw_pin
                         then (Err (PinMismatch (public_key_b64 L keys) (str_trim raw_pin)), d)
                         else
                           (case (importing, pw) of
                              (True, Some secret) \<Rightarrow>
                                (case persist_import L E d k secret of
                                   (Err e, d) \<Rightarrow> (Err e, d)
                                 | (Ok _, d) \<Rightarrow> (Ok (Enabled keys), d))
                            | _ \<Rightarrow> (Ok (Enabled keys), d))))))"

definition prepare_prf_boot ::
  "libs \<Rightarrow> boot_env \<Rightarrow> db \<Rightarrow> kek \<Rightarrow> prf_boot_args \<Rightarrow> (refusal + prf_boot) \<times> db" where
  "prepare_prf_boot L E d k args =
     (case boot_get E 0 d MASTER_SEED_PURPOSE of
        (Err e, d) \<Rightarrow> (Err e, d)
      | (Ok sealed_seed, d) \<Rightarrow>
          (case (sealed_seed, prf_clients_configured args) of
             (None, False) \<Rightarrow>
               (if import_pairwise args \<noteq> None then Err ImportWithoutSurface
                else if dedup_pubkey_pin args \<noteq> None then Err PinWithoutSurface
                else Ok Disabled, d)
           | (Some _, False) \<Rightarrow> (Err KeysWithoutClients, d)
           | (None, True) \<Rightarrow> (Err ClientsWithoutKeys, d)
           | (Some sealed, True) \<Rightarrow> boot_enabled L E d k args sealed))"

subsection \<open>Database calls\<close>

text \<open>Other processes may add service keys but, going through the same code, never replace one.\<close>

definition respectful :: "boot_env \<Rightarrow> bool" where
  "respectful E \<longleftrightarrow> (\<forall>i d p b. service_blob d p = Some b \<longrightarrow> service_blob (be_other E i d) p = Some b)"

definition quiet :: "boot_env \<Rightarrow> bool" where
  "quiet E \<longleftrightarrow> (\<forall>i d. be_other E i d = d)"

definition fault_free :: "boot_env \<Rightarrow> bool" where
  "fault_free E \<longleftrightarrow> (\<forall>i j. stmt_fault (be_engine E i) j = None)"

lemma quiet_respectful: "quiet E \<Longrightarrow> respectful E"
  by (simp add: quiet_def respectful_def)

text \<open>\<open>extends d d'\<close>: every service key of \<open>d\<close> is in \<open>d'\<close>, unchanged.\<close>

definition extends :: "db \<Rightarrow> db \<Rightarrow> bool" where
  "extends d d' \<longleftrightarrow> service_blob d \<subseteq>\<^sub>m service_blob d'"

lemma extends_refl [simp]: "extends d d"
  by (simp add: extends_def)

lemma extends_trans: "extends d1 d2 \<Longrightarrow> extends d2 d3 \<Longrightarrow> extends d1 d3"
  unfolding extends_def by (rule map_le_trans)

lemma extendsD: "extends d d' \<Longrightarrow> service_blob d p = Some b \<Longrightarrow> service_blob d' p = Some b"
  by (auto simp: extends_def map_le_def dom_def)

lemma other_extends: "respectful E \<Longrightarrow> extends d (be_other E i d)"
  by (auto simp: respectful_def extends_def map_le_def dom_def)

lemma boot_get_extends: "respectful E \<Longrightarrow> boot_get E i d p = (r, d') \<Longrightarrow> extends d d'"
  by (auto simp: boot_get_def Let_def other_extends)

lemma insert_service_extends:
  "insert_service_key eng clk d p b = (r, d') \<Longrightarrow> extends d d'"
  using sks.never_overwritten [of d _ _ "(eng, clk)" p b r d']
  by (auto simp: extends_def map_le_def dom_def)

lemma boot_put_extends: "respectful E \<Longrightarrow> boot_put E i d p b = (r, d') \<Longrightarrow> extends d d'"
  by (auto simp: boot_put_def split: prod.splits
      intro: extends_trans [OF other_extends insert_service_extends])

lemma boot_get_Ok:
  "boot_get E i d p = (Ok r, d') \<Longrightarrow> d' = be_other E i d \<and> r = service_blob d' p"
  by (auto simp: boot_get_def Let_def get_service_key_def)

lemma boot_get_quiet: "quiet E \<Longrightarrow> boot_get E i d p = (r, d') \<Longrightarrow> d' = d"
  by (auto simp: boot_get_def Let_def quiet_def)

lemma boot_get_fault_free:
  "\<lbrakk> quiet E; fault_free E \<rbrakk> \<Longrightarrow> boot_get E i d p = (Ok (service_blob d p), d)"
  by (simp add: boot_get_def Let_def quiet_def fault_free_def get_service_key_def run_stmt_None)

lemma boot_put_True:
  "boot_put E i d p b = (Ok True, d') \<Longrightarrow>
     service_blob (be_other E i d) p = None \<and> service_blob d' = (service_blob (be_other E i d))(p \<mapsto> b)"
  using sks.insert_stored [of "(be_engine E i, be_clock E)" "be_other E i d" p b d']
  by (auto simp: boot_put_def split: prod.splits)

lemma boot_put_other:
  "\<lbrakk> quiet E; boot_put E i d p b = (r, d'); r \<noteq> Ok True \<rbrakk> \<Longrightarrow> d' = d"
proof -
  assume "quiet E" and put: "boot_put E i d p b = (r, d')" and "r \<noteq> Ok True"
  then obtain r0 where "insert_service_key (be_engine E i) (be_clock E) d p b = (r0, d')"
    and "r = map_err BootFailure r0"
    by (auto simp: boot_put_def quiet_def split: prod.splits)
  with \<open>r \<noteq> Ok True\<close> show "d' = d"
    by (cases r0; cases "projr r0") (auto simp: insert_service_False_iff dest: insert_service_Err)
qed

lemma boot_put_fault_free:
  assumes "quiet E" and "fault_free E" and "service_blob d p = None"
  shows "\<exists>d'. boot_put E i d p b = (Ok True, d') \<and> service_blob d' = (service_blob d)(p \<mapsto> b)"
proof -
  from assms obtain d' where "boot_put E i d p b = (Ok True, d')"
    by (auto simp: boot_put_def quiet_def fault_free_def insert_service_key_def run_insert_def)
  with boot_put_True [OF this] assms(1) show ?thesis
    by (auto simp: quiet_def)
qed

subsection \<open>Initialisation\<close>

lemma seal_master_seed_Ok:
  assumes "seal_master_seed L E i d k seed = (Ok pk, d')"
  obtains keys sealed d1 where "from_seed L seed None = Ok keys" and "pk = public_key_b64 L keys"
    and "seal L (be_nonce E) k MASTER_SEED_PURPOSE SERVICE_KEY_ID seed = Ok sealed"
    and "service_blob (be_other E i d) MASTER_SEED_PURPOSE = None"
    and "d1 = be_other E (Suc i) (be_other E i d)" and "service_blob d1 MASTER_SEED_PURPOSE = None"
    and "service_blob d' = (service_blob d1)(MASTER_SEED_PURPOSE \<mapsto> sealed)"
  using assms
  by (auto simp: seal_master_seed_def split: prod.splits sum.splits option.splits bool.splits
      dest!: boot_get_Ok boot_put_True)

lemma seal_master_seed_extends:
  assumes "respectful E" and "seal_master_seed L E i d k seed = (r, d')"
  shows "extends d d'"
  using assms(2)
  by (auto simp: seal_master_seed_def split: prod.splits sum.splits option.splits bool.splits
      dest!: boot_get_extends [OF assms(1)] boot_put_extends [OF assms(1)] intro: extends_trans)

lemma init_extends:
  assumes "respectful E" and "init_service_keys L E d k = (r, d')"
  shows "extends d d'"
  using assms(2)
  by (auto simp: init_service_keys_def split: prod.splits sum.splits option.splits
      dest!: boot_get_extends [OF assms(1)] seal_master_seed_extends [OF assms(1)] intro: extends_trans)

lemma init_Ok_seed:
  assumes "init_service_keys L E d k = (Ok pk, d')"
  obtains seed d1 where "be_rng E = Ok seed" and "d1 = be_other E 0 d"
    and "seal_master_seed L E 1 d1 k seed = (Ok pk, d')"
    and "service_blob d1 MASTER_SEED_PURPOSE = None"
  using assms by (auto simp: init_service_keys_def split: prod.splits sum.splits option.splits
      dest!: boot_get_Ok)

subsection \<open>Boot\<close>

lemma resolve_extends:
  assumes "respectful E" and "resolve_pairwise L E d k imp = (r, d')"
  shows "extends d d'"
  using assms(2)
  by (auto simp: resolve_pairwise_def split: prod.splits sum.splits dest!: boot_get_extends [OF assms(1)])

lemma persist_extends:
  assumes "respectful E" and "persist_import L E d k s = (r, d')"
  shows "extends d d'"
  using assms(2)
  by (auto simp: persist_import_def split: prod.splits sum.splits bool.splits dest!: boot_put_extends [OF assms(1)])

lemma boot_enabled_extends:
  assumes "respectful E" and "boot_enabled L E d k args s = (r, d')"
  shows "extends d d'"
  using assms(2)
  by (auto simp: boot_enabled_def split: option.splits sum.splits prod.splits if_splits bool.splits
      dest!: resolve_extends [OF assms(1)] persist_extends [OF assms(1)] intro: extends_trans)

lemma prepare_extends:
  assumes "respectful E" and "prepare_prf_boot L E d k args = (r, d')"
  shows "extends d d'"
  using assms(2)
  by (auto simp: prepare_prf_boot_def split: option.splits sum.splits prod.splits bool.splits
      dest!: boot_get_extends [OF assms(1)] boot_enabled_extends [OF assms(1)] intro: extends_trans)

lemma resolve_quiet:
  assumes "quiet E" and "resolve_pairwise L E d k imp = (r, d')"
  shows "d' = d"
  using assms(2)
  by (auto simp: resolve_pairwise_def split: prod.splits sum.splits dest!: boot_get_quiet [OF assms(1)])

lemma persist_Err:
  assumes "quiet E" and "persist_import L E d k s = (Err e, d')"
  shows "d' = d"
  using assms(2)
  by (auto simp: persist_import_def split: prod.splits sum.splits bool.splits dest!: boot_put_other [OF assms(1)])

lemma boot_enabled_Err:
  assumes "quiet E" and "boot_enabled L E d k args s = (Err e, d')"
  shows "d' = d"
  using assms(2)
  by (auto simp: boot_enabled_def split: option.splits sum.splits prod.splits if_splits bool.splits
      dest!: resolve_quiet [OF assms(1)] persist_Err [OF assms(1)])

lemma prepare_Err:
  assumes "quiet E" and "prepare_prf_boot L E d k args = (Err e, d')"
  shows "d' = d"
  using assms(2)
  by (auto simp: prepare_prf_boot_def split: option.splits sum.splits prod.splits bool.splits
      dest!: boot_get_quiet [OF assms(1)] boot_enabled_Err [OF assms(1)])

lemma prepare_Enabled:
  assumes "prepare_prf_boot L E d k args = (Ok (Enabled keys), d')"
  obtains sealed raw_pin d0 where "prf_clients_configured args" and "d0 = be_other E 0 d"
    and "service_blob d0 MASTER_SEED_PURPOSE = Some sealed"
    and "dedup_pubkey_pin args = Some raw_pin" and "public_key_b64 L keys = str_trim raw_pin"
    and "boot_enabled L E d0 k args sealed = (Ok (Enabled keys), d')"
proof -
  from assms obtain sealed where clients: "prf_clients_configured args"
    and blob: "service_blob (be_other E 0 d) MASTER_SEED_PURPOSE = Some sealed"
    and en: "boot_enabled L E (be_other E 0 d) k args sealed = (Ok (Enabled keys), d')"
    by (auto simp: prepare_prf_boot_def split: option.splits sum.splits prod.splits bool.splits if_splits
        dest!: boot_get_Ok dest: sym)
  from en obtain raw_pin where "dedup_pubkey_pin args = Some raw_pin"
    and "public_key_b64 L keys = str_trim raw_pin"
    by (auto simp: boot_enabled_def split: option.splits sum.splits prod.splits if_splits bool.splits)
  with clients blob en show thesis by (intro that) simp_all
qed

lemma prepare_Disabled_iff:
  assumes "quiet E" and "fault_free E"
  shows "fst (prepare_prf_boot L E d k args) = Ok Disabled \<longleftrightarrow>
    service_blob d MASTER_SEED_PURPOSE = None \<and> \<not> prf_clients_configured args \<and>
    import_pairwise args = None \<and> dedup_pubkey_pin args = None"
  using boot_get_fault_free [OF assms]
  by (auto simp: prepare_prf_boot_def boot_enabled_def
      split: option.splits sum.splits prod.splits bool.splits if_splits)

text \<open>A node that has its keys, with a matching pin and no import pending, comes up.\<close>

lemma boot_comes_up:
  assumes "quiet E" and "fault_free E" and "prf_clients_configured args"
    and "service_blob d MASTER_SEED_PURPOSE = Some sealed"
    and "open_sealed L k MASTER_SEED_PURPOSE SERVICE_KEY_ID sealed = Ok seed"
    and "length seed = MASTER_SEED_LEN" and "import_pairwise args = None"
    and pw: "case service_blob d PAIRWISE_HMAC_PURPOSE of None \<Rightarrow> pw = None
      | Some b \<Rightarrow> \<exists>s. open_sealed L k PAIRWISE_HMAC_PURPOSE SERVICE_KEY_ID b = Ok s \<and> pw = Some s"
    and "from_seed L seed pw = Ok keys"
    and "dedup_pubkey_pin args = Some pin" and "public_key_b64 L keys = str_trim pin"
  shows "prepare_prf_boot L E d k args = (Ok (Enabled keys), d)"
proof -
  have "resolve_pairwise L E d k None = (Ok (pw, False), d)"
    using pw by (auto simp: resolve_pairwise_def boot_get_fault_free assms(1,2) split: option.splits)
  then have "boot_enabled L E d k args sealed = (Ok (Enabled keys), d)"
    using assms by (simp add: boot_enabled_def load_seed_def)
  then show ?thesis
    using assms by (simp add: prepare_prf_boot_def boot_get_fault_free)
qed

lemma from_seed_pk:
  assumes "from_seed L seed pw = Ok keys"
  obtains keys' where "from_seed L seed pw' = Ok keys'" and "public_key_b64 L keys' = public_key_b64 L keys"
    and "master_seed keys' = seed" and "pairwise_secret keys' = pw'"
  using assms by (fastforce simp: from_seed_Ok_iff public_key_b64_def public_key_bytes_def)

text \<open>The import: absent before, sealed after, and the keys carry it.\<close>

lemma boot_enabled_import:
  assumes "quiet E" and "boot_enabled L E d k args sealed = (Ok (Enabled keys), d')"
    and "import_pairwise args = Some secret"
  obtains sealed_pw where "service_blob d PAIRWISE_HMAC_PURPOSE = None"
    and "seal L (be_nonce E) k PAIRWISE_HMAC_PURPOSE SERVICE_KEY_ID secret = Ok sealed_pw"
    and "service_blob d' = (service_blob d)(PAIRWISE_HMAC_PURPOSE \<mapsto> sealed_pw)"
    and "pairwise_secret keys = Some secret"
proof -
  from assms obtain seed where rp: "resolve_pairwise L E d k (Some secret) = (Ok (Some secret, True), d)"
    and keys: "from_seed L seed (Some secret) = Ok keys"
    and pi: "persist_import L E d k secret = (Ok (), d')"
    by (auto simp: boot_enabled_def resolve_pairwise_def
        split: option.splits sum.splits prod.splits if_splits bool.splits dest!: boot_get_quiet)
  from rp have none: "service_blob d PAIRWISE_HMAC_PURPOSE = None"
    by (auto simp: resolve_pairwise_def split: prod.splits sum.splits if_splits dest!: boot_get_Ok)
  from pi obtain sealed_pw where
    s: "seal L (be_nonce E) k PAIRWISE_HMAC_PURPOSE SERVICE_KEY_ID secret = Ok sealed_pw"
    and put: "boot_put E 2 d PAIRWISE_HMAC_PURPOSE sealed_pw = (Ok True, d')"
    by (auto simp: persist_import_def split: prod.splits sum.splits bool.splits)
  have "be_other E 2 d = d"
    using assms(1) by (simp add: quiet_def)
  with boot_put_True [OF put] none s keys show thesis
    by (intro that) (auto simp: from_seed_Ok_iff)
qed

lemma load_seed_Ok_iff:
  "load_seed L k sealed = Ok seed \<longleftrightarrow>
     open_sealed L k MASTER_SEED_PURPOSE SERVICE_KEY_ID sealed = Ok seed \<and> length seed = MASTER_SEED_LEN"
  by (auto simp: load_seed_def bind_res_Ok_iff)

text \<open>An enabled boot serves under the stored seed, whose public key is the pinned one.\<close>

lemma boot_enabled_keys:
  assumes "boot_enabled L E d k args sealed = (Ok (Enabled keys), d')"
  obtains pin seed pw where "dedup_pubkey_pin args = Some pin" and "load_seed L k sealed = Ok seed"
    and "from_seed L seed pw = Ok keys" and "public_key_b64 L keys = str_trim pin"
  using assms
  by (auto simp: boot_enabled_def split: option.splits sum.splits prod.splits if_splits bool.splits)

definition stored_pairwise :: "libs \<Rightarrow> kek \<Rightarrow> db \<Rightarrow> bytes option \<Rightarrow> bool" where
  "stored_pairwise L k d pw =
     (case service_blob d PAIRWISE_HMAC_PURPOSE of
        None \<Rightarrow> pw = None
      | Some b \<Rightarrow> \<exists>s. open_sealed L k PAIRWISE_HMAC_PURPOSE SERVICE_KEY_ID b = Ok s \<and> pw = Some s)"

lemma resolve_no_import:
  assumes "quiet E" and "resolve_pairwise L E d k None = (Ok (pw, importing), d')"
  shows "stored_pairwise L k d pw \<and> \<not> importing \<and> d' = d"
proof -
  obtain r where g: "boot_get E 1 d PAIRWISE_HMAC_PURPOSE = (r, d)"
    using boot_get_quiet [OF assms(1)] by (metis prod.collapse)
  with assms(2) have "\<exists>b. r = Ok b"
    by (cases r) (auto simp: resolve_pairwise_def)
  then obtain b where b: "r = Ok b" by blast
  with g have "service_blob d PAIRWISE_HMAC_PURPOSE = b"
    using boot_get_Ok by blast
  with assms(2) g b show ?thesis
    by (cases b) (auto simp: resolve_pairwise_def stored_pairwise_def bind_res_Ok_iff)
qed

lemma boot_enabled_no_import:
  assumes "quiet E" and "boot_enabled L E d k args sealed = (Ok (Enabled keys), d')" and "import_pairwise args = None"
  obtains pin seed pw where "dedup_pubkey_pin args = Some pin" and "load_seed L k sealed = Ok seed"
    and "from_seed L seed pw = Ok keys" and "public_key_b64 L keys = str_trim pin"
    and "stored_pairwise L k d pw" and "d' = d"
proof -
  obtain r d1 where rp: "resolve_pairwise L E d k None = (r, d1)"
    by (cases "resolve_pairwise L E d k None")
  from assms(2,3) rp obtain pin seed pw importing where r: "r = Ok (pw, importing)"
    and pin: "dedup_pubkey_pin args = Some pin" "load_seed L k sealed = Ok seed"
      "from_seed L seed pw = Ok keys" "public_key_b64 L keys = str_trim pin"
    by (auto simp: boot_enabled_def split: option.splits sum.splits prod.splits if_splits bool.splits)
  have "stored_pairwise L k d pw" and "\<not> importing" and "d1 = d"
    using resolve_no_import [OF assms(1) rp [unfolded r]] by blast+
  moreover from this assms(2,3) rp r pin have "d' = d"
    by (simp add: boot_enabled_def)
  ultimately show thesis
    using that pin by blast
qed

lemma purposes_differ [simp]: "MASTER_SEED_PURPOSE \<noteq> PAIRWISE_HMAC_PURPOSE"
  by (simp add: MASTER_SEED_PURPOSE_def PAIRWISE_HMAC_PURPOSE_def)

subsection \<open>Service keys and group keys never open as one another\<close>

lemma service_id_in_i64 [simp]: "in_i64 SERVICE_KEY_ID"
  by (simp add: in_i64_def SERVICE_KEY_ID_def)

lemma cross_table_open_fails:
  assumes "aead_roundtrip L"
    and "aead_authentic L (kek_bytes k) {associated_data g i, associated_data h j}"
    and "length n = NONCE_LEN" and "seal L n k g i p = Ok blob" and "in_i64 i" and "in_i64 j" and "i \<noteq> j"
  shows "open_sealed L k h j blob = Err ''AES-GCM decryption/authentication failed''"
  using assms by (intro open_seal_other) auto

end
