(* ===== verification/App_State.thy ===== *)
theory App_State
  imports Ratelimit Keygen_Invariants Identity Service_Keys
begin

text \<open>
  The state the handlers share (\<open>src/state.rs\<close>) and what one request consumes from its surroundings.
  The database is the one inside the key-generation service (the source shares one \<open>Arc<Db>\<close>).
\<close>

record prf_state =
  ps_keys :: prf_keys
  allowed_client_ids :: "string set"
  ps_limiter :: key_rate_limiter
  ps_rl :: key_rl_state

record app_state =
  app_kg :: kg_state
  app_kek :: kek
  app_rate_limiter :: rate_limiter
  app_key_limiter :: key_rate_limiter
  app_key_rl :: key_rl_state
  auto_create_keys :: bool
  app_key_bits :: nat
  app_prf :: "prf_state option"

abbreviation app_db :: "app_state \<Rightarrow> db" where "app_db st \<equiv> kg_db (app_kg st)"

definition set_db :: "db \<Rightarrow> app_state \<Rightarrow> app_state" where
  "set_db d st = st\<lparr>app_kg := (app_kg st)\<lparr>kg_db := d\<rparr>\<rparr>"

text \<open>
  The surroundings of a request: the engine's behaviour in its database calls, the clocks, randomness,
  what wakes its waits, whether a blocking task fails to return (and with which error), and the effect
  of other tasks between its steps.
\<close>

record req_env =
  rq_engine :: "nat \<Rightarrow> engine"
  rq_clock :: "nat \<Rightarrow> int"
  rq_lo :: int
  rq_instant :: int
  rq_key :: key_env
  rq_wakes :: "wake list"
  rq_other :: "nat \<Rightarrow> kg_state \<Rightarrow> kg_state"
  rq_join :: "string option"
  rq_rng :: "string + bytes"
  rq_voprf :: bytes

definition interfere :: "req_env \<Rightarrow> nat \<Rightarrow> app_state \<Rightarrow> app_state" where
  "interfere E i st = st\<lparr>app_kg := rq_other E i (app_kg st)\<rparr>"

text \<open>What other tasks do between the steps of a request stays within a relation.\<close>

definition env_within :: "(kg_state \<Rightarrow> kg_state \<Rightarrow> bool) \<Rightarrow> req_env \<Rightarrow> bool" where
  "env_within R E \<longleftrightarrow> (\<forall>i s. R s (rq_other E i s)) \<and> (\<forall>w \<in> set (rq_wakes E). \<forall>s. R s (wake_effect w s))"

lemma env_within_mono [mono]: "(\<And>s s'. R s s' \<longrightarrow> R' s s') \<Longrightarrow> env_within R E \<longrightarrow> env_within R' E"
  by (auto simp: env_within_def)

definition undisturbed :: "req_env \<Rightarrow> bool" where
  "undisturbed E \<longleftrightarrow> (\<forall>i s. rq_other E i s = s)"

definition faultless :: "req_env \<Rightarrow> bool" where
  "faultless E \<longleftrightarrow> (\<forall>i j. stmt_fault (rq_engine E i) j = None)"

lemma set_db_sel [simp]:
  "app_db (set_db d st) = d" "app_kek (set_db d st) = app_kek st"
  "app_rate_limiter (set_db d st) = app_rate_limiter st"
  "app_key_limiter (set_db d st) = app_key_limiter st" "app_key_rl (set_db d st) = app_key_rl st"
  "auto_create_keys (set_db d st) = auto_create_keys st" "app_key_bits (set_db d st) = app_key_bits st"
  "app_prf (set_db d st) = app_prf st"
  by (simp_all add: set_db_def)

lemma set_db_same [simp]: "set_db (app_db st) st = st" "set_db d (set_db d' st) = set_db d st"
  by (simp_all add: set_db_def)

lemma interfere_sel [simp]:
  "app_kg (interfere E i st) = rq_other E i (app_kg st)" "app_kek (interfere E i st) = app_kek st"
  "app_rate_limiter (interfere E i st) = app_rate_limiter st"
  "app_key_limiter (interfere E i st) = app_key_limiter st"
  "app_key_rl (interfere E i st) = app_key_rl st"
  "auto_create_keys (interfere E i st) = auto_create_keys st"
  "app_key_bits (interfere E i st) = app_key_bits st" "app_prf (interfere E i st) = app_prf st"
  by (simp_all add: interfere_def)

lemma interfere_undisturbed [simp]: "undisturbed E \<Longrightarrow> interfere E i st = st"
  by (simp add: interfere_def undisturbed_def)

end
