(* ===== verification/Handlers_Sign.thy ===== *)
theory Handlers_Sign
  imports App_State
begin

text \<open>
  The blind-RSA half of \<open>src/handlers.rs\<close>: \<open>/sign\<close> and the \<open>/key\<close> endpoints. A handler maps the shared
  state to its answer and the new state; one that may still be waiting (for a key, for a permit)
  answers \<open>None\<close> until it returns. Log output is not part of the model.
\<close>

subsection \<open>Requests and responses\<close>

definition MAX_BLINDED_B64 :: nat where "MAX_BLINDED_B64 = 1024"
definition MAX_ID_LEN :: nat where "MAX_ID_LEN = 256"
definition SIGN_KEY_WAIT :: nat where "SIGN_KEY_WAIT = 750"

record sign_request =
  sr_group_id :: string
  sr_participant_id :: string
  sr_version_id :: string
  sr_blinded_message :: string

record sign_response = blind_signature :: string

record key_response =
  kr_group_id :: string
  kr_status :: string
  kr_public_key :: "string option"
  kr_key_id :: "int option"

definition key_response_ready :: "libs \<Rightarrow> string \<Rightarrow> bytes \<Rightarrow> int \<Rightarrow> key_response" where
  "key_response_ready L g spki key_id =
     \<lparr>kr_group_id = g, kr_status = ''ready'', kr_public_key = Some (b64_encode L spki),
      kr_key_id = Some key_id\<rparr>"

definition key_response_pending :: "string \<Rightarrow> key_response" where
  "key_response_pending g =
     \<lparr>kr_group_id = g, kr_status = ''pending'', kr_public_key = None, kr_key_id = None\<rparr>"

subsection \<open>Guards\<close>

definition validate_id :: "string \<Rightarrow> string \<Rightarrow> app_error + unit" where
  "validate_id v field =
     (if v = [] then
        Err (BadRequest
          (if field = ''group_id'' then ''group_id is empty''
           else if field = ''participant_id'' then ''participant_id is empty''
           else if field = ''version_id'' then ''version_id is empty''
           else ''id is empty''))
      else if MAX_ID_LEN < length v then Err (BadRequest ''identifier too long'')
      else Ok ())"

definition require_sign_surface :: "client_identity \<Rightarrow> app_error + unit" where
  "require_sign_surface i =
     (if \<not> may_sign i then Err (Forbidden ''this identity is authorized only for the PRF surface'')
      else Ok ())"

definition check_key_rate_limit :: "req_env \<Rightarrow> app_state \<Rightarrow> client_identity \<Rightarrow> (app_error + unit) \<times> app_state" where
  "check_key_rate_limit E st i =
     (let (dec, rl) = check_at (app_key_limiter st) (rq_lo E) (id_name i) (rq_instant E) (app_key_rl st) in
      (case dec of
         KAllow \<Rightarrow> Ok ()
       | KDenyIdentity \<Rightarrow> Err RateLimited
       | KDenyGlobal \<Rightarrow> Err RateLimited, st\<lparr>app_key_rl := rl\<rparr>))"

definition healthz :: string where "healthz = ''ok''"

subsection \<open>POST /sign\<close>

definition sign_validate :: "libs \<Rightarrow> client_identity \<Rightarrow> sign_request \<Rightarrow> app_error + bytes" where
  "sign_validate L i req =
     bind_res (require_sign_surface i) (\<lambda>_.
     bind_res (validate_id (sr_group_id req) ''group_id'') (\<lambda>_.
     bind_res (validate_id (sr_participant_id req) ''participant_id'') (\<lambda>_.
     bind_res (validate_id (sr_version_id req) ''version_id'') (\<lambda>_.
     if sr_blinded_message req = [] \<or> MAX_BLINDED_B64 < length (sr_blinded_message req)
     then Err (BadRequest ''blinded_message length out of range'')
     else ok_or (BadRequest ''blinded_message is not valid base64'')
            (b64_decode L (sr_blinded_message req))))))"

text \<open>Loading the key and signing, after the reservation.\<close>

definition sign_loaded ::
  "libs \<Rightarrow> sign_request \<Rightarrow> bytes \<Rightarrow> string + bytes \<times> bytes \<Rightarrow> app_error + bytes" where
  "sign_loaded L req blinded k =
     bind_res (map_err (\<lambda>e. if e = ''no key'' then NoSuchKey else Internal e) k) (\<lambda>(pkcs8, _).
       map_err (\<lambda>e. Internal (''blind_sign failed: '' @ e))
         (blind_sign L pkcs8 (sr_version_id req) blinded))"

definition load_and_sign ::
  "libs \<Rightarrow> req_env \<Rightarrow> app_state \<Rightarrow> sign_request \<Rightarrow> bytes \<Rightarrow> (app_error + bytes) \<times> app_state" where
  "load_and_sign L E st req blinded =
     (let st1 = interfere E 8 st;
          (k, created) = get_or_create_key L (rq_engine E 6) (rq_key E) (app_db st) (app_db st1)
                     (app_kek st) (sr_group_id req) (app_key_bits st) (auto_create_keys st) in
      (sign_loaded L req blinded k, case created of None \<Rightarrow> st | Some d \<Rightarrow> set_db d st1))"

definition roll_back :: "req_env \<Rightarrow> app_state \<Rightarrow> int \<Rightarrow> app_state" where
  "roll_back E st i = set_db (snd (delete_issuance (rq_engine E 7) (app_db st) i)) st"

definition sign_blocking ::
  "libs \<Rightarrow> req_env \<Rightarrow> app_state \<Rightarrow> sign_request \<Rightarrow> bytes \<Rightarrow> (app_error + sign_response) \<times> app_state" where
  "sign_blocking L E st req blinded =
     (let st1 = interfere E 4 st in
      case rl_check (app_rate_limiter st) (\<lambda>i. rq_engine E (3 + i)) (rq_clock E 0)
             (app_db st) (app_db st1) (sr_participant_id req) of
        Err e \<Rightarrow> (Err (Internal e), st1)
      | Ok DenyParticipant \<Rightarrow> (Err RateLimited, st1)
      | Ok DenyGlobal \<Rightarrow> (Err RateLimited, st1)
      | Ok Allow \<Rightarrow>
          let st2 = interfere E 5 st1 in
          (case reserve_issuance (rq_engine E 5) (rq_clock E 1) (app_db st2)
                  (sr_group_id req) (sr_participant_id req) (sr_version_id req) of
             (Err e, d) \<Rightarrow> (Err (Internal e), set_db d st2)
           | (Ok reservation.AlreadyIssued, d) \<Rightarrow> (Err app_error.AlreadyIssued, set_db d st2)
           | (Ok (Reserved i), d) \<Rightarrow>
               (case load_and_sign L E (interfere E 6 (set_db d st2)) req blinded of
                  (Ok sig, st3) \<Rightarrow> (Ok \<lparr>blind_signature = b64_encode L sig\<rparr>, st3)
                | (Err e, st3) \<Rightarrow> (Err e, roll_back E (interfere E 7 st3) i))))"

text \<open>
  \<open>sign_ready\<close> is the part between validation and the blocking work: \<open>Ok ()\<close> when the group's key is
  ready. It waits at most \<open>SIGN_KEY_WAIT\<close>, the deadline among the wake-ups of \<open>wait_ready\<close>.
\<close>

definition sign_ready ::
  "req_env \<Rightarrow> app_state \<Rightarrow> string \<Rightarrow> ((app_error + unit) \<times> app_state) option" where
  "sign_ready E st g =
     (if auto_create_keys st then
        map_option (\<lambda>(r, s).
          (case r of
             Err e \<Rightarrow> Err (Internal e)
           | Ok Ready \<Rightarrow> Ok ()
           | Ok Pending \<Rightarrow> Err KeyPending
           | Ok (Failed e) \<Rightarrow> Err (Internal e), st\<lparr>app_kg := s\<rparr>))
          (wait_ready (rq_engine E) (rq_other E) (rq_wakes E) (app_kg st) g)
      else
        Some (case kg_active_key (rq_engine E 0) (app_kg st) g of
                Err e \<Rightarrow> Err (Internal e)
              | Ok None \<Rightarrow> Err NoSuchKey
              | Ok (Some _) \<Rightarrow> Ok (), st))"

definition sign ::
  "libs \<Rightarrow> req_env \<Rightarrow> app_state \<Rightarrow> client_identity \<Rightarrow> sign_request \<Rightarrow>
     ((app_error + sign_response) \<times> app_state) option" where
  "sign L E st i req =
     (case sign_validate L i req of
        Err e \<Rightarrow> Some (Err e, st)
      | Ok blinded \<Rightarrow>
          (case sign_ready E st (sr_group_id req) of
             None \<Rightarrow> None
           | Some (Err e, st1) \<Rightarrow> Some (Err e, st1)
           | Some (Ok _, st1) \<Rightarrow>
               (case rq_join E of
                  Some e \<Rightarrow> Some (Err (Internal (''join error: '' @ e)), interfere E 3 st1)
                | None \<Rightarrow> Some (sign_blocking L E (interfere E 3 st1) req blinded))))"

subsection \<open>The key endpoints\<close>

definition key_gate :: "req_env \<Rightarrow> app_state \<Rightarrow> client_identity \<Rightarrow> string \<Rightarrow> (app_error + unit) \<times> app_state" where
  "key_gate E st i g =
     (case bind_res (require_sign_surface i) (\<lambda>_. validate_id g ''group_id'') of
        Err e \<Rightarrow> (Err e, st)
      | Ok _ \<Rightarrow> check_key_rate_limit E st i)"

text \<open>The answer once \<open>ensure\<close> has said \<open>Ready\<close>.\<close>

definition ready_answer :: "libs \<Rightarrow> engine \<Rightarrow> kg_state \<Rightarrow> string \<Rightarrow> app_error + nat \<times> key_response" where
  "ready_answer L eng s g =
     (case kg_active_key eng s g of
        Err e \<Rightarrow> Err (Internal e)
      | Ok None \<Rightarrow> Err (Internal ''key vanished after ready'')
      | Ok (Some (key_id, spki)) \<Rightarrow> Ok (200, key_response_ready L g spki key_id))"

definition ensure_answer ::
  "libs \<Rightarrow> req_env \<Rightarrow> app_state \<Rightarrow> string \<Rightarrow> (app_error + nat \<times> key_response) \<times> app_state" where
  "ensure_answer L E st g =
     (let (r, s) = ensure (\<lambda>i. rq_engine E (1 + i)) (rq_other E 1) (rq_other E 0 (app_kg st)) g in
      case r of
        Err e \<Rightarrow> (Err (Internal e), st\<lparr>app_kg := s\<rparr>)
      | Ok Ready \<Rightarrow> let s = rq_other E 2 s in (ready_answer L (rq_engine E 3) s g, st\<lparr>app_kg := s\<rparr>)
      | Ok Pending \<Rightarrow> (Ok (202, key_response_pending g), st\<lparr>app_kg := s\<rparr>)
      | Ok (Failed e) \<Rightarrow> (Err (Internal e), st\<lparr>app_kg := s\<rparr>))"

definition get_key ::
  "libs \<Rightarrow> req_env \<Rightarrow> app_state \<Rightarrow> client_identity \<Rightarrow> string \<Rightarrow> (app_error + nat \<times> key_response) \<times> app_state" where
  "get_key L E st i g =
     (case key_gate E st i g of
        (Err e, st) \<Rightarrow> (Err e, st)
      | (Ok _, st) \<Rightarrow>
          let st = interfere E 4 st in
          (case kg_active_key (rq_engine E 0) (app_kg st) g of
             Err e \<Rightarrow> (Err (Internal e), st)
           | Ok (Some (key_id, spki)) \<Rightarrow> (Ok (200, key_response_ready L g spki key_id), st)
           | Ok None \<Rightarrow>
               if \<not> auto_create_keys st then (Err NoSuchKey, st)
               else ensure_answer L E st g))"

definition create_key_handler ::
  "libs \<Rightarrow> req_env \<Rightarrow> app_state \<Rightarrow> client_identity \<Rightarrow> string \<Rightarrow> (app_error + nat \<times> key_response) \<times> app_state" where
  "create_key_handler L E st i g =
     (case key_gate E st i g of
        (Err e, st) \<Rightarrow> (Err e, st)
      | (Ok _, st) \<Rightarrow> ensure_answer L E st g)"

definition rotate_key_handler ::
  "libs \<Rightarrow> req_env \<Rightarrow> app_state \<Rightarrow> client_identity \<Rightarrow> string \<Rightarrow>
     ((app_error + key_response) \<times> app_state) option" where
  "rotate_key_handler L E st i g =
     (case bind_res (require_sign_surface i) (\<lambda>_. validate_id g ''group_id'') of
        Err e \<Rightarrow> Some (Err e, st)
      | Ok _ \<Rightarrow>
          if \<not> is_admin i then
            Some (Err (Forbidden ''key rotation requires an admin client identity''), st)
          else
            (case check_key_rate_limit E st i of
               (Err e, st) \<Rightarrow> Some (Err e, st)
             | (Ok _, st) \<Rightarrow>
                 (case kg_rotate L (rq_key E) (rq_join E) (rq_other E) (app_kg st) g of
                    None \<Rightarrow> None
                  | Some (Err e, s) \<Rightarrow> Some (Err (Internal e), st\<lparr>app_kg := s\<rparr>)
                  | Some (Ok spki, s) \<Rightarrow>
                      let s = rq_other E 3 s in
                      Some (case kg_active_key (rq_engine E 0) s g of
                              Err e \<Rightarrow> Err (Internal e)
                            | Ok None \<Rightarrow> Err (Internal ''key vanished after rotate'')
                            | Ok (Some (key_id, _)) \<Rightarrow> Ok (key_response_ready L g spki key_id),
                            st\<lparr>app_kg := s\<rparr>))))"

end
