(* ===== verification/Sign_Properties.thy ===== *)
theory Sign_Properties
  imports Handlers_Sign
begin

text \<open>
  What \<open>/sign\<close> and the key endpoints do: the effect of \<open>sign_blocking\<close> on the ledger on every path, that
  issuance stays within the ceilings, that no request generates a key itself, and what the key
  endpoints answer.
\<close>

subsection \<open>Loading a key\<close>

lemma load_existing:
  assumes "active_pub d g \<noteq> None"
  shows "load_key L eng d k g auto \<noteq> Ok None"
proof -
  from assms obtain r where "active_row d g = Some r" by auto
  then show ?thesis
    by (auto simp: load_key_def active_key_def run_stmt_def bind_res_Ok_iff split: option.splits)
qed

text \<open>The state afterwards: the one before, or what a creation leaves some time later.\<close>

lemma load_and_sign_cases:
  assumes "load_and_sign L E st req bl = (r, st')"
  obtains (loaded) "st' = st"
  | (created) k d where "active_pub (app_db st) (sr_group_id req) = None"
      and "create_key L (rq_key E) (app_db (interfere E 8 st)) (app_kek st) (sr_group_id req)
        (app_key_bits st) = (k, d)"
      and "st' = set_db d (interfere E 8 st)"
proof (cases "load_key L (rq_engine E 6) (app_db st) (app_kek st) (sr_group_id req) (auto_create_keys st) = Ok None")
  case True
  then have "active_pub (app_db st) (sr_group_id req) = None"
    using load_existing by blast
  with True assms created show thesis
    by (auto simp: load_and_sign_def get_or_create_key_def Let_def split: prod.splits)
next
  case False
  with assms loaded show thesis
    by (auto simp: load_and_sign_def get_or_create_key_def Let_def split: sum.splits option.splits)
qed

lemma load_and_sign_limiter:
  "load_and_sign L E st req bl = (r, st') \<Longrightarrow> app_rate_limiter st' = app_rate_limiter st"
  by (erule load_and_sign_cases) simp_all

lemma load_and_sign_existing:
  assumes "has_key (app_kg st) (sr_group_id req)"
  shows "snd (load_and_sign L E st req bl) = st"
    and "load_and_sign L E st req bl = load_and_sign L (E\<lparr>rq_key := K\<rparr>) st req bl"
proof -
  have "load_key L (rq_engine E 6) (app_db st) (app_kek st) (sr_group_id req) (auto_create_keys st) \<noteq> Ok None"
    using assms by (intro load_existing) (simp add: has_key_def)
  then show "snd (load_and_sign L E st req bl) = st"
    and "load_and_sign L E st req bl = load_and_sign L (E\<lparr>rq_key := K\<rparr>) st req bl"
    by (auto simp: load_and_sign_def get_or_create_key_def Let_def split: sum.splits option.splits)
qed

subsection \<open>The blocking part of /sign\<close>

abbreviation req_tuple :: "sign_request \<Rightarrow> string \<times> string \<times> string" where
  "req_tuple req \<equiv> (sr_group_id req, sr_participant_id req, sr_version_id req)"

text \<open>
  Two databases with the same issuance table. The other tables may change while \<open>/sign\<close> runs; requests
  that change the issuance table meanwhile are the subject of \<open>Issuance_Concurrency\<close>.
\<close>

abbreviation same_rows :: "app_state \<Rightarrow> app_state \<Rightarrow> bool" where
  "same_rows st st' \<equiv> same_issuances (app_kg st) (app_kg st')"

lemma same_rows_trans: "same_rows st1 st2 \<Longrightarrow> same_rows st2 st3 \<Longrightarrow> same_rows st1 st3"
  by (rule si.chain)

lemma same_rows_interfere: "env_within same_issuances E \<Longrightarrow> same_rows st st' \<Longrightarrow> same_rows st (interfere E i st')"
  by (auto simp: env_within_def intro: si.chain)

lemma same_rows_set: "same_rows st st' \<Longrightarrow> same_rows (set_db d st) (set_db d st')"
  by (simp add: same_issuances_def)

lemma same_rows_facts:
  assumes "same_rows st st'"
  shows "issuances (app_db st') = issuances (app_db st)" and "slot (app_db st') = slot (app_db st)"
    and "issuance_inv (app_db st') = issuance_inv (app_db st)"
    and "issuance_exists (app_db st') = issuance_exists (app_db st)"
  using assms by (auto simp: same_issuances_def slot_def issuance_inv_def issuance_exists_def fun_eq_iff)

lemma rl_check_same:
  "same_rows st st1 \<Longrightarrow> same_rows st st2 \<Longrightarrow>
     rl_check rl engs clk (app_db st1) (app_db st2) p = rl_check rl engs clk (app_db st) (app_db st) p"
  by (simp add: rl_check_def count_global_since_def count_participant_since_def rows_since_def same_issuances_def Let_def
      cong: if_cong)

lemma load_and_sign_same:
  assumes "env_within same_issuances E" and "load_and_sign L E st req bl = (r, st')"
  shows "same_rows st st'"
  using assms(2)
proof (cases rule: load_and_sign_cases)
  case (created k d)
  have "same_rows st (interfere E 8 st)"
    by (rule same_rows_interfere [OF assms(1) si.stay])
  with created(3) create_key_frame(1,2) [OF created(2)] show ?thesis
    by (simp add: same_issuances_def)
qed (simp add: si.stay)

text \<open>The call up to the decision of the limiter and the reservation.\<close>

abbreviation sign_allowed :: "req_env \<Rightarrow> app_state \<Rightarrow> sign_request \<Rightarrow> bool" where
  "sign_allowed E st req \<equiv>
     rl_check (app_rate_limiter st) (\<lambda>i. rq_engine E (3 + i)) (rq_clock E 0) (app_db st) (app_db st)
       (sr_participant_id req) = Ok Allow"

abbreviation sign_reserve :: "req_env \<Rightarrow> app_state \<Rightarrow> sign_request \<Rightarrow> (string + reservation) \<times> db" where
  "sign_reserve E st req \<equiv>
     reserve_issuance (rq_engine E 5) (rq_clock E 1) (app_db st) (sr_group_id req)
       (sr_participant_id req) (sr_version_id req)"

lemma sign_blocking_denied:
  assumes "env_within same_issuances E" and "\<not> sign_allowed E st req"
    and "sign_blocking L E st req bl = (res, st')"
  shows "st' = interfere E 4 st \<and> (\<exists>e. res = Err e \<and> (e = RateLimited \<or> (\<exists>m. e = Internal m)))"
  using assms(2,3) unfolding sign_blocking_def Let_def rl_check_same [OF si.stay same_rows_interfere [OF assms(1) si.stay]]
  by (auto split: sum.splits decision.splits)

lemma sign_blocking_allowed:
  fixes E st
  defines "st2 \<equiv> interfere E 5 (interfere E 4 st)"
  assumes "env_within same_issuances E" and "sign_allowed E st req"
  shows "sign_blocking L E st req bl =
    (case sign_reserve E st2 req of
       (Err e, d) \<Rightarrow> (Err (Internal e), set_db d st2)
     | (Ok reservation.AlreadyIssued, d) \<Rightarrow> (Err app_error.AlreadyIssued, set_db d st2)
     | (Ok (Reserved i), d) \<Rightarrow>
         (case load_and_sign L E (interfere E 6 (set_db d st2)) req bl of
            (Ok sig, st3) \<Rightarrow> (Ok \<lparr>blind_signature = b64_encode L sig\<rparr>, st3)
          | (Err e, st3) \<Rightarrow> (Err e, roll_back E (interfere E 7 st3) i)))"
  unfolding sign_blocking_def st2_def Let_def rl_check_same [OF si.stay same_rows_interfere [OF assms(2) si.stay]]
    assms(3) by simp

lemma sign_blocking_unreserved:
  assumes "same_rows st st2" and "sign_reserve E st2 req = (r, d)" and "\<nexists>i. r = Ok (Reserved i)"
  shows "same_rows st (set_db d st2)"
  using assms(1) reserve_refused [OF assms(2,3)] by (simp add: same_issuances_def)

text \<open>The three ways the call can go, while the issuance table is left alone by everyone else.\<close>

lemma sign_blocking_cases:
  assumes "env_within same_issuances E" and "sign_blocking L E st req bl = (res, st')"
  obtains (refused) e where "res = Err e" and "same_rows st st'"
      and "e \<in> {RateLimited, app_error.AlreadyIssued} \<or> (\<exists>m. e = Internal m)"
  | (issued) i d sig st1 st2 where
      "sign_allowed E st req"
      and "same_rows st st1"
      and "sign_reserve E st1 req = (Ok (Reserved i), d)"
      and "same_rows (set_db d st1) st2"
      and "load_and_sign L E st2 req bl = (Ok sig, st')"
      and "res = Ok \<lparr>blind_signature = b64_encode L sig\<rparr>"
  | (rolled_back) i d e st1 st2 where
      "sign_allowed E st req"
      and "same_rows st st1"
      and "sign_reserve E st1 req = (Ok (Reserved i), d)"
      and "same_rows (set_db d st1) st2"
      and "res = Err e" and "st' = roll_back E st2 i"
proof (cases "sign_allowed E st req")
  case False
  from sign_blocking_denied [OF assms(1) this assms(2)] show thesis
    using refused same_rows_interfere [OF assms(1) si.stay] by blast
next
  case True
  define st2 where "st2 = interfere E 5 (interfere E 4 st)"
  note step = assms(2) [unfolded sign_blocking_allowed [OF assms(1) True], folded st2_def]
  have same: "same_rows st st2"
    unfolding st2_def by (intro same_rows_interfere [OF assms(1)] si.stay)
  obtain r d where r: "sign_reserve E st2 req = (r, d)" (is "?r = _")
    by (cases ?r)
  show thesis
  proof (cases "\<exists>i. r = Ok (Reserved i)")
    case False
    with step r have "st' = set_db d st2 \<and> (res = Err app_error.AlreadyIssued \<or> (\<exists>m. res = Err (Internal m)))"
      by (auto split: sum.splits reservation.splits)
    with sign_blocking_unreserved [OF same r False] show thesis
      using refused by blast
  next
    case R: True
    then obtain i where i: "r = Ok (Reserved i)" by blast
    let ?st3 = "interfere E 6 (set_db d st2)"
    have same3: "same_rows (set_db d st2) ?st3"
      by (intro same_rows_interfere [OF assms(1)] si.stay)
    obtain ls st4 where ls: "load_and_sign L E ?st3 req bl = (ls, st4)" (is "?l = _")
      by (cases ?l)
    have same4: "same_rows (set_db d st2) (interfere E 7 st4)"
      using same_rows_interfere [OF assms(1) same_rows_trans [OF same3 load_and_sign_same [OF assms(1) ls]]] .
    note reserved = True same r [unfolded i]
    show thesis
    proof (cases ls)
      case (Inl e)
      with step r i ls show thesis by (intro rolled_back [OF reserved same4, of e]) simp_all
    next
      case (Inr sig)
      with step r i ls show thesis by (intro issued [OF reserved same3, of sig]) simp_all
    qed
  qed
qed

lemma reserved_slot:
  assumes "issuance_inv (app_db st)" and "same_rows st st1"
    and "reserve_issuance eng clk (app_db st1) g p v = (Ok (Reserved i), d)"
  shows "slot d = (slot (app_db st))(i \<mapsto> (g, p, v))" and "slot (app_db st) i = None"
    and "(g, p, v) \<notin> ran (slot (app_db st))" and "issuance_inv d"
proof -
  note same = same_rows_facts [OF assms(2)]
  have inv: "issuance_inv (app_db st1)"
    using assms(1) same by simp
  show "slot d = (slot (app_db st))(i \<mapsto> (g, p, v))"
    using slot_reserve [OF inv assms(3)] same by simp
  show "slot (app_db st) i = None" "(g, p, v) \<notin> ran (slot (app_db st))"
    using assms(3) slot_above [OF inv] issuance_exists_slot [OF inv] same by (auto simp: reserve_Reserved_iff)
  show "issuance_inv d"
    using assms(3) inv by (rule reserve_inv [rotated])
qed

lemma sign_blocking_Ok:
  assumes "env_within same_issuances E" and "issuance_inv (app_db st)"
    and "sign_blocking L E st req bl = (Ok resp, st')"
  shows "req_tuple req \<notin> ran (slot (app_db st)) \<and>
    (\<exists>i. slot (app_db st) i = None \<and> slot (app_db st') = (slot (app_db st))(i \<mapsto> req_tuple req))"
  using assms(1,3)
proof (cases rule: sign_blocking_cases)
  case (issued i d sig st1 st2)
  have "slot (app_db st') = slot d"
    using same_rows_facts(2) [OF load_and_sign_same [OF assms(1) issued(5)]] same_rows_facts(2) [OF issued(4)] by simp
  with reserved_slot [OF assms(2) issued(2,3)] show ?thesis by metis
qed auto

text \<open>An error leaves no row behind, unless the statement that takes the request's own row back fails.\<close>

lemma sign_blocking_Err:
  assumes "env_within same_issuances E" and "issuance_inv (app_db st)" and "sign_blocking L E st req bl = (Err e, st')"
  shows "slot (app_db st') = slot (app_db st) \<or>
    (stmt_fault (rq_engine E 7) 0 \<noteq> None \<and>
     (\<exists>a. slot (app_db st) a = None \<and> slot (app_db st') = (slot (app_db st))(a \<mapsto> req_tuple req)))"
  using assms(1,3)
proof (cases rule: sign_blocking_cases)
  case refused
  then show ?thesis using same_rows_facts(2) by blast
next
  case (rolled_back i d e1 st1 st2)
  note own = reserved_slot [OF assms(2) rolled_back(2,3)] and st2 = same_rows_facts(2) [OF rolled_back(4)]
  show ?thesis
  proof (cases "stmt_fault (rq_engine E 7) 0")
    case None
    then have "delete_issuance (rq_engine E 7) (app_db st2) i = (Ok (), app_db st')"
      using rolled_back(6) by (simp add: roll_back_def delete_issuance_def run_stmt_def)
    with slot_delete own st2 show ?thesis
      by (fastforce simp: fun_eq_iff)
  next
    case (Some m)
    then have "app_db st' = app_db st2"
      using rolled_back(6) by (simp add: roll_back_def delete_issuance_def run_stmt_def)
    with Some own st2 show ?thesis
      by auto
  qed
qed auto

text \<open>Once issued, never again: whatever the ledger holds is refused and the table stays as it is.\<close>

lemma sign_blocking_held:
  assumes "env_within same_issuances E" and "issuance_inv (app_db st)" and "req_tuple req \<in> ran (slot (app_db st))"
    and "sign_blocking L E st req bl = (res, st')"
  shows "same_rows st st' \<and> (\<exists>e. res = Err e)"
  using assms(1,4)
proof (cases rule: sign_blocking_cases)
  case (issued i d sig st1 st2)
  with reserved_slot(3) [OF assms(2) issued(2,3)] assms(3) show ?thesis by simp
next
  case (rolled_back i d e st1 st2)
  with reserved_slot(3) [OF assms(2) rolled_back(2,3)] assms(3) show ?thesis by simp
qed blast

lemma sign_blocking_held_state:
  assumes "env_within same_issuances E" and "issuance_inv (app_db st)" and "req_tuple req \<in> ran (slot (app_db st))"
    and "sign_blocking L E st req bl = (res, st')"
  shows "st' = interfere E 4 st \<or> st' = interfere E 5 (interfere E 4 st)"
proof (cases "sign_allowed E st req")
  case False
  from sign_blocking_denied [OF assms(1) this assms(4)] show ?thesis by blast
next
  case True
  let ?st2 = "interfere E 5 (interfere E 4 st)"
  have same: "same_rows st ?st2"
    by (intro same_rows_interfere [OF assms(1)] si.stay)
  obtain r d where r: "sign_reserve E ?st2 req = (r, d)" (is "?r = _")
    by (cases ?r)
  have none: "\<nexists>i. r = Ok (Reserved i)"
    using reserved_slot(3) [OF assms(2) same] r assms(3) by blast
  then have "st' = set_db d ?st2"
    using assms(4) [unfolded sign_blocking_allowed [OF assms(1) True]] r by (auto split: sum.splits reservation.splits)
  then have "st' = ?st2"
    unfolding reserve_refused [OF r none] set_db_same .
  then show ?thesis ..
qed

lemma delete_db_inv: "\<lbrakk> db_inv d; delete_issuance eng d i = (r, d') \<rbrakk> \<Longrightarrow> db_inv d'"
  unfolding db_inv_def using delete_inv [of d eng i r d'] delete_frame(6-8) [of eng d i r d'] by simp

lemma roll_back_inv: "db_inv (app_db st) \<Longrightarrow> db_inv (app_db (roll_back E st i))"
  using delete_db_inv [OF _ prod.collapse [symmetric]] by (simp add: roll_back_def)

lemma reserve_db_inv:
  "\<lbrakk> db_inv d; reserve_issuance eng clk d g p v = (r, d') \<rbrakk> \<Longrightarrow> db_inv d'"
  unfolding db_inv_def using reserve_inv [of d eng clk g p v r d'] reserve_frame(5-7) [of eng clk d g p v r d']
  by simp

text \<open>A proper request is served: with room under both ceilings and a usable key it is signed.\<close>

lemma sign_blocking_served:
  assumes "env_within (\<lambda>s s'. same_issuances s s' \<and>
      active_row (kg_db s') (sr_group_id req) = active_row (kg_db s) (sr_group_id req)) E"
    and "faultless E" and "issuance_inv (app_db st)"
    and "issuances_seq (app_db st) < i64_max"
    and "rl_check (app_rate_limiter st) (\<lambda>i. rq_engine E (3 + i)) (rq_clock E 0) (app_db st) (app_db st)
        (sr_participant_id req) = Ok Allow"
    and "req_tuple req \<notin> ran (slot (app_db st))"
    and row: "active_row (app_db st) (sr_group_id req) = Some r"
    and "open_sealed L (app_kek st) (sr_group_id req) (gk_key_id r) (gk_sealed_pkcs8 r) = Ok pkcs8"
    and "blind_sign L pkcs8 (sr_version_id req) bl = Ok sig"
  shows "fst (sign_blocking L E st req bl) = Ok \<lparr>blind_signature = b64_encode L sig\<rparr>"
proof -
  let ?st2 = "interfere E 5 (interfere E 4 st)"
  have within: "env_within same_issuances E"
    and keeps: "\<And>i s. active_row (kg_db (rq_other E i s)) (sr_group_id req) = active_row (kg_db s) (sr_group_id req)"
    using assms(1) by (auto simp: env_within_def)
  have same: "same_rows st (interfere E 4 st)" "same_rows st ?st2"
    by (intro same_rows_interfere [OF within] si.stay)+
  obtain i d where res: "reserve_issuance (rq_engine E 5) (rq_clock E 1) (app_db ?st2) (sr_group_id req)
      (sr_participant_id req) (sr_version_id req) = (Ok (Reserved i), d)"
    using assms(2,4,6) issuance_exists_slot [OF assms(3)] same_rows_facts(4) [OF same(2)] same(2)
    by (auto simp: reserve_Reserved_iff faultless_def same_issuances_def)
  have "active_row d (sr_group_id req) = active_row (app_db ?st2) (sr_group_id req)"
    using reserve_frame(1) [OF res] by (simp add: active_row_def)
  then have "active_row d (sr_group_id req) = Some r"
    using row by (simp add: keeps)
  then have "active_row (app_db (interfere E 6 (set_db d ?st2))) (sr_group_id req) = Some r"
    by (simp add: keeps)
  then have "fst (load_and_sign L E (interfere E 6 (set_db d ?st2)) req bl) = Ok sig"
    using assms(2,8,9) by (simp add: load_and_sign_def get_or_create_key_def load_key_def active_key_def run_stmt_None
        faultless_def sign_loaded_def Let_def)
  then show ?thesis
    using res assms(5) rl_check_same [OF si.stay same(1)]
    by (cases "load_and_sign L E (interfere E 6 (set_db d ?st2)) req bl") (simp add: sign_blocking_def Let_def)
qed

subsection \<open>Issuance stays within the ceilings\<close>

text \<open>
  One call after another, each undisturbed: a call at time \<open>now\<close> has read the clock for its rate check
  \<open>delay\<close> seconds earlier.
\<close>

record sign_call =
  sc_env :: req_env
  sc_delay :: nat
  sc_req :: sign_request
  sc_blinded :: bytes

definition call_env :: "sign_call \<Rightarrow> int \<Rightarrow> req_env" where
  "call_env c now = (sc_env c)\<lparr>rq_other := (\<lambda>_ s. s), rq_wakes := [],
     rq_clock := (\<lambda>i. if i = 0 then now - int (sc_delay c) else now)\<rparr>"

definition serve_sign :: "libs \<Rightarrow> sign_call \<Rightarrow> int \<Rightarrow> app_state \<Rightarrow> app_state" where
  "serve_sign L c now st = snd (sign_blocking L (call_env c now) st (sc_req c) (sc_blinded c))"

fun issue_times :: "app_state \<Rightarrow> ceiling \<Rightarrow> int list" where
  "issue_times st Everyone = map is_issued_at (issuances (app_db st))"
| "issue_times st (Identity p) =
     map is_issued_at (filter (\<lambda>r. is_participant_id r = p) (issuances (app_db st)))"

fun issue_limit :: "rate_limiter \<Rightarrow> ceiling \<Rightarrow> nat" where
  "issue_limit rl Everyone = unat (global_max rl)"
| "issue_limit rl (Identity _) = unat (participant_max rl)"

definition issue_past :: "rate_limiter \<Rightarrow> app_state \<Rightarrow> int \<Rightarrow> bool" where
  "issue_past rl st m \<longleftrightarrow> app_rate_limiter st = rl \<and> uint (window_secs rl) < 2 ^ 63 \<and>
     (\<forall>r \<in> set (issuances (app_db st)). is_issued_at r \<le> m)"

definition clock_in_range :: "int \<Rightarrow> bool" where
  "clock_in_range now \<longleftrightarrow> 0 \<le> now \<and> now \<le> i64_max"

lemma call_alone: "env_within same_issuances (call_env c now)"
  by (simp add: env_within_def call_env_def same_issuances_def)

lemma call_clock [simp]:
  "rq_clock (call_env c now) 0 = now - int (sc_delay c)" "rq_clock (call_env c now) (Suc 0) = now"
  by (simp_all add: call_env_def)

text \<open>The rows a call leaves: those before, less some, or with one more when the check allowed it.\<close>

lemma serve_sign_rows:
  fixes L c now st
  defines "E \<equiv> call_env c now" and "d \<equiv> app_db st" and "d' \<equiv> app_db (serve_sign L c now st)"
  obtains (same) "issuances d' = issuances d"
  | (more) i row where "rl_check (app_rate_limiter st) (\<lambda>i. rq_engine E (3 + i)) (rq_clock E 0) d d
        (sr_participant_id (sc_req c)) = Ok Allow"
      and "is_participant_id row = sr_participant_id (sc_req c)" and "is_issued_at row = now_secs now"
      and "issuances d' = issuances d @ [row] \<or>
        issuances d' = filter (\<lambda>r. is_id r \<noteq> i) (issuances d @ [row])"
proof -
  obtain res st' where sb: "sign_blocking L E st (sc_req c) (sc_blinded c) = (res, st')"
    by (cases "sign_blocking L E st (sc_req c) (sc_blinded c)")
  then have d': "d' = app_db st'"
    by (simp add: d'_def serve_sign_def E_def)
  have alone: "env_within same_issuances E"
    unfolding E_def by (rule call_alone)
  then show thesis
    using sb
  proof (cases rule: sign_blocking_cases)
    case refused
    then show thesis by (intro same) (simp add: d' d_def same_issuances_def)
  next
    case (issued i d1 sig st1 st2)
    have "issuances d' = issuances d1"
      using same_rows_facts(1) [OF load_and_sign_same [OF alone issued(5)]] same_rows_facts(1) [OF issued(4)] by (simp add: d')
    with issued(1,3) same_rows_facts(1) [OF issued(2)] show thesis
      by (intro more) (auto simp: reserve_Reserved_iff d_def E_def)
  next
    case (rolled_back i d1 e st1 st2)
    have rows: "issuances (app_db st2) = issuances d1"
      using same_rows_facts(1) [OF rolled_back(4)] by simp
    have "issuances d' = issuances d1 \<or> issuances d' = filter (\<lambda>r. is_id r \<noteq> i) (issuances d1)"
      unfolding d' rolled_back(6) by (auto simp: roll_back_def delete_issuance_def rows split: sum.splits)
    with rolled_back(1,3) same_rows_facts(1) [OF rolled_back(2)] show thesis
      by (intro more) (auto simp: reserve_Reserved_iff d_def E_def)
  qed
qed

lemma sign_blocking_limiter: "app_rate_limiter (snd (sign_blocking L E st req bl)) = app_rate_limiter st"
  by (auto simp: sign_blocking_def roll_back_def Let_def dest: load_and_sign_limiter
      split: sum.split prod.split decision.split reservation.split)

lemma serve_sign_limiter: "app_rate_limiter (serve_sign L c now st) = app_rate_limiter st"
  unfolding serve_sign_def by (rule sign_blocking_limiter)

lemma mset_map_filter_le: "mset (map f (filter P xs)) \<subseteq># mset (map f xs)"
  by (simp add: image_mset_subseteq_mono)

text \<open>An allowed check leaves room in the window that ends at the reservation.\<close>

lemma window_room:
  assumes "issue_past rl st m" and "clock_in_range now"
    and "rl_check rl engs (now - int delay) (app_db st) (app_db st) p = Ok Allow"
  shows "in_window (uint (window_secs rl) + 1) now (issue_times st Everyone) < issue_limit rl Everyone"
    and "in_window (uint (window_secs rl) + 1) now (issue_times st (Identity p)) < issue_limit rl (Identity p)"
proof -
  let ?w = "uint (window_secs rl)" and ?c = "now - int delay"
  have since: "window_start (window_secs rl) (now_secs ?c) = now_secs ?c - ?w"
    using assms(1) by (simp add: issue_past_def window_start_exact)
  have "now_secs ?c \<le> now"
    using assms(2) by (auto simp: now_secs_def clock_in_range_def)
  then have late: "now_secs ?c - ?w \<le> t" if "now - (?w + 1) < t" for t
    using that by simp
  have le: "in_window (?w + 1) now (map is_issued_at rows) \<le>
      length (filter (\<lambda>r. now_secs ?c - ?w \<le> is_issued_at r) rows)" for rows
    unfolding in_window_def by (induction rows) (auto dest: late)
  note room = rl_check_Allow [OF assms(3), unfolded since rows_since_def]
  show "in_window (?w + 1) now (issue_times st Everyone) < issue_limit rl Everyone"
    using le [of "issuances (app_db st)"] room(1) by simp
  show "in_window (?w + 1) now (issue_times st (Identity p)) < issue_limit rl (Identity p)"
    using le [of "filter (\<lambda>r. is_participant_id r = p) (issuances (app_db st))"] room(2)
    by (simp add: conj_commute)
qed

lemma serve_sign_past:
  assumes "issue_past rl s m" and "m \<le> now" and "clock_in_range now"
  shows "issue_past rl (serve_sign L r now s) now"
proof -
  have "\<forall>row \<in> set (issuances (app_db (serve_sign L r now s))). is_issued_at row \<le> now"
    using serve_sign_rows [of L r now s]
  proof cases
    case same
    with assms show ?thesis by (auto simp: issue_past_def)
  next
    case (more i row)
    then have "set (issuances (app_db (serve_sign L r now s))) \<subseteq> insert row (set (issuances (app_db s)))"
      by (auto split: if_splits)
    moreover have "is_issued_at row \<le> now"
      using more(3) assms(3) by (auto simp: now_secs_def clock_in_range_def)
    ultimately show ?thesis using assms by (fastforce simp: issue_past_def)
  qed
  with assms show ?thesis by (simp add: issue_past_def serve_sign_limiter)
qed

lemma serve_sign_times:
  assumes "issue_past rl s m" and "m \<le> now" and "clock_in_range now"
  shows "mset (issue_times (serve_sign L r now s) k) \<subseteq># mset (issue_times s k) \<or>
    mset (issue_times (serve_sign L r now s) k) \<subseteq># add_mset now (mset (issue_times s k)) \<and>
    in_window (uint (window_secs rl) + 1) now (issue_times s k) < issue_limit rl k"
proof -
  show ?thesis
    using serve_sign_rows [of L r now s]
  proof cases
    case same
    then show ?thesis by (cases k) auto
  next
    case (more i row)
    have at: "is_issued_at row = now"
      using more(3) assms(3) by (auto simp: now_secs_def clock_in_range_def)
    have rows: "mset (issuances (app_db (serve_sign L r now s))) \<subseteq># mset (issuances (app_db s) @ [row])"
      using more(4) by (metis mset_filter multiset_filter_subset subset_mset.order_refl)
    have allow: "rl_check rl (\<lambda>i. rq_engine (call_env r now) (3 + i)) (now - int (sc_delay r)) (app_db s)
        (app_db s) (sr_participant_id (sc_req r)) = Ok Allow"
      using more(1) assms(1) by (simp add: issue_past_def)
    note room = window_room [OF assms(1,3) allow]
    have sub: "mset (map is_issued_at (filter P (issuances (app_db (serve_sign L r now s))))) \<subseteq>#
        mset (map is_issued_at (filter P (issuances (app_db s) @ [row])))" for P
      unfolding mset_map mset_filter by (intro image_mset_subseteq_mono multiset_filter_mono rows)
    show ?thesis
    proof (cases k)
      case Everyone
      with sub [of "\<lambda>_. True"] room(1) at show ?thesis by simp
    next
      case (Identity p)
      with sub [of "\<lambda>x. is_participant_id x = p"] room(2) at more(2) show ?thesis
        by (cases "p = sr_participant_id (sc_req r)") auto
    qed
  qed
qed
interpretation sg: windowed_admission "issue_past rl" issue_times "issue_limit rl"
  "uint (window_secs rl) + 1" clock_in_range "serve_sign L"
  for rl :: rate_limiter and L :: libs
proof (unfold_locales, goal_cases)
  case (1 s m t k)
  then show ?case by (cases k) (auto simp: issue_past_def)
next
  case 2
  then show ?case by (rule serve_sign_past)
next
  case 3
  then show ?case by (rule serve_sign_times)
qed

subsection \<open>No request generates a key\<close>

definition req_rely :: "req_env \<Rightarrow> bool" where
  "req_rely E \<longleftrightarrow> (\<forall>i. rely (rq_other E i)) \<and> wakes_ok (rq_wakes E)"

text \<open>Changing other tables does not concern the key-generation service.\<close>

lemma keys_inv_tables:
  "\<lbrakk> group_keys d' = group_keys d; group_keys_seq d' = group_keys_seq d \<rbrakk> \<Longrightarrow> keys_inv d' = keys_inv d"
  by (simp add: keys_inv_def)

lemma other_tables_evolves:
  assumes "good s" and "group_keys d = group_keys (kg_db s)"
    and "group_keys_seq d = group_keys_seq (kg_db s)"
  shows "evolves s (s\<lparr>kg_db := d\<rparr>)"
  using assms keys_inv_tables [OF assms(2,3)] active_pub_cong [OF assms(2)]
  by (auto simp: evolves_def good_def kg_inv_def channels_fresh_def live_worker_def has_key_def
      simp del: active_pub_None)

lemma sign_ready_key:
  assumes "good (app_kg st)" and "req_rely E" and "sign_ready E st g = Some (Ok (), st1)"
  shows "good (app_kg st1) \<and> has_key (app_kg st1) g"
proof (cases "auto_create_keys st")
  case True
  with assms(3) obtain r s where w': "wait_ready (rq_engine E) (rq_other E) (rq_wakes E) (app_kg st) g =
      Some (r, s)" and "st1 = st\<lparr>app_kg := s\<rparr>" and "(case r of Err e \<Rightarrow> Err (Internal e)
        | Ok Ready \<Rightarrow> Ok () | Ok Pending \<Rightarrow> Err KeyPending | Ok (Failed e) \<Rightarrow> Err (Internal e)) = Ok ()"
    by (auto simp: sign_ready_def)
  moreover from this(3) have "r = Ok Ready"
    by (auto split: sum.splits keygen_status.splits)
  ultimately have w: "wait_ready (rq_engine E) (rq_other E) (rq_wakes E) (app_kg st) g =
      Some (Ok Ready, s)" and "st1 = st\<lparr>app_kg := s\<rparr>"
    by simp_all
  moreover have "evolves (app_kg st) s \<and> has_key s g"
    using wait_ready_spec [OF assms(1) _ _ w] assms(2) by (auto simp: req_rely_def dest: evolves_good)
  ultimately show ?thesis by (auto dest: evolves_good)
next
  case False
  with assms(3) have "st1 = st" and "\<exists>k. active_key (rq_engine E 0) (app_db st) g = Ok (Some k)"
    by (auto simp: sign_ready_def kg_active_key_def bind_res_Ok_iff split: sum.splits option.splits)
  with assms(1) show ?thesis by (auto dest: active_key_has_key)
qed

lemma rely_step:
  assumes "good s" and "req_rely E"
  shows "good (rq_other E i s)" and "has_key s g \<Longrightarrow> has_key (rq_other E i s) g"
  using assms by (auto simp: req_rely_def rely_def evolves_def)

lemma sign_blocking_key_independent:
  assumes "good (app_kg st)" and "req_rely E" and "has_key (app_kg st) (sr_group_id req)"
  shows "sign_blocking L E st req bl = sign_blocking L (E\<lparr>rq_key := K\<rparr>) st req bl"
proof -
  let ?st2 = "interfere E 5 (interfere E 4 st)"
  have g2: "good (app_kg ?st2)" and k2: "has_key (app_kg ?st2) (sr_group_id req)"
    by (simp_all add: rely_step [OF _ assms(2)] assms(1,3))
  have "load_and_sign L E (interfere E 6 (set_db d ?st2)) req bl =
      load_and_sign L (E\<lparr>rq_key := K\<rparr>) (interfere E 6 (set_db d ?st2)) req bl"
    if "reserve_issuance (rq_engine E 5) (rq_clock E 1) (app_db ?st2) (sr_group_id req)
        (sr_participant_id req) (sr_version_id req) = (Ok (Reserved i), d)" for i d
  proof (rule load_and_sign_existing(2))
    have "evolves (app_kg ?st2) ((app_kg ?st2)\<lparr>kg_db := d\<rparr>)"
      using reserve_frame(1,2) [OF that] by (intro other_tables_evolves g2) simp_all
    then show "has_key (app_kg (interfere E 6 (set_db d ?st2))) (sr_group_id req)"
      using k2 rely_step [OF _ assms(2)] by (auto simp: set_db_def evolves_def)
  qed
  moreover have "interfere (E\<lparr>rq_key := K\<rparr>) = interfere E" and "roll_back (E\<lparr>rq_key := K\<rparr>) = roll_back E"
    by (simp_all add: interfere_def roll_back_def fun_eq_iff)
  ultimately show ?thesis
    by (simp add: sign_blocking_def Let_def split: sum.split prod.split decision.split reservation.split)
qed

lemma sign_key_independent:
  assumes "good (app_kg st)" and "req_rely E"
  shows "sign L E st i req = sign L (E\<lparr>rq_key := K\<rparr>) st i req"
proof -
  have same: "sign_ready (E\<lparr>rq_key := K\<rparr>) st g = sign_ready E st g" for g
    by (simp add: sign_ready_def)
  have int: "interfere (E\<lparr>rq_key := K\<rparr>) = interfere E"
    by (simp add: interfere_def fun_eq_iff)
  have "sign_blocking L E (interfere E 3 st1) req bl =
      sign_blocking L (E\<lparr>rq_key := K\<rparr>) (interfere E 3 st1) req bl"
    if "sign_ready E st (sr_group_id req) = Some (Ok (), st1)" for st1 bl
    using sign_ready_key [OF assms that] rely_step [OF _ assms(2)] assms(2)
    by (intro sign_blocking_key_independent) auto
  then show ?thesis
    by (auto simp: sign_def same int split: sum.split option.split prod.split)
qed

end
