(* ===== verification/Dedup_Registry.thy ===== *)
theory Dedup_Registry
  imports Db_Ledger
begin

text \<open>
  The contract of the dedup ledger, as the locale \<open>dedup_registry\<close>: a map from entry refs to
  (value, owner, badge type) in which a value has one ref, and which only the recorded owner can give
  up. The operations of \<open>Db_Ledger\<close> implement it; what holds over whole histories of calls is
  proved once in the locale.
\<close>

subsection \<open>Calls and histories\<close>

datatype ('r, 'v, 'o, 'b) dedup_call =
    Register 'r 'v 'o 'b
  | Release 'r 'o
  | Reassign "'r list" 'o 'o

text \<open>The calls by which \<open>owner\<close> gives up the entry \<open>ref\<close>.\<close>

fun gives_up :: "'o \<Rightarrow> 'r \<Rightarrow> ('r, 'v, 'o, 'b) dedup_call \<Rightarrow> bool" where
  "gives_up owner ref (Register _ _ _ _) = False"
| "gives_up owner ref (Release ref' owner') = (ref' = ref \<and> owner' = owner)"
| "gives_up owner ref (Reassign refs from to) = (ref \<in> set refs \<and> from = owner \<and> to \<noteq> owner)"

locale dedup_registry =
  fixes invar :: "'s \<Rightarrow> bool"
    and entries :: "'s \<Rightarrow> 'r \<rightharpoonup> 'v \<times> 'o \<times> 'b"
    and sound :: "'e \<Rightarrow> bool"
    and register :: "'e \<Rightarrow> 's \<Rightarrow> 'r \<Rightarrow> 'v \<Rightarrow> 'o \<Rightarrow> 'b \<Rightarrow> ('err + 'x) \<times> 's"
    and release :: "'e \<Rightarrow> 's \<Rightarrow> 'r \<Rightarrow> 'o \<Rightarrow> ('err + 'y) \<times> 's"
    and reassign :: "'e \<Rightarrow> 's \<Rightarrow> 'r list \<Rightarrow> 'o \<Rightarrow> 'o \<Rightarrow> ('err + 'z) \<times> 's"
    and registered :: "'r \<Rightarrow> 'x" and already_yours :: "'r \<Rightarrow> 'x" and taken :: 'x
  assumes value_unique: "\<lbrakk> invar s; entries s r1 = Some (v, o1, b1); entries s r2 = Some (v, o2, b2) \<rbrakk> \<Longrightarrow>
      r1 = r2"
    and register_effect: "\<lbrakk> invar s; register e s ref v own b = (res, s') \<rbrakk> \<Longrightarrow>
      s' = s \<or> (res = Ok (registered ref) \<and> entries s ref = None \<and>
        (\<forall>r' o' b'. entries s r' \<noteq> Some (v, o', b')) \<and> entries s' = (entries s)(ref \<mapsto> (v, own, b)))"
    and register_answer: "\<lbrakk> invar s; sound e; register e s ref v own b = (Ok x, s');
        entries s r' = Some (v, o', b') \<rbrakk> \<Longrightarrow>
      s' = s \<and> x = (if o' = own then already_yours r' else taken)"
    and release_effect: "\<lbrakk> invar s; sound e; release e s ref own = (res2, s') \<rbrakk> \<Longrightarrow>
      s' = s \<or> ((\<exists>v b. entries s ref = Some (v, own, b)) \<and> entries s' = (entries s)(ref := None))"
    and reassign_effect: "\<lbrakk> invar s; sound e; reassign e s refs frm to = (res3, s') \<rbrakk> \<Longrightarrow>
      s' = s \<or>
      ((\<forall>ref \<in> set refs. \<exists>v o' b. entries s ref = Some (v, o', b) \<and> o' \<in> {frm, to}) \<and>
       entries s' = (\<lambda>ref. if ref \<in> set refs
         then map_option (\<lambda>(v, _, b). (v, to, b)) (entries s ref) else entries s ref))"
    and invar_register: "\<lbrakk> invar s; register e s ref v own b = (res, s') \<rbrakk> \<Longrightarrow> invar s'"
    and invar_release: "\<lbrakk> invar s; release e s ref own = (res2, s') \<rbrakk> \<Longrightarrow> invar s'"
    and invar_reassign: "\<lbrakk> invar s; reassign e s refs frm to = (res3, s') \<rbrakk> \<Longrightarrow> invar s'"
begin

text \<open>No call but the owner's own takes an entry away from it.\<close>

lemma register_keeps:
  assumes "invar s" and "entries s r = Some (v, own, b)"
  shows "entries (snd (register e s ref v' own' b')) r = Some (v, own, b)"
  using assms register_effect [OF assms(1) prod.collapse [symmetric], of e ref v' own' b'] by auto

lemma release_keeps:
  assumes "invar s" and "sound e" and "entries s r = Some (v, own, b)" and "\<not> (ref = r \<and> own' = own)"
  shows "entries (snd (release e s ref own')) r = Some (v, own, b)"
  using assms release_effect [OF assms(1,2) prod.collapse [symmetric], of ref own'] by auto

lemma reassign_keeps:
  assumes "invar s" and "sound e" and "entries s r = Some (v, own, b)"
    and "\<not> (r \<in> set refs \<and> frm = own \<and> to \<noteq> own)"
  shows "entries (snd (reassign e s refs frm to)) r = Some (v, own, b)"
proof (cases "r \<in> set refs")
  case True
  with reassign_effect [OF assms(1,2) prod.collapse [symmetric], of refs frm to] assms(3)
  have "snd (reassign e s refs frm to) = s \<or>
      own \<in> {frm, to} \<and> entries (snd (reassign e s refs frm to)) r = Some (v, to, b)"
    by auto
  with True assms(3,4) show ?thesis by auto
next
  case False
  with reassign_effect [OF assms(1,2) prod.collapse [symmetric], of refs frm to] assms(3)
  show ?thesis by auto
qed

text \<open>Whoever asks, a value has one owner at a time.\<close>

lemma one_owner:
  assumes "invar s" and "entries s r1 = Some (v, o1, b1)" and "entries s r2 = Some (v, o2, b2)"
  shows "o1 = o2"
  using value_unique [OF assms] assms by simp

text \<open>While an entry stands, another owner's registration of the same value is answered with \<open>taken\<close>.\<close>

lemma other_owner_taken:
  assumes "invar s" and "sound e" and "entries s r = Some (v, own, b)" and "own' \<noteq> own"
    and "register e s ref v own' b' = (Ok x, s')"
  shows "x = taken \<and> s' = s"
  using register_answer [OF assms(1,2,5,3)] assms(4) by auto

end

subsection \<open>The tables implement the contract\<close>

abbreviation ledger_env :: "libs \<times> engine \<times> int \<Rightarrow> bool" where
  "ledger_env \<equiv> \<lambda>(L, eng, clk). ct_eq_spec L"

lemma register_present:
  assumes "ledger_inv d" and "ct_eq_spec L" and "ledger d r = Some (v, own, b)"
    and "register_dedup L eng clk d ref v owner badge = (Ok x, d')"
  shows "d' = d \<and> x = (if own = owner then AlreadyYours r else Taken)"
proof -
  obtain row where row: "row_by_value d v = Some row"
    using assms(3) row_by_value_None_iff [OF assms(1), of v] by (cases "row_by_value d v") auto
  then have "ledger d (de_entry_ref row) = Some (v, de_owner_tag row, de_badge_type row)"
    by (rule row_by_value_ledger [OF assms(1)])
  with ledger_value_unique [OF assms(1,3)] assms(3)
  have "de_entry_ref row = r" and "de_owner_tag row = own"
    by auto
  with row assms(2,4) show ?thesis
    by (auto simp: register_dedup_def run_insert_def run_stmt_def bind_res_Ok_iff
        split: option.splits if_splits)
qed

lemma retag_fun:
  "retag (set refs) to m =
     (\<lambda>ref. if ref \<in> set refs then map_option (\<lambda>(v, _, b). (v, to, b)) (m ref) else m ref)"
  by (simp add: retag_def)

lemma register_ledger:
  assumes "ledger_inv d" and "register_dedup L eng clk d ref v own b = (res, d')"
  shows "d' = d \<or> (res = Ok (Registered ref) \<and> ledger d ref = None \<and>
    (\<forall>r' o' b'. ledger d r' \<noteq> Some (v, o', b')) \<and> ledger d' = (ledger d)(ref \<mapsto> (v, own, b)))"
proof (cases "\<exists>r. res = Ok (Registered r)")
  case True
  with assms show ?thesis
    by (auto simp: register_Registered_iff row_by_value_None_iff ledger_register) (simp add: ledger_row)
next
  case False
  with assms(2) show ?thesis by (auto dest: register_other)
qed

lemma release_ledger:
  assumes "ledger_inv d" and "ct_eq_spec L" and "release_dedup L eng d ref own = (res, d')"
  shows "d' = d \<or> ((\<exists>v b. ledger d ref = Some (v, own, b)) \<and> ledger d' = (ledger d)(ref := None))"
  using assms by (cases "res = Ok Released")
    (auto simp: release_Released_iff ledger_row ledger_delete_ref dest: release_other)

lemma reassign_ledger:
  assumes "ct_eq_spec L" and "reassign_dedup L eng d refs frm to = (res, d')"
  shows "d' = d \<or>
    ((\<forall>ref \<in> set refs. \<exists>v o' b. ledger d ref = Some (v, o', b) \<and> o' \<in> {frm, to}) \<and>
     ledger d' = (\<lambda>ref. if ref \<in> set refs
       then map_option (\<lambda>(v, _, b). (v, to, b)) (ledger d ref) else ledger d ref))"
proof (cases "\<exists>n. res = Ok (Reassigned n)")
  case True
  with assms have "ledger d' = retag (set refs) to (ledger d) \<and>
    (\<forall>ref \<in> set refs. owned_by (ledger d) frm ref \<or> owned_by (ledger d) to ref)"
    by (auto simp: reassign_Reassigned_iff dest: reassign_loop_Inr)
  then show ?thesis by (fastforce simp: retag_fun owned_by_def)
next
  case False
  with assms(2) show ?thesis by (auto dest: reassign_other)
qed

interpretation dr: dedup_registry ledger_inv ledger ledger_env
  "\<lambda>(L, eng, clk) d ref v own b. register_dedup L eng clk d ref v own b"
  "\<lambda>(L, eng, clk) d ref own. release_dedup L eng d ref own"
  "\<lambda>(L, eng, clk) d refs frm to. reassign_dedup L eng d refs frm to"
  Registered AlreadyYours Taken
proof (unfold_locales, goal_cases)
  case 1
  then show ?case by (rule ledger_value_unique)
next
  case (2 s e ref v own b res s')
  then show ?case by (cases e) (simp add: register_ledger)
next
  case (3 s e ref v own b x s' r' o' b')
  then show ?case by (cases e) (use register_present in simp)
next
  case (4 s e ref own res2 s')
  then show ?case by (cases e) (simp add: release_ledger)
next
  case (5 s e refs frm to res3 s')
  then show ?case by (cases e) (simp only: prod.case reassign_ledger)
next
  case (6 s e ref v own b res s')
  then show ?case by (cases e) (auto intro: register_inv)
next
  case (7 s e ref own res2 s')
  then show ?case by (cases e) (auto intro: release_inv)
next
  case (8 s e refs frm to res3 s')
  then show ?case by (cases e) (auto intro: reassign_inv)
qed

subsection \<open>Histories of ledger calls\<close>

type_synonym ledger_call = "(bytes, bytes, string, string) dedup_call"

fun exec_call :: "libs \<Rightarrow> engine \<times> int \<Rightarrow> ledger_call \<Rightarrow> db \<Rightarrow> db" where
  "exec_call L (eng, clk) (Register ref v own b) d = snd (register_dedup L eng clk d ref v own b)"
| "exec_call L (eng, clk) (Release ref own) d = snd (release_dedup L eng d ref own)"
| "exec_call L (eng, clk) (Reassign refs frm to) d = snd (reassign_dedup L eng d refs frm to)"

primrec exec_calls :: "libs \<Rightarrow> ((engine \<times> int) \<times> ledger_call) list \<Rightarrow> db \<Rightarrow> db" where
  "exec_calls L [] d = d"
| "exec_calls L (c # cs) d = exec_calls L cs (exec_call L (fst c) (snd c) d)"

lemma exec_call_inv: "ledger_inv d \<Longrightarrow> ledger_inv (exec_call L e c d)"
  by (cases e; cases c)
    (auto intro: register_inv [OF _ prod.collapse [symmetric]]
      release_inv [OF _ prod.collapse [symmetric]] reassign_inv [OF _ prod.collapse [symmetric]])

lemma exec_call_keeps:
  assumes "ledger_inv d" and "ct_eq_spec L" and "ledger d ref = Some (v, own, b)"
    and "\<not> gives_up own ref c"
  shows "ledger (exec_call L e c d) ref = Some (v, own, b)"
proof -
  obtain eng clk where e: "e = (eng, clk)" by (cases e)
  show ?thesis
  proof (cases c)
    case (Register ref' v' own' b')
    then show ?thesis
      using dr.register_keeps [OF assms(1,3), of "(L, eng, clk)" ref' v' own' b'] by (simp add: e)
  next
    case (Release ref' own')
    then show ?thesis
      using dr.release_keeps [of d "(L, eng, clk)" ref v own b ref' own'] assms by (simp add: e)
  next
    case (Reassign refs frm to)
    then show ?thesis
      using dr.reassign_keeps [of d "(L, eng, clk)" ref v own b refs frm to] assms by (simp add: e)
  qed
qed

lemma exec_calls_keeps:
  assumes "ledger_inv d" and "ct_eq_spec L" and "ledger d ref = Some (v, own, b)"
    and "\<forall>c \<in> set cs. \<not> gives_up own ref (snd c)"
  shows "ledger_inv (exec_calls L cs d) \<and> ledger (exec_calls L cs d) ref = Some (v, own, b)"
  using assms
proof (induction cs arbitrary: d)
  case Nil
  then show ?case by simp
next
  case (Cons c cs)
  then show ?case using exec_call_inv exec_call_keeps by simp
qed

end
