(* ===== verification/Handlers_Prf.thy ===== *)
theory Handlers_Prf
  imports App_State Dedup_Registry
begin

text \<open>
  The PRF half of \<open>src/handlers.rs\<close>: \<open>/prf/*\<close> and \<open>/dedup/*\<close>. Every endpoint passes the gate
  \<open>require_prf\<close> first, which the locale \<open>prf_endpoint\<close> states once for all seven.
\<close>

subsection \<open>Limits and guards\<close>

definition MAX_PAIRWISE_INPUT :: nat where "MAX_PAIRWISE_INPUT = 512"
definition MAX_CLIENT_ID_LEN :: nat where "MAX_CLIENT_ID_LEN = 256"
definition MAX_BADGE_TYPE_LEN :: nat where "MAX_BADGE_TYPE_LEN = 64"
definition MAX_OWNER_HANDLE_LEN :: nat where "MAX_OWNER_HANDLE_LEN = 128"
definition ENTRY_REF_LEN :: nat where "ENTRY_REF_LEN = 16"
definition MAX_REASSIGN_REFS :: nat where "MAX_REASSIGN_REFS = 256"

definition prf_forbidden :: app_error where
  "prf_forbidden = Forbidden ''client identity is not authorized for the PRF surface''"

definition require_prf ::
  "req_env \<Rightarrow> app_state \<Rightarrow> client_identity \<Rightarrow> (app_error + prf_state) \<times> app_state" where
  "require_prf E st i =
     (case app_prf st of
        None \<Rightarrow> (Err (Internal ''PRF surface unavailable''), st)
      | Some prf \<Rightarrow>
          if \<not> may_prf i then (Err prf_forbidden, st)
          else if id_name i \<notin> allowed_client_ids prf then (Err prf_forbidden, st)
          else
            (let (dec, rl) = check_at (ps_limiter prf) (rq_lo E) (id_name i) (rq_instant E) (ps_rl prf);
                 prf' = prf\<lparr>ps_rl := rl\<rparr>
             in (case dec of
                   KAllow \<Rightarrow> Ok prf'
                 | KDenyIdentity \<Rightarrow> Err RateLimited
                 | KDenyGlobal \<Rightarrow> Err RateLimited, st\<lparr>app_prf := Some prf'\<rparr>)))"

definition gated ::
  "req_env \<Rightarrow> app_state \<Rightarrow> client_identity \<Rightarrow>
     (prf_state \<Rightarrow> app_state \<Rightarrow> (app_error + 'r) \<times> app_state) \<Rightarrow> (app_error + 'r) \<times> app_state" where
  "gated E st i body =
     (case require_prf E st i of (Err e, st) \<Rightarrow> (Err e, st) | (Ok prf, st) \<Rightarrow> body prf st)"

definition run_db_blocking ::
  "req_env \<Rightarrow> app_state \<Rightarrow> (db \<Rightarrow> (string + 'a) \<times> db) \<Rightarrow> (app_error + 'a) \<times> app_state" where
  "run_db_blocking E st f =
     (let st = interfere E 0 st in
      case rq_join E of
        Some e \<Rightarrow> (Err (Internal (''join error: '' @ e)), st)
      | None \<Rightarrow> let (r, d) = f (app_db st) in (map_err Internal r, set_db d st))"

definition b64url_decode :: "libs \<Rightarrow> string \<Rightarrow> string \<Rightarrow> app_error + bytes" where
  "b64url_decode L v err = ok_or (BadRequest err) (b64url_dec L v)"

definition validate_text :: "string \<Rightarrow> nat \<Rightarrow> string \<Rightarrow> app_error + unit" where
  "validate_text v m err = (if v = [] \<or> m < length v then Err (BadRequest err) else Ok ())"

definition decode_entry_ref :: "libs \<Rightarrow> string \<Rightarrow> app_error + bytes" where
  "decode_entry_ref L v =
     (if v = [] \<or> 24 < length v then Err (BadRequest ''entry_ref length out of range'')
      else
        bind_res (b64url_decode L v ''entry_ref is not valid base64url'') (\<lambda>raw.
        if length raw \<noteq> ENTRY_REF_LEN then Err (BadRequest ''entry_ref has the wrong length'')
        else Ok raw))"

primrec decode_entry_refs :: "libs \<Rightarrow> string list \<Rightarrow> app_error + bytes list" where
  "decode_entry_refs L [] = Ok []"
| "decode_entry_refs L (r # rs) =
     bind_res (decode_entry_ref L r) (\<lambda>b.
     bind_res (decode_entry_refs L rs) (\<lambda>bs. Ok (b # bs)))"

subsection \<open>The PRF endpoints\<close>

definition prf_pairwise ::
  "libs \<Rightarrow> req_env \<Rightarrow> app_state \<Rightarrow> client_identity \<Rightarrow> string \<Rightarrow> (app_error + string) \<times> app_state" where
  "prf_pairwise L E st i input = gated E st i (\<lambda>prf st.
     (if input = [] \<or> MAX_PAIRWISE_INPUT < length input
      then Err (BadRequest ''input length out of range'')
      else ok_or (NotFound ''the pairwise secret has not been imported'')
             (pairwise_hmac L (ps_keys prf) (str_bytes input)), st))"

record evaluate_response =
  er_evaluation_element :: string
  er_proof :: string

definition prf_evaluate ::
  "libs \<Rightarrow> req_env \<Rightarrow> app_state \<Rightarrow> client_identity \<Rightarrow> string \<Rightarrow> (app_error + evaluate_response) \<times> app_state" where
  "prf_evaluate L E st i blinded = gated E st i (\<lambda>prf st.
     (if blinded = [] \<or> 64 < length blinded
      then Err (BadRequest ''blinded_element length out of range'')
      else
        bind_res (b64url_decode L blinded ''blinded_element is not valid base64url'') (\<lambda>raw.
        bind_res (map_err (\<lambda>e. case e of BadElement \<Rightarrow>
                      BadRequest ''blinded_element is not a valid group element'')
                    (evaluate L (rq_voprf E) (ps_keys prf) raw)) (\<lambda>out.
        Ok \<lparr>er_evaluation_element = b64url_encode L (evaluation_element out),
            er_proof = b64url_encode L (proof_bytes out)\<rparr>)), st))"

record public_key_response =
  pk_suite :: string
  pk_public_key :: string

definition prf_public_key ::
  "libs \<Rightarrow> req_env \<Rightarrow> app_state \<Rightarrow> client_identity \<Rightarrow> unit \<Rightarrow> (app_error + public_key_response) \<times> app_state" where
  "prf_public_key L E st i _ = gated E st i (\<lambda>prf st.
     (Ok \<lparr>pk_suite = SUITE, pk_public_key = public_key_b64 L (ps_keys prf)\<rparr>, st))"

record disclose_request =
  dq_entry_ref :: string
  dq_owner_handle :: string
  dq_client_id :: string

definition disclose_validate :: "libs \<Rightarrow> disclose_request \<Rightarrow> app_error + bytes" where
  "disclose_validate L req =
     bind_res (decode_entry_ref L (dq_entry_ref req)) (\<lambda>entry.
     bind_res (validate_text (dq_owner_handle req) MAX_OWNER_HANDLE_LEN ''owner_handle length out of range'') (\<lambda>_.
     bind_res (validate_text (dq_client_id req) MAX_CLIENT_ID_LEN ''client_id length out of range'') (\<lambda>_.
     Ok entry)))"

text \<open>The nullifier; \<open>Ok None\<close> if \<open>disclose\<close> panics and the request gets no answer.\<close>

definition prf_disclose ::
  "libs \<Rightarrow> req_env \<Rightarrow> app_state \<Rightarrow> client_identity \<Rightarrow> disclose_request \<Rightarrow>
     (app_error + string option) \<times> app_state" where
  "prf_disclose L E st i req = gated E st i (\<lambda>prf st.
     case disclose_validate L req of
       Err e \<Rightarrow> (Err e, st)
     | Ok entry \<Rightarrow>
         (case run_db_blocking E st (\<lambda>d. (dedup_entry_by_ref (rq_engine E 0) d entry, d)) of
            (Err e, st) \<Rightarrow> (Err e, st)
          | (Ok None, st) \<Rightarrow> (Err (NotFound ''no such dedup entry''), st)
          | (Ok (Some en), st) \<Rightarrow>
              if \<not> owner_eq L (owner_tag en) (dq_owner_handle req)
              then (Err (Forbidden ''owner_handle does not match the entry owner''), st)
              else (Ok (disclose L (ps_keys prf) (entry_value en) (dq_client_id req)), st)))"

subsection \<open>The ledger endpoints\<close>

record register_request =
  rg_value :: string
  rg_owner_handle :: string
  rg_badge_type :: string

record register_response =
  rr_status :: string
  rr_entry_ref :: string

definition register_validate :: "libs \<Rightarrow> register_request \<Rightarrow> app_error + bytes" where
  "register_validate L req =
     (if rg_value req = [] \<or> 96 < length (rg_value req) then Err (BadRequest ''value length out of range'')
      else
        bind_res (b64url_decode L (rg_value req) ''value is not valid base64url'') (\<lambda>v.
        if length v \<noteq> DEDUP_VALUE_LEN then Err (BadRequest ''value has the wrong length'')
        else
          bind_res (validate_text (rg_owner_handle req) MAX_OWNER_HANDLE_LEN
                      ''owner_handle length out of range'') (\<lambda>_.
          bind_res (validate_text (rg_badge_type req) MAX_BADGE_TYPE_LEN
                      ''badge_type length out of range'') (\<lambda>_.
          Ok v))))"

definition dedup_register ::
  "libs \<Rightarrow> req_env \<Rightarrow> app_state \<Rightarrow> client_identity \<Rightarrow> register_request \<Rightarrow>
     (app_error + register_response) \<times> app_state" where
  "dedup_register L E st i req = gated E st i (\<lambda>_ st.
     case register_validate L req of
       Err e \<Rightarrow> (Err e, st)
     | Ok v \<Rightarrow>
         (case rq_rng E of
            Err e \<Rightarrow> (Err (Internal (''OS RNG failure: '' @ e)), st)
          | Ok ref \<Rightarrow>
              (case run_db_blocking E st (\<lambda>d. register_dedup L (rq_engine E 0) (rq_clock E 0) d ref v
                        (rg_owner_handle req) (rg_badge_type req)) of
                 (Err e, st) \<Rightarrow> (Err e, st)
               | (Ok (Registered r), st) \<Rightarrow>
                   (Ok \<lparr>rr_status = ''registered'', rr_entry_ref = b64url_encode L r\<rparr>, st)
               | (Ok (AlreadyYours r), st) \<Rightarrow>
                   (Ok \<lparr>rr_status = ''already_yours'', rr_entry_ref = b64url_encode L r\<rparr>, st)
               | (Ok Taken, st) \<Rightarrow> (Err DedupTaken, st))))"

record release_request =
  rl_entry_ref :: string
  rl_owner_handle :: string

definition release_validate :: "libs \<Rightarrow> release_request \<Rightarrow> app_error + bytes" where
  "release_validate L req =
     bind_res (decode_entry_ref L (rl_entry_ref req)) (\<lambda>ref.
     bind_res (validate_text (rl_owner_handle req) MAX_OWNER_HANDLE_LEN
                 ''owner_handle length out of range'') (\<lambda>_.
     Ok ref))"

definition dedup_release_handler ::
  "libs \<Rightarrow> req_env \<Rightarrow> app_state \<Rightarrow> client_identity \<Rightarrow> release_request \<Rightarrow> (app_error + string) \<times> app_state" where
  "dedup_release_handler L E st i req = gated E st i (\<lambda>_ st.
     case release_validate L req of
       Err e \<Rightarrow> (Err e, st)
     | Ok ref \<Rightarrow>
         (case run_db_blocking E st (\<lambda>d. release_dedup L (rq_engine E 0) d ref (rl_owner_handle req)) of
            (Err e, st) \<Rightarrow> (Err e, st)
          | (Ok Released, st) \<Rightarrow> (Ok ''released'', st)
          | (Ok ReleaseNotFound, st) \<Rightarrow> (Ok ''already_released'', st)
          | (Ok ReleaseOwnerMismatch, st) \<Rightarrow>
              (Err (Forbidden ''owner_handle does not match the entry owner''), st)))"

record reassign_request =
  ra_entry_refs :: "string list"
  ra_from_owner_handle :: string
  ra_to_owner_handle :: string

definition reassign_validate :: "libs \<Rightarrow> reassign_request \<Rightarrow> app_error + bytes list" where
  "reassign_validate L req =
     (if ra_entry_refs req = [] \<or> MAX_REASSIGN_REFS < length (ra_entry_refs req)
      then Err (BadRequest ''entry_refs count out of range'')
      else
        bind_res (decode_entry_refs L (ra_entry_refs req)) (\<lambda>refs.
        bind_res (validate_text (ra_from_owner_handle req) MAX_OWNER_HANDLE_LEN
                    ''from_owner_handle length out of range'') (\<lambda>_.
        bind_res (validate_text (ra_to_owner_handle req) MAX_OWNER_HANDLE_LEN
                    ''to_owner_handle length out of range'') (\<lambda>_.
        if ra_from_owner_handle req = ra_to_owner_handle req
        then Err (BadRequest ''from and to owner handles are equal'')
        else Ok refs))))"

definition dedup_reassign_handler ::
  "libs \<Rightarrow> req_env \<Rightarrow> app_state \<Rightarrow> client_identity \<Rightarrow> reassign_request \<Rightarrow>
     (app_error + string \<times> nat) \<times> app_state" where
  "dedup_reassign_handler L E st i req = gated E st i (\<lambda>_ st.
     case reassign_validate L req of
       Err e \<Rightarrow> (Err e, st)
     | Ok refs \<Rightarrow>
         (case run_db_blocking E st (\<lambda>d. reassign_dedup L (rq_engine E 0) d refs
                   (ra_from_owner_handle req) (ra_to_owner_handle req)) of
            (Err e, st) \<Rightarrow> (Err e, st)
          | (Ok (Reassigned n), st) \<Rightarrow> (Ok (''reassigned'', n), st)
          | (Ok ReassignNotFound, st) \<Rightarrow> (Err (NotFound ''an entry_ref does not exist''), st)
          | (Ok ReassignOwnerMismatch, st) \<Rightarrow>
              (Err (Forbidden ''an entry is owned by neither from_owner_handle nor to_owner_handle''), st)))"

subsection \<open>The gate\<close>

definition prf_authorized :: "app_state \<Rightarrow> client_identity \<Rightarrow> bool" where
  "prf_authorized st i \<longleftrightarrow> (\<exists>prf. app_prf st = Some prf \<and> may_prf i \<and> id_name i \<in> allowed_client_ids prf)"

lemma require_prf_Ok:
  assumes "require_prf E st i = (Ok prf, st')"
  shows "prf_authorized st i" and "app_prf st' = Some prf" and "app_kg st' = app_kg st"
    and "\<exists>prf0. app_prf st = Some prf0 \<and> ps_keys prf = ps_keys prf0"
  using assms by (auto simp: require_prf_def prf_authorized_def Let_def
      split: option.splits if_splits prod.splits key_decision.splits)

lemma require_prf_refuses:
  assumes "\<not> prf_authorized st i"
  shows "\<exists>e. require_prf E st i = (Err e, st) \<and> (app_prf st \<noteq> None \<longrightarrow> e = prf_forbidden)"
  using assms by (auto simp: require_prf_def prf_authorized_def split: option.splits)

lemma require_prf_db: "require_prf E st i = (r, st') \<Longrightarrow> app_kg st' = app_kg st"
  by (auto simp: require_prf_def Let_def split: option.splits if_splits prod.splits)

locale prf_endpoint =
  fixes handler :: "req_env \<Rightarrow> app_state \<Rightarrow> client_identity \<Rightarrow> 'q \<Rightarrow> (app_error + 'r) \<times> app_state"
  assumes handler_gated: "\<exists>body. handler E st i req = gated E st i body"
begin

lemma unauthorized:
  assumes "\<not> prf_authorized st i"
  shows "\<exists>e. handler E st i req = (Err e, st) \<and> (app_prf st \<noteq> None \<longrightarrow> e = prf_forbidden)"
proof -
  obtain body where "handler E st i req = gated E st i body"
    using handler_gated by blast
  with require_prf_refuses [OF assms, of E] show ?thesis
    by (auto simp: gated_def)
qed

lemma answered_authorized:
  assumes "handler E st i req = (Ok r, st')"
  shows "prf_authorized st i"
  using unauthorized [of st i E req] assms by fastforce

text \<open>A denied request leaves everything but the limiter's own state.\<close>

lemma limited:
  assumes "prf_authorized st i" and "app_prf st = Some prf"
    and "fst (check_at (ps_limiter prf) (rq_lo E) (id_name i) (rq_instant E) (ps_rl prf)) \<noteq> KAllow"
  shows "fst (handler E st i req) = Err RateLimited" and "app_kg (snd (handler E st i req)) = app_kg st"
proof -
  obtain body where h: "handler E st i req = gated E st i body"
    using handler_gated by blast
  obtain dec rl where c: "check_at (ps_limiter prf) (rq_lo E) (id_name i) (rq_instant E) (ps_rl prf) = (dec, rl)"
    by (cases "check_at (ps_limiter prf) (rq_lo E) (id_name i) (rq_instant E) (ps_rl prf)")
  with assms have "require_prf E st i = (Err RateLimited, st\<lparr>app_prf := Some (prf\<lparr>ps_rl := rl\<rparr>)\<rparr>)"
    by (cases dec) (auto simp: require_prf_def prf_authorized_def)
  then show "fst (handler E st i req) = Err RateLimited" "app_kg (snd (handler E st i req)) = app_kg st"
    by (simp_all add: h gated_def)
qed

end

interpretation pe_pairwise: prf_endpoint "prf_pairwise L" for L
  by unfold_locales (auto simp: prf_pairwise_def)
interpretation pe_evaluate: prf_endpoint "prf_evaluate L" for L
  by unfold_locales (auto simp: prf_evaluate_def)
interpretation pe_public_key: prf_endpoint "prf_public_key L" for L
  by unfold_locales (auto simp: prf_public_key_def)
interpretation pe_disclose: prf_endpoint "prf_disclose L" for L
  by unfold_locales (auto simp: prf_disclose_def)
interpretation pe_register: prf_endpoint "dedup_register L" for L
  by unfold_locales (auto simp: dedup_register_def)
interpretation pe_release: prf_endpoint "dedup_release_handler L" for L
  by unfold_locales (auto simp: dedup_release_handler_def)
interpretation pe_reassign: prf_endpoint "dedup_reassign_handler L" for L
  by unfold_locales (auto simp: dedup_reassign_handler_def)

end
