(* ===== verification/Prf_Properties.thy ===== *)
theory Prf_Properties
  imports Handlers_Prf
begin

text \<open>
  What the PRF and ledger endpoints do: their effect on the ledger, the shape of what is stored, that
  a disclosure never panics, and the life of an entry from registration over disclosure and
  reassignment to release.
\<close>

subsection \<open>What is stored\<close>

definition ledger_wf :: "db \<Rightarrow> bool" where
  "ledger_wf d \<longleftrightarrow> (\<forall>r \<in> set (dedup_entries d).
     length (de_entry_ref r) = ENTRY_REF_LEN \<and> length (de_value r) = DEDUP_VALUE_LEN)"

lemma register_wf:
  assumes "ledger_wf d" and "register_dedup L eng clk d ref v own b = (r, d')"
    and "length ref = ENTRY_REF_LEN" and "length v = DEDUP_VALUE_LEN"
  shows "ledger_wf d'"
proof (cases "\<exists>ref'. r = Ok (Registered ref')")
  case True
  with assms show ?thesis by (auto simp: register_Registered_iff ledger_wf_def)
next
  case False
  with assms show ?thesis by (auto dest: register_other)
qed

lemma release_wf: "ledger_wf d \<Longrightarrow> release_dedup L eng d ref own = (r, d') \<Longrightarrow> ledger_wf d'"
  by (cases "r = Ok Released")
    (auto simp: release_Released_iff delete_ref_def ledger_wf_def dest: release_other)

lemma reassign_loop_wf:
  "\<lbrakk> reassign_loop L eng from to i moved d refs = Inr (n, d'); ledger_wf d \<rbrakk> \<Longrightarrow> ledger_wf d'"
proof (induction L eng "from" to i moved d refs rule: reassign_loop.induct)
  case (2 L eng "from" to i moved d ref refs)
  have "ledger_wf (set_owner ref to d)"
    using 2(4) by (auto simp: ledger_wf_def set_owner_def)
  with 2 show ?case by (auto split: sum.splits option.splits if_splits)
qed simp

lemma reassign_wf: "ledger_wf d \<Longrightarrow> reassign_dedup L eng d refs from to = (r, d') \<Longrightarrow> ledger_wf d'"
  by (cases "\<exists>n. r = Ok (Reassigned n)")
    (auto simp: reassign_Reassigned_iff intro: reassign_loop_wf dest: reassign_other)

subsection \<open>Guards\<close>

lemma decode_entry_ref_length: "decode_entry_ref L s = Ok r \<Longrightarrow> length r = ENTRY_REF_LEN"
  by (auto simp: decode_entry_ref_def bind_res_Ok_iff split: if_splits)

text \<open>A reference the service hands out is one it takes back.\<close>

lemma decode_encode_ref:
  assumes "b64url_spec L" and "length r = ENTRY_REF_LEN"
  shows "decode_entry_ref L (b64url_encode L r) = Ok r"
proof -
  have "b64url_dec L (b64url_encode L r) = Some r" and "length (b64url_encode L r) = 22"
    using assms by (simp_all add: b64url_spec_def ENTRY_REF_LEN_def)
  then show ?thesis
    using assms(2) by (auto simp: decode_entry_ref_def b64url_decode_def)
qed

lemma register_validate_Ok: "register_validate L req = Ok v \<Longrightarrow> length v = DEDUP_VALUE_LEN"
  by (auto simp: register_validate_def bind_res_Ok_iff split: if_splits)

lemma register_validate_checks:
  "register_validate L req = Ok v \<Longrightarrow>
     length (rg_owner_handle req) \<le> MAX_OWNER_HANDLE_LEN \<and> rg_owner_handle req \<noteq> []"
  by (auto simp: register_validate_def bind_res_Ok_iff validate_text_def split: if_splits)

lemma validate_text_Ok [simp]: "validate_text v m e = Ok () \<longleftrightarrow> v \<noteq> [] \<and> length v \<le> m"
  by (simp add: validate_text_def not_less)

lemma disclose_validate_Ok:
  "disclose_validate L req = Ok r \<Longrightarrow>
     decode_entry_ref L (dq_entry_ref req) = Ok r \<and> length (dq_client_id req) \<le> MAX_CLIENT_ID_LEN"
  by (auto simp: disclose_validate_def bind_res_Ok_iff)

subsection \<open>Running the blocking database work\<close>

definition joined :: "req_env \<Rightarrow> bool" where
  "joined E \<longleftrightarrow> undisturbed E \<and> rq_join E = None"

lemma run_db_joined:
  "joined E \<Longrightarrow> run_db_blocking E st f = (map_err Internal (fst (f (app_db st))), set_db (snd (f (app_db st))) st)"
  by (simp add: joined_def run_db_blocking_def case_prod_unfold Let_def)

lemma run_db_undisturbed:
  assumes "undisturbed E" and "run_db_blocking E st f = (r, st')"
  shows "st' = st \<or> st' = set_db (snd (f (app_db st))) st"
  using assms by (auto simp: run_db_blocking_def case_prod_unfold Let_def split: option.splits)

lemma gated_authorized:
  assumes "gated E st i b = (Ok r, st')"
  obtains pst st1 where "require_prf E st i = (Ok pst, st1)" and "b pst st1 = (Ok r, st')"
    and "app_kg st1 = app_kg st"
  using assms by (auto simp: gated_def split: prod.splits sum.splits dest: require_prf_Ok(3))

lemma ledger_db_inv:
  assumes "db_inv d"
  shows "db_inv (snd (register_dedup L eng clk d ref v own b))"
    and "db_inv (snd (release_dedup L eng d ref own))"
    and "db_inv (snd (reassign_dedup L eng d refs from to))"
  using assms register_inv [OF _ prod.collapse [symmetric]] register_frame(4-6) [OF prod.collapse [symmetric]]
    release_inv [OF _ prod.collapse [symmetric]] release_frame(4-6) [OF prod.collapse [symmetric]]
    reassign_inv [OF _ prod.collapse [symmetric]] reassign_frame(4-6) [OF prod.collapse [symmetric]]
  by (simp_all add: db_inv_def)

text \<open>Each endpoint runs at most one ledger operation on the database.\<close>

lemma require_prf_pair:
  obtains r st1 where "require_prf E st i = (r, st1)" and "app_kg st1 = app_kg st"
  by (cases "require_prf E st i") (auto dest: require_prf_db)

lemma register_db:
  assumes "undisturbed E"
  shows "app_db (snd (dedup_register L E st i req)) = app_db st \<or>
    (\<exists>ref v. rq_rng E = Ok ref \<and> register_validate L req = Ok v \<and>
      app_db (snd (dedup_register L E st i req)) = snd (register_dedup L (rq_engine E 0) (rq_clock E 0)
        (app_db st) ref v (rg_owner_handle req) (rg_badge_type req)))"
proof -
  obtain r st1 where rp: "require_prf E st i = (r, st1)" and "app_kg st1 = app_kg st"
    by (rule require_prf_pair)
  then show ?thesis
    unfolding dedup_register_def gated_def rp
    by (auto split: sum.split prod.split dedup_register.split dest!: run_db_undisturbed [OF assms])
qed

lemma release_db:
  assumes "undisturbed E"
  shows "app_db (snd (dedup_release_handler L E st i req)) = app_db st \<or>
    (\<exists>ref. app_db (snd (dedup_release_handler L E st i req)) =
      snd (release_dedup L (rq_engine E 0) (app_db st) ref (rl_owner_handle req)))"
proof -
  obtain r st1 where rp: "require_prf E st i = (r, st1)" and "app_kg st1 = app_kg st"
    by (rule require_prf_pair)
  then show ?thesis
    unfolding dedup_release_handler_def gated_def rp
    by (auto split: sum.split prod.split dedup_release.split dest!: run_db_undisturbed [OF assms])
qed

lemma reassign_db:
  assumes "undisturbed E"
  shows "app_db (snd (dedup_reassign_handler L E st i req)) = app_db st \<or>
    (\<exists>refs. app_db (snd (dedup_reassign_handler L E st i req)) = snd (reassign_dedup L (rq_engine E 0)
      (app_db st) refs (ra_from_owner_handle req) (ra_to_owner_handle req)))"
proof -
  obtain r st1 where rp: "require_prf E st i = (r, st1)" and "app_kg st1 = app_kg st"
    by (rule require_prf_pair)
  then show ?thesis
    unfolding dedup_reassign_handler_def gated_def rp
    by (auto split: sum.split prod.split dedup_reassign.split dest!: run_db_undisturbed [OF assms])
qed

lemma readonly_endpoints:
  assumes "undisturbed E"
  shows "app_db (snd (prf_pairwise L E st i s)) = app_db st"
    and "app_db (snd (prf_evaluate L E st i s)) = app_db st"
    and "app_db (snd (prf_public_key L E st i u)) = app_db st"
    and "app_db (snd (prf_disclose L E st i dreq)) = app_db st"
proof -
  obtain r st1 where rp: "require_prf E st i = (r, st1)" and kg: "app_kg st1 = app_kg st"
    by (rule require_prf_pair)
  show "app_db (snd (prf_pairwise L E st i s)) = app_db st"
    "app_db (snd (prf_evaluate L E st i s)) = app_db st"
    "app_db (snd (prf_public_key L E st i u)) = app_db st"
    using kg unfolding prf_pairwise_def prf_evaluate_def prf_public_key_def gated_def rp
    by (simp_all split: sum.split)
  show "app_db (snd (prf_disclose L E st i dreq)) = app_db st"
    using kg unfolding prf_disclose_def gated_def rp
    by (auto split: sum.split prod.split option.split dest!: run_db_undisturbed [OF assms])
qed

subsection \<open>The life of an entry\<close>

lemma disclose_served:
  assumes "joined E" and "stmt_fault (rq_engine E 0) 0 = None" and "ct_eq_spec L"
    and "require_prf E st i = (Ok pst, st1)" and "disclose_validate L req = Ok ref"
    and "ledger (app_db st) ref = Some (v, dq_owner_handle req, b)"
  shows "fst (prf_disclose L E st i req) = Ok (disclose L (ps_keys pst) v (dq_client_id req))"
proof -
  obtain r where r: "row_by_ref (app_db st) ref = Some r" "de_value r = v"
    "de_owner_tag r = dq_owner_handle req"
    using assms(6) by (auto simp: ledger_row)
  have "app_db st1 = app_db st"
    using require_prf_Ok(3) [OF assms(4)] by simp
  with r assms show ?thesis
    by (simp add: prf_disclose_def gated_def run_db_joined dedup_entry_by_ref_def run_stmt_None)
qed

text \<open>
  Conversely, an answer is the nullifier of a value that the ledger records for the handle given. The
  ledger is read in the state the blocking task finds.
\<close>

abbreviation task_db :: "req_env \<Rightarrow> app_state \<Rightarrow> db" where
  "task_db E st \<equiv> kg_db (rq_other E 0 (app_kg st))"

lemma disclose_Ok:
  assumes "ct_eq_spec L" and "prf_disclose L E st i req = (Ok out, st')"
  obtains ref v b K where "disclose_validate L req = Ok ref"
    and "ledger (task_db E st) ref = Some (v, dq_owner_handle req, b)" and "out = disclose L K v (dq_client_id req)"
proof -
  from assms(2) [unfolded prf_disclose_def] obtain pst st1 where gate: "require_prf E st i = (Ok pst, st1)"
    and kg: "app_kg st1 = app_kg st"
    by (rule gated_authorized)
  from assms(1,2) obtain ref en st2 where ref: "disclose_validate L req = Ok ref" "owner_tag en = dq_owner_handle req"
      "out = disclose L (ps_keys pst) (entry_value en) (dq_client_id req)"
    and run: "run_db_blocking E st1 (\<lambda>d. (dedup_entry_by_ref (rq_engine E 0) d ref, d)) = (Ok (Some en), st2)"
    unfolding prf_disclose_def gated_def gate by (auto split: sum.splits prod.splits option.splits if_splits)
  from run kg have "dedup_entry_by_ref (rq_engine E 0) (task_db E st) ref = Ok (Some en)"
    by (auto simp: run_db_blocking_def Let_def split: option.splits)
  then have "\<exists>b. ledger (task_db E st) ref = Some (entry_value en, owner_tag en, b)"
    by (auto simp: dedup_entry_by_ref_def ledger_row dest!: sym [of "Some _"])
  with ref that show thesis by metis
qed

text \<open>A disclosure of a stored value never panics.\<close>

lemma disclose_no_panic:
  assumes "hkdf_spec L" and "ledger_wf d" and "ledger d ref = Some (v, own, b)"
    and "length c \<le> MAX_CLIENT_ID_LEN"
  shows "\<exists>out. disclose L K v c = Some (NULLIFIER_PREFIX @ out)"
proof (rule disclose_total [OF assms(1)])
  obtain r where "row_by_ref d ref = Some r" "de_value r = v"
    using assms(3) by (auto simp: ledger_row)
  with assms(2) have "length v = DEDUP_VALUE_LEN"
    by (auto simp: ledger_wf_def dest!: row_by_ref_SomeD)
  then show "fits v" by (simp add: fits_def DEDUP_VALUE_LEN_def)
  show "fits (str_bytes c)" using assms(4) by (simp add: fits_def MAX_CLIENT_ID_LEN_def)
qed

lemma disclose_answered:
  assumes "ct_eq_spec L" and "hkdf_spec L" and "ledger_wf (task_db E st)"
  shows "fst (prf_disclose L E st i req) \<noteq> Ok None"
proof
  assume "fst (prf_disclose L E st i req) = Ok None"
  then obtain st' where "prf_disclose L E st i req = (Ok None, st')"
    by (cases "prf_disclose L E st i req") simp
  with assms(1) obtain ref v b K where val: "disclose_validate L req = Ok ref"
    and led: "ledger (task_db E st) ref = Some (v, dq_owner_handle req, b)"
    and none: "None = disclose L K v (dq_client_id req)"
    by (rule disclose_Ok)
  have "length (dq_client_id req) \<le> MAX_CLIENT_ID_LEN"
    using disclose_validate_Ok [OF val] by simp
  then show False
    using disclose_no_panic [OF assms(2,3) led, of "dq_client_id req" K] none by simp
qed

text \<open>What a registration that is answered leaves: an entry under the returned reference.\<close>

lemma register_served:
  assumes rng: "\<forall>r. rq_rng E = Ok r \<longrightarrow> length r = ENTRY_REF_LEN"
    and "ct_eq_spec L" and linv: "ledger_inv (task_db E st)" and "ledger_wf (task_db E st)"
    and "dedup_register L E st i req = (Ok resp, st')"
  obtains ref v b where "register_validate L req = Ok v" and "rr_entry_ref resp = b64url_encode L ref"
    and "length ref = ENTRY_REF_LEN" and "ledger (app_db st') ref = Some (v, rg_owner_handle req, b)"
    and "length (rg_owner_handle req) \<le> MAX_OWNER_HANDLE_LEN" and "rg_owner_handle req \<noteq> []"
proof -
  from assms(5) [unfolded dedup_register_def] obtain pst st1 where gate: "require_prf E st i = (Ok pst, st1)"
    and kg: "app_kg st1 = app_kg st"
    by (rule gated_authorized)
  from assms(5) obtain v ref0 x r where v: "register_validate L req = Ok v" and ref0: "rq_rng E = Ok ref0"
    and run: "run_db_blocking E st1 (\<lambda>d. register_dedup L (rq_engine E 0) (rq_clock E 0) d ref0 v
        (rg_owner_handle req) (rg_badge_type req)) = (Ok x, st')"
    and x: "x \<in> {Registered r, AlreadyYours r}" and resp: "rr_entry_ref resp = b64url_encode L r"
    unfolding dedup_register_def gated_def gate
    by (auto split: sum.splits prod.splits dedup_register.splits)
  from run kg have reg: "register_dedup L (rq_engine E 0) (rq_clock E 0) (task_db E st) ref0 v
      (rg_owner_handle req) (rg_badge_type req) = (Ok x, app_db st')"
    by (auto simp: run_db_blocking_def Let_def split: option.splits prod.splits)
  note checks = register_validate_checks [OF v]
  have "\<exists>b. ledger (app_db st') r = Some (v, rg_owner_handle req, b) \<and> length r = ENTRY_REF_LEN"
  proof (cases "x = Registered r")
    case True
    with reg rng ref0 show ?thesis
      by (auto simp: register_Registered_iff ledger_register)
  next
    case False
    with x have ay: "x = AlreadyYours r" by blast
    then obtain row where row: "row_by_value (task_db E st) v = Some row"
        "owner_eq L (de_owner_tag row) (rg_owner_handle req)" "r = de_entry_ref row"
      using reg register_AlreadyYoursD by blast
    moreover have "app_db st' = task_db E st"
      using reg ay register_other [OF reg] by blast
    moreover have "length (de_entry_ref row) = ENTRY_REF_LEN"
      using row_by_value_SomeD [OF row(1)] assms(4) by (auto simp: ledger_wf_def)
    ultimately show ?thesis
      using row_by_value_ledger [OF linv row(1)] assms(2) by auto
  qed
  with v resp checks that show thesis by blast
qed

text \<open>Releasing one's own entry succeeds and frees it.\<close>

lemma release_served:
  assumes "joined E" and "\<forall>j. stmt_fault (rq_engine E 0) j = None" and "ct_eq_spec L"
    and "require_prf E st i = (Ok pst, st1)" and "release_validate L req = Ok ref"
    and "ledger (app_db st) ref = Some (v, rl_owner_handle req, b)"
  shows "fst (dedup_release_handler L E st i req) = Ok ''released''"
    and "ledger (app_db (snd (dedup_release_handler L E st i req))) = (ledger (app_db st))(ref := None)"
proof -
  have kg: "app_db st1 = app_db st"
    using require_prf_Ok(3) [OF assms(4)] by simp
  obtain r where "row_by_ref (app_db st) ref = Some r" "de_owner_tag r = rl_owner_handle req"
    using assms(6) by (auto simp: ledger_row)
  then have rel: "release_dedup L (rq_engine E 0) (app_db st) ref (rl_owner_handle req) =
      (Ok Released, delete_ref ref (app_db st))"
    using assms(2,3) by (simp add: release_Released_iff)
  show "fst (dedup_release_handler L E st i req) = Ok ''released''"
    "ledger (app_db (snd (dedup_release_handler L E st i req))) = (ledger (app_db st))(ref := None)"
    using assms(4,5) by (simp_all add: dedup_release_handler_def gated_def run_db_joined [OF assms(1)] rel kg
        ledger_delete_ref)
qed

end
