(* ===== verification/Server.thy ===== *)
theory Server
  imports Sign_Properties Prf_Properties
begin

text \<open>
  The router and the serving path (\<open>src/lib.rs\<close>). Of \<open>axum\<close> the model uses what it documents: an unknown
  path is 404, a known path with another method 405, a \<open>get\<close> route also answers \<open>HEAD\<close>, and the
  extractors of a handler run in order. The result of \<open>Json\<close> or \<open>Query\<close> extraction is part of the
  request: the data, or the status of the rejection.
\<close>

subsection \<open>Routes\<close>

datatype http_method = GET | HEAD | POST | OtherMethod

datatype route = Healthz | Sign | GetKey | CreateKey | RotateKey
  | Pairwise | Evaluate | PublicKey | Disclose | DedupRegister | DedupRelease | DedupReassign

type_synonym route_table = "(string \<times> (http_method \<times> route) list) list"

definition base_routes :: route_table where
  "base_routes =
     [(''/healthz'', [(GET, Healthz)]), (''/sign'', [(POST, Sign)]),
      (''/key'', [(GET, GetKey), (POST, CreateKey)]), (''/key/rotate'', [(POST, RotateKey)])]"

definition prf_routes :: route_table where
  "prf_routes =
     [(''/prf/pairwise'', [(POST, Pairwise)]), (''/prf/evaluate'', [(POST, Evaluate)]),
      (''/prf/public-key'', [(GET, PublicKey)]), (''/prf/disclose'', [(POST, Disclose)]),
      (''/dedup/register'', [(POST, DedupRegister)]), (''/dedup/release'', [(POST, DedupRelease)]),
      (''/dedup/reassign'', [(POST, DedupReassign)])]"

definition router :: "app_state \<Rightarrow> route_table" where
  "router st = base_routes @ (if app_prf st \<noteq> None then prf_routes else [])"

definition find_route :: "route_table \<Rightarrow> http_method \<Rightarrow> string \<Rightarrow> nat + route" where
  "find_route table m path =
     (case map_of table path of
        None \<Rightarrow> Err 404
      | Some ms \<Rightarrow> ok_or 405 (map_of ms (if m = HEAD then GET else m)))"

subsection \<open>Requests and replies\<close>

datatype req_data =
    DSign sign_request
  | DGroup string
  | DText string
  | DDisclose disclose_request
  | DRegister register_request
  | DRelease release_request
  | DReassign reassign_request
  | DNone

record http_data =
  h_method :: http_method
  h_path :: string
  h_data :: "nat + req_data"

text \<open>\<open>Aborted\<close>: the handler panicked and the peer gets no response.\<close>

datatype reply = Reply http_response | Aborted

definition plain :: "nat \<Rightarrow> reply" where
  "plain code = Reply \<lparr>status_code = code, resp_body = []\<rparr>"

definition render :: "('a \<Rightarrow> nat \<times> (string \<times> json) list) \<Rightarrow> app_error + 'a \<Rightarrow> reply" where
  "render f r =
     Reply (case r of
       Err e \<Rightarrow> into_response e
     | Ok x \<Rightarrow> \<lparr>status_code = fst (f x), resp_body = snd (f x)\<rparr>)"

definition key_json :: "key_response \<Rightarrow> (string \<times> json) list" where
  "key_json k =
     [(''group_id'', JStr (kr_group_id k)), (''status'', JStr (kr_status k))] @
     (case kr_public_key k of None \<Rightarrow> [] | Some p \<Rightarrow> [(''public_key'', JStr p)]) @
     (case kr_key_id k of None \<Rightarrow> [] | Some i \<Rightarrow> [(''key_id'', JInt i)])"

subsection \<open>Handling one request\<close>

text \<open>A route's extractor yields its own kind of data; any other cannot be deserialised.\<close>

definition handle_route ::
  "libs \<Rightarrow> req_env \<Rightarrow> app_state \<Rightarrow> client_identity \<Rightarrow> route \<Rightarrow> req_data \<Rightarrow> (reply \<times> app_state) option" where
  "handle_route L E st i route q =
     (let bad = Some (plain 422, st)
      in case route of
        Healthz \<Rightarrow> bad
      | Sign \<Rightarrow> (case q of DSign q \<Rightarrow>
            map_option (\<lambda>(r, st). (render (\<lambda>x. (200, [(''blind_signature'', JStr (blind_signature x))])) r, st))
              (sign L E st i q) | _ \<Rightarrow> bad)
      | GetKey \<Rightarrow> (case q of DGroup g \<Rightarrow>
            (let (r, st) = get_key L E st i g in Some (render (\<lambda>(code, k). (code, key_json k)) r, st)) | _ \<Rightarrow> bad)
      | CreateKey \<Rightarrow> (case q of DGroup g \<Rightarrow>
            (let (r, st) = create_key_handler L E st i g in
             Some (render (\<lambda>(code, k). (code, key_json k)) r, st)) | _ \<Rightarrow> bad)
      | RotateKey \<Rightarrow> (case q of DGroup g \<Rightarrow>
            map_option (\<lambda>(r, st). (render (\<lambda>k. (200, key_json k)) r, st)) (rotate_key_handler L E st i g) | _ \<Rightarrow> bad)
      | Pairwise \<Rightarrow> (case q of DText s \<Rightarrow>
            (let (r, st) = prf_pairwise L E st i s in
             Some (render (\<lambda>x. (200, [(''output'', JStr x)])) r, st)) | _ \<Rightarrow> bad)
      | Evaluate \<Rightarrow> (case q of DText s \<Rightarrow>
            (let (r, st) = prf_evaluate L E st i s in
             Some (render (\<lambda>x. (200, [(''evaluation_element'', JStr (er_evaluation_element x)),
                                     (''proof'', JStr (er_proof x))])) r, st)) | _ \<Rightarrow> bad)
      | PublicKey \<Rightarrow>
            (let (r, st) = prf_public_key L E st i () in
             Some (render (\<lambda>x. (200, [(''suite'', JStr (pk_suite x)),
                                     (''public_key'', JStr (pk_public_key x))])) r, st))
      | Disclose \<Rightarrow> (case q of DDisclose q \<Rightarrow>
            (let (r, st) = prf_disclose L E st i q in
             Some (if r = Ok None then Aborted
                   else render (\<lambda>x. (200, [(''nullifier'', JStr (the x))])) r, st)) | _ \<Rightarrow> bad)
      | DedupRegister \<Rightarrow> (case q of DRegister q \<Rightarrow>
            (let (r, st) = dedup_register L E st i q in
             Some (render (\<lambda>x. (200, [(''status'', JStr (rr_status x)),
                                     (''entry_ref'', JStr (rr_entry_ref x))])) r, st)) | _ \<Rightarrow> bad)
      | DedupRelease \<Rightarrow> (case q of DRelease q \<Rightarrow>
            (let (r, st) = dedup_release_handler L E st i q in
             Some (render (\<lambda>x. (200, [(''status'', JStr x)])) r, st)) | _ \<Rightarrow> bad)
      | DedupReassign \<Rightarrow> (case q of DReassign q \<Rightarrow>
            (let (r, st) = dedup_reassign_handler L E st i q in
             Some (render (\<lambda>(s, n). (200, [(''status'', JStr s), (''reassigned'', JInt (int n))])) r, st)) | _ \<Rightarrow> bad))"

definition handle :: "libs \<Rightarrow> req_env \<Rightarrow> app_state \<Rightarrow> http_data request \<Rightarrow> (reply \<times> app_state) option" where
  "handle L E st req =
     (case find_route (router st) (h_method (payload req)) (h_path (payload req)) of
        Err code \<Rightarrow> Some (plain code, st)
      | Ok Healthz \<Rightarrow> Some (Reply \<lparr>status_code = 200, resp_body = [([], JStr healthz)]\<rparr>, st)
      | Ok r \<Rightarrow>
          (case from_request_parts req of
             Err e \<Rightarrow> Some (Reply (into_response e), st)
           | Ok i \<Rightarrow>
               (case h_data (payload req) of
                  Err code \<Rightarrow> Some (plain code, st)
                | Ok q \<Rightarrow> handle_route L E st i r q)))"

text \<open>
  \<open>serve\<close>: a connection is accepted with an identity, and each of its requests passes the service that
  inserts it.
\<close>

definition connection_request ::
  "libs \<Rightarrow> req_env \<Rightarrow> app_state \<Rightarrow> client_identity \<Rightarrow> http_data request \<Rightarrow> (reply \<times> app_state) option" where
  "connection_request L E st i req = identity_service_call (handle L E st) i req"

definition serve ::
  "libs \<Rightarrow> identity_policy \<Rightarrow> handshake \<Rightarrow> req_env \<Rightarrow> app_state \<Rightarrow> http_data request \<Rightarrow>
     (io_error + reply \<times> app_state) option" where
  "serve L P hs E st req =
     (case accept L (acceptor_new P) hs of
        Err e \<Rightarrow> Some (Err e)
      | Ok i \<Rightarrow> map_option Ok (connection_request L E st i req))"

lemmas handle_defs = connection_request_def identity_service_call_def handle_def from_request_parts_def

text \<open>Without the PRF state the PRF paths do not exist.\<close>

lemma prf_unmounted:
  assumes "app_prf st = None" and "path \<in> set (map fst prf_routes)"
  shows "find_route (router st) m path = Err 404"
  using assms by (auto simp: find_route_def router_def base_routes_def prf_routes_def)

subsection \<open>The invariant of the shared state\<close>

text \<open>A reference is drawn as an array of \<open>ENTRY_REF_LEN\<close> bytes.\<close>

definition drawn_refs :: "req_env \<Rightarrow> bool" where
  "drawn_refs E \<longleftrightarrow> (\<forall>r. rq_rng E = Ok r \<longrightarrow> length r = ENTRY_REF_LEN)"

definition server_inv :: "app_state \<Rightarrow> bool" where
  "server_inv st \<longleftrightarrow> good (app_kg st) \<and> db_inv (app_db st) \<and> ledger_wf (app_db st)"

end
