(* ===== verification/Server_Properties.thy ===== *)
theory Server_Properties
  imports Server
begin

text \<open>
  The invariant of the whole service: the schema's indexes, the shape of the ledger's entries and the
  invariant of the key-generation service are kept by every request and every background task. Also:
  who gets what from the router.
\<close>

subsection \<open>How the shared state develops\<close>

text \<open>
  The guarantee of every part of the service, and what each part relies on between its steps: the
  key-generation service evolves as its clients expect, and the tables stay in order. Permits may be
  taken and given back.
\<close>

definition db_ok :: "db \<Rightarrow> bool" where
  "db_ok d \<longleftrightarrow> db_inv d \<and> ledger_wf d"

definition develops :: "kg_state \<Rightarrow> kg_state \<Rightarrow> bool" where
  "develops s s' \<longleftrightarrow> (good s \<longrightarrow> evolves s s' \<and> (db_ok (kg_db s) \<longrightarrow> db_ok (kg_db s')))"

abbreviation dev :: "app_state \<Rightarrow> app_state \<Rightarrow> bool" where
  "dev st st' \<equiv> develops (app_kg st) (app_kg st')"

interpretation dv: interference develops
proof unfold_locales
  show "develops s s" for s
    by (simp add: develops_def evolves_refl)
  show "develops s1 s3" if "develops s1 s2" "develops s2 s3" for s1 s2 s3
    using that evolves_good evolves_trans unfolding develops_def by meson
  show "develops s s'" if "ensure_locked eng s g = (r, s')" for eng s g r s'
    using ensure_locked_evolves [OF that] ensure_locked_db [OF that] by (simp add: develops_def)
qed

lemma develops_inv: "server_inv st \<Longrightarrow> dev st st' \<Longrightarrow> server_inv st'"
  by (auto simp: server_inv_def develops_def db_ok_def evolves_def)

lemma dev_interfere: "env_within develops E \<Longrightarrow> dev st st' \<Longrightarrow> dev st (interfere E i st')"
  by (auto simp: env_within_def intro: dv.chain)

lemma develops_rely: "env_within develops E \<Longrightarrow> req_rely E"
  by (auto simp: env_within_def req_rely_def rely_def wakes_ok_def develops_def)

lemma undisturbed_within:
  assumes "undisturbed E" and "\<forall>w \<in> set (rq_wakes E). wake_effect w = (\<lambda>s. s)" and "\<And>s. R s s"
  shows "env_within R E"
  using assms by (simp add: env_within_def undisturbed_def)

subsection \<open>Statements on the database\<close>

definition keeps_keys :: "db \<Rightarrow> db \<Rightarrow> bool" where
  "keeps_keys d d' \<longleftrightarrow> (\<forall>g. active_pub d g \<noteq> None \<longrightarrow> active_pub d' g \<noteq> None)"

lemma keeps_keys_same: "group_keys d' = group_keys d \<Longrightarrow> keeps_keys d d'"
  using active_pub_cong [of d' d] by (simp add: keeps_keys_def)

lemma ledger_wf_cong: "dedup_entries d' = dedup_entries d \<Longrightarrow> ledger_wf d' = ledger_wf d"
  by (simp add: ledger_wf_def)

lemma evolves_set_db:
  assumes "good s" and "keys_inv d'" and "keeps_keys (kg_db s) d'"
  shows "evolves s (s\<lparr>kg_db := d'\<rparr>)"
  using assms by (auto simp: evolves_def good_def kg_inv_def channels_fresh_def live_worker_def has_key_def
      keeps_keys_def simp del: active_pub_None)

lemma develops_set_db:
  assumes "keys_inv (kg_db s) \<Longrightarrow> keys_inv d \<and> keeps_keys (kg_db s) d" and "db_ok (kg_db s) \<Longrightarrow> db_ok d"
  shows "develops s (s\<lparr>kg_db := d\<rparr>)"
  unfolding develops_def
proof (intro impI conjI)
  assume good: "good s"
  then have "keys_inv (kg_db s)"
    by (simp add: good_def kg_inv_def)
  with good assms(1) show "evolves s (s\<lparr>kg_db := d\<rparr>)"
    using evolves_set_db by blast
qed (use assms(2) in simp)

lemma dev_set_db: "develops (app_kg st) ((app_kg st)\<lparr>kg_db := d\<rparr>) \<Longrightarrow> dev st (set_db d st)"
  by (simp add: set_db_def)

text \<open>A statement that leaves the group keys alone.\<close>

lemma develops_other_table:
  assumes "group_keys d = group_keys (kg_db s)" and "db_inv (kg_db s) \<Longrightarrow> db_inv d"
    and "ledger_wf (kg_db s) \<Longrightarrow> ledger_wf d" and "keys_inv (kg_db s) \<Longrightarrow> keys_inv d"
  shows "develops s (s\<lparr>kg_db := d\<rparr>)"
  using assms by (intro develops_set_db) (auto simp: keeps_keys_same db_ok_def)

lemma reserve_dev:
  assumes "reserve_issuance eng clk (app_db st) g p v = (r, d)"
  shows "dev st (set_db d st)"
  using reserve_db_inv [OF _ assms] reserve_frame [OF assms] ledger_wf_cong [of d "app_db st"]
  by (intro dev_set_db develops_other_table) simp_all

lemma roll_back_dev: "dev st (roll_back E st i)"
proof -
  obtain r d where rd: "delete_issuance (rq_engine E 7) (app_db st) i = (r, d)"
    by (cases "delete_issuance (rq_engine E 7) (app_db st) i")
  then show ?thesis
    using delete_db_inv [OF _ rd] delete_frame [OF rd] ledger_wf_cong [of d "app_db st"]
    unfolding roll_back_def by (intro dev_set_db develops_other_table) simp_all
qed

lemma create_develops:
  assumes "create_key L K (kg_db s) k g bits = (r, d)"
  shows "develops s (s\<lparr>kg_db := d\<rparr>)"
  using create_key_inv [OF _ assms] create_key_frame [OF assms] create_keeps_key [OF _ assms]
    ledger_wf_cong [of d "kg_db s"]
  by (intro develops_set_db) (simp_all add: db_ok_def db_inv_def keeps_keys_def del: active_pub_None)

lemma load_and_sign_dev:
  assumes "env_within develops E" and "load_and_sign L E st req bl = (r, st')"
  shows "dev st st'"
  using assms(2)
proof (cases rule: load_and_sign_cases)
  case (created k d)
  have "dev (interfere E 8 st) st'"
    unfolding created(3) by (intro dev_set_db create_develops [OF created(2)])
  with dv.chain [OF dev_interfere [OF assms(1) dv.stay]] show ?thesis by blast
qed (simp add: dv.stay)

lemma rotate_develops:
  assumes "rotate_key L K (kg_db s) k g bits = (r, d)"
  shows "develops s (s\<lparr>kg_db := d\<rparr>)"
  using rotate_key_inv [OF _ assms] rotate_key_frame [OF assms] rotate_keeps_key [OF _ assms]
    ledger_wf_cong [of d "kg_db s"]
  by (intro develops_set_db) (simp_all add: db_ok_def db_inv_def keeps_keys_def del: active_pub_None)

lemma ledger_ops_dev:
  shows "length ref = ENTRY_REF_LEN \<Longrightarrow> length v = DEDUP_VALUE_LEN \<Longrightarrow>
      dev st (set_db (snd (register_dedup L eng clk (app_db st) ref v own b)) st)"
    and "dev st (set_db (snd (release_dedup L eng (app_db st) ref own)) st)"
    and "dev st (set_db (snd (reassign_dedup L eng (app_db st) refs from to)) st)"
  using register_wf [OF _ prod.collapse [symmetric]] release_wf [OF _ prod.collapse [symmetric]]
    reassign_wf [OF _ prod.collapse [symmetric]] ledger_db_inv [of "app_db st"]
    register_frame(1,4) [OF prod.collapse [symmetric]] release_frame(1,4) [OF prod.collapse [symmetric]]
    reassign_frame(1,4) [OF prod.collapse [symmetric]]
  by (auto intro!: dev_set_db develops_other_table)

subsection \<open>The blind-RSA surface\<close>

lemma sign_ready_dev:
  assumes "env_within develops E" and "sign_ready E st g = Some (r, st')"
  shows "dev st st'"
proof (cases "auto_create_keys st")
  case True
  with assms(2) obtain r' s where "wait_ready (rq_engine E) (rq_other E) (rq_wakes E) (app_kg st) g = Some (r', s)"
    and "st' = st\<lparr>app_kg := s\<rparr>"
    by (auto simp: sign_ready_def)
  with assms(1) show ?thesis
    by (auto simp: env_within_def intro: dv.wait_ready_within)
next
  case False
  with assms(2) show ?thesis by (simp add: sign_ready_def dv.stay)
qed

lemma sign_blocking_dev:
  assumes "env_within develops E" and "sign_blocking L E st req bl = (res, st')"
  shows "dev st st'"
proof -
  note step = dev_interfere [OF assms(1)]
  let ?st1 = "interfere E 4 st" and ?st2 = "interfere E 5 (interfere E 4 st)"
  have st1: "dev st ?st1" and st2: "dev st ?st2"
    by (intro step dv.stay)+
  obtain r d where r: "reserve_issuance (rq_engine E 5) (rq_clock E 1) (app_db ?st2) (sr_group_id req)
      (sr_participant_id req) (sr_version_id req) = (r, d)" (is "?r = _")
    by (cases ?r)
  have reserved: "dev st (set_db d ?st2)"
    by (rule dv.chain [OF st2 reserve_dev [OF r]])
  obtain ls st4 where ls: "load_and_sign L E (interfere E 6 (set_db d ?st2)) req bl = (ls, st4)" (is "?l = _")
    by (cases ?l)
  have st4: "dev st st4"
    by (rule dv.chain [OF step [OF reserved] load_and_sign_dev [OF assms(1) ls]])
  have undone: "dev st (roll_back E (interfere E 7 st4) i)" for i
    by (rule dv.chain [OF step [OF st4] roll_back_dev])
  have "st' \<in> {?st1, set_db d ?st2, st4} \<union> range (roll_back E (interfere E 7 st4))"
    using assms(2) r ls unfolding sign_blocking_def Let_def
    by (auto split: sum.splits decision.splits reservation.splits)
  with st1 reserved st4 undone show ?thesis by auto
qed

lemma sign_dev:
  assumes "env_within develops E" and "sign L E st i req = Some (r, st')"
  shows "dev st st'"
proof (cases "sign_validate L i req")
  case (Inl e)
  with assms(2) show ?thesis by (simp add: sign_def dv.stay)
next
  case v: (Inr bl)
  with assms(2) obtain r1 st1 where ready: "sign_ready E st (sr_group_id req) = Some (r1, st1)"
    by (auto simp: sign_def split: option.splits)
  note st1 = sign_ready_dev [OF assms(1) ready]
  note st2 = dev_interfere [OF assms(1) st1, of 3]
  have "st' = st1 \<or> st' = interfere E 3 st1 \<or> sign_blocking L E (interfere E 3 st1) req bl = (r, st')"
    using assms(2) v ready by (auto simp: sign_def split: sum.splits option.splits)
  with st1 st2 dv.chain [OF st2 sign_blocking_dev [OF assms(1)]] show ?thesis by auto
qed

lemma key_gate_kg: "key_gate E st i g = (r, st') \<Longrightarrow> app_kg st' = app_kg st"
  by (auto simp: key_gate_def check_key_rate_limit_def split: sum.splits prod.splits)

lemma ensure_answer_dev:
  assumes "env_within develops E" and "ensure_answer L E st g = (r, st')"
  shows "dev st st'"
proof -
  obtain r1 s where e: "ensure (\<lambda>i. rq_engine E (1 + i)) (rq_other E 1) (rq_other E 0 (app_kg st)) g = (r1, s)"
    (is "?c = _")
    by (cases ?c)
  have other: "develops s (rq_other E i s)" for i s
    using assms(1) by (simp add: env_within_def)
  have s: "develops (app_kg st) s"
    using dv.chain [OF other dv.ensure_within [OF other e]] .
  moreover have "app_kg st' = s \<or> app_kg st' = rq_other E 2 s"
    using assms(2) unfolding ensure_answer_def e Let_def by (cases r1) (auto split: keygen_status.splits)
  ultimately show ?thesis
    using dv.chain [OF s other] by (elim disjE) simp_all
qed

lemma get_key_dev:
  assumes "env_within develops E" and "get_key L E st i g = (r, st')"
  shows "dev st st'"
proof -
  obtain r1 st1 where gate: "key_gate E st i g = (r1, st1)"
    by (cases "key_gate E st i g")
  have "st' = st1 \<or> st' = interfere E 4 st1 \<or> ensure_answer L E (interfere E 4 st1) g = (r, st')"
    using assms(2) unfolding get_key_def gate by (auto simp: Let_def split: sum.splits option.splits if_splits)
  moreover have "dev st (interfere E 4 st1)"
    using dev_interfere [OF assms(1) dv.stay, of st1] by (simp add: key_gate_kg [OF gate, symmetric])
  ultimately show ?thesis
    using dv.chain ensure_answer_dev [OF assms(1)] key_gate_kg [OF gate] dv.stay by metis
qed

lemma create_key_handler_dev:
  assumes "env_within develops E" and "create_key_handler L E st i g = (r, st')"
  shows "dev st st'"
proof -
  obtain r1 st1 where gate: "key_gate E st i g = (r1, st1)"
    by (cases "key_gate E st i g")
  have "st' = st1 \<or> ensure_answer L E st1 g = (r, st')"
    using assms(2) unfolding create_key_handler_def gate by (auto split: sum.splits)
  then show ?thesis
    using ensure_answer_dev [OF assms(1)] key_gate_kg [OF gate] dv.stay by metis
qed

lemma develops_permits: "develops s (s\<lparr>permits := n\<rparr>)"
  by (simp add: develops_def evolves_def good_def kg_inv_def channels_fresh_def live_worker_def has_key_def)

lemma kg_rotate_dev:
  assumes "env_within develops E" and "kg_rotate L K j (rq_other E) s g = Some (r, s')"
  shows "develops s s'"
proof -
  have other: "develops s (rq_other E i s)" for i s
    using assms(1) by (simp add: env_within_def)
  let ?s1 = "rq_other E 0 s"
  let ?s2 = "rq_other E 1 (?s1\<lparr>permits := permits ?s1 - 1\<rparr>)"
  obtain r1 d where rd: "rotate_key L K (kg_db ?s2) (kg_kek ?s2) g (kg_bits ?s2) = (r1, d)" (is "?c = _")
    by (cases ?c)
  have s2: "develops s ?s2"
    using dv.chain [OF dv.chain [OF other develops_permits] other] .
  have ends: "develops s (rq_other E 2 x\<lparr>permits := n\<rparr>)" if "develops ?s2 x" for x n
    using dv.chain [OF dv.chain [OF dv.chain [OF s2 that] other] develops_permits] .
  have "s' = ?s1 \<or> (\<exists>n. \<exists>x \<in> {?s2, ?s2\<lparr>kg_db := d\<rparr>}. s' = rq_other E 2 x\<lparr>permits := n\<rparr>)"
    using assms(2) rd by (auto simp: kg_rotate_def Let_def split: if_splits option.splits)
  then show ?thesis
    using other ends [OF dv.stay] ends [OF rotate_develops [OF rd]] by auto
qed

lemma rotate_handler_dev:
  assumes "env_within develops E" and "rotate_key_handler L E st i g = Some (r, st')"
  shows "dev st st'"
proof -
  obtain r2 st1 where c: "check_key_rate_limit E st i = (r2, st1)"
    by (cases "check_key_rate_limit E st i")
  then have kg: "app_kg st1 = app_kg st"
    by (auto simp: check_key_rate_limit_def split: prod.splits)
  have other: "develops s (rq_other E i s)" for i s
    using assms(1) by (simp add: env_within_def)
  have "app_kg st' = app_kg st \<or> (\<exists>r s. kg_rotate L (rq_key E) (rq_join E) (rq_other E) (app_kg st) g = Some (r, s) \<and>
      app_kg st' \<in> {s, rq_other E 3 s})"
    using assms(2) kg unfolding rotate_key_handler_def c
    by (cases r2) (auto simp: Let_def split: sum.splits if_splits option.splits)
  then show ?thesis
    using kg_rotate_dev [OF assms(1)] dv.stay dv.chain other by (metis insertE singletonD)
qed

subsection \<open>The PRF surface\<close>

lemma run_db_dev:
  assumes "env_within develops E" and "\<And>st. dev st (set_db (snd (f (app_db st))) st)"
  shows "dev st (snd (run_db_blocking E st f))"
proof -
  have "dev st (interfere E 0 st)"
    by (intro dev_interfere [OF assms(1)] dv.stay)
  with dv.chain [OF this assms(2)] show ?thesis
    by (auto simp: run_db_blocking_def Let_def case_prod_unfold split: option.split)
qed

lemma run_db_pair_dev:
  "run_db_blocking E st f = (r, st') \<Longrightarrow> dev st (snd (run_db_blocking E st f)) \<Longrightarrow> dev st st'"
  by simp

lemma gated_dev:
  assumes "\<And>pst st1. dev st1 (snd (b pst st1))"
  shows "dev st (snd (gated E st i b))"
proof (cases "require_prf E st i")
  case (Pair r st1)
  then have "app_kg st1 = app_kg st"
    by (rule require_prf_db)
  with Pair show ?thesis
    by (cases r) (simp_all add: gated_def dv.stay assms [of st1, unfolded \<open>app_kg st1 = app_kg st\<close>])
qed

lemma prf_endpoints_dev:
  assumes "env_within develops E"
  shows "dev st (snd (prf_pairwise L E st i s))"
    and "dev st (snd (prf_evaluate L E st i s))"
    and "dev st (snd (prf_public_key L E st i u))"
    and "dev st (snd (prf_disclose L E st i dq))"
proof -
  show "dev st (snd (prf_pairwise L E st i s))" "dev st (snd (prf_evaluate L E st i s))"
    "dev st (snd (prf_public_key L E st i u))"
    unfolding prf_pairwise_def prf_evaluate_def prf_public_key_def
    by (rule gated_dev; simp add: dv.stay)+
  have "dev st1 (snd (run_db_blocking E st1 (\<lambda>d. (dedup_entry_by_ref (rq_engine E 0) d ref, d))))" for st1 ref
    by (intro run_db_dev assms) (simp add: dv.stay)
  then show "dev st (snd (prf_disclose L E st i dq))"
    unfolding prf_disclose_def
    by (intro gated_dev) (auto simp: dv.stay split: sum.split prod.split option.split dest: run_db_pair_dev)
qed

lemma ledger_endpoints_dev:
  assumes "env_within develops E"
  shows "drawn_refs E \<Longrightarrow> dev st (snd (dedup_register L E st i rq))"
    and "dev st (snd (dedup_release_handler L E st i lq))"
    and "dev st (snd (dedup_reassign_handler L E st i aq))"
proof -
  have register: "dev st1 (snd (run_db_blocking E st1 (\<lambda>d. register_dedup L (rq_engine E 0) (rq_clock E 0) d
      ref v (rg_owner_handle rq) (rg_badge_type rq))))"
    if "drawn_refs E" "rq_rng E = Ok ref" "register_validate L rq = Ok v" for st1 ref v
    using that by (intro run_db_dev assms ledger_ops_dev(1)) (auto simp: drawn_refs_def dest: register_validate_Ok)
  then show "dev st (snd (dedup_register L E st i rq))" if "drawn_refs E"
    unfolding dedup_register_def using that
    by (intro gated_dev) (auto simp: dv.stay split: sum.split prod.split dedup_register.split dest: run_db_pair_dev)
  have "dev st1 (snd (run_db_blocking E st1 (\<lambda>d. release_dedup L (rq_engine E 0) d ref (rl_owner_handle lq))))"
    for st1 ref
    by (intro run_db_dev assms ledger_ops_dev(2))
  then show "dev st (snd (dedup_release_handler L E st i lq))"
    unfolding dedup_release_handler_def
    by (intro gated_dev) (auto simp: dv.stay split: sum.split prod.split dedup_release.split dest: run_db_pair_dev)
  have "dev st1 (snd (run_db_blocking E st1 (\<lambda>d. reassign_dedup L (rq_engine E 0) d refs
      (ra_from_owner_handle aq) (ra_to_owner_handle aq))))" for st1 refs
    by (intro run_db_dev assms ledger_ops_dev(3))
  then show "dev st (snd (dedup_reassign_handler L E st i aq))"
    unfolding dedup_reassign_handler_def
    by (intro gated_dev) (auto simp: dv.stay split: sum.split prod.split dedup_reassign.split dest: run_db_pair_dev)
qed

subsection \<open>Every step of the service\<close>

lemma handle_route_dev:
  assumes "env_within develops E" and "drawn_refs E" and "handle_route L E st i route q = Some (rep, st')"
  shows "dev st st'"
proof -
  note intros = sign_dev [OF assms(1)] get_key_dev [OF assms(1)] create_key_handler_dev [OF assms(1)]
    rotate_handler_dev [OF assms(1)]
  note endpoints = prf_endpoints_dev [OF assms(1)] ledger_endpoints_dev(1) [OF assms(1,2)]
    ledger_endpoints_dev(2,3) [OF assms(1)]
  show ?thesis
  proof (cases "route \<in> {Healthz, Sign, GetKey, CreateKey, RotateKey}")
    case True
    with assms(3) show ?thesis
      by (auto simp: handle_route_def Let_def dv.stay dest: intros split: req_data.splits prod.splits)
  next
    case False
    with assms(3) show ?thesis
      by (cases route)
        (auto simp: handle_route_def Let_def case_prod_unfold dv.stay intro: endpoints split: req_data.splits)
  qed
qed

lemma handle_dev:
  assumes "env_within develops E" and "drawn_refs E" and "handle L E st req = Some (rep, st')"
  shows "dev st st'"
proof (cases "find_route (router st) (h_method (payload req)) (h_path (payload req))")
  case (Inl code)
  with assms(3) show ?thesis by (simp add: handle_def dv.stay)
next
  case route: (Inr r)
  show ?thesis
  proof (cases "r = Healthz")
    case True
    with route assms(3) show ?thesis by (simp add: handle_def dv.stay)
  next
    case False
    then have "(case from_request_parts req of Err e \<Rightarrow> Some (Reply (into_response e), st)
        | Ok i \<Rightarrow> (case h_data (payload req) of Err code \<Rightarrow> Some (plain code, st)
            | Ok q \<Rightarrow> handle_route L E st i r q)) = Some (rep, st')"
      using route assms(3) by (cases r) (auto simp: handle_def)
    then show ?thesis
      using handle_route_dev [OF assms(1,2)] by (simp add: dv.stay split: sum.splits)
  qed
qed

lemma task_step_db_ok:
  assumes "task_step L s s'" and "db_ok (kg_db s)"
  shows "db_ok (kg_db s')"
  using assms(1)
proof cases
  case (create i E)
  obtain r d where c: "create_key L E (kg_db s) (kg_kek s) (t_group (tasks s ! i)) (kg_bits s) = (r, d)"
    by (cases "create_key L E (kg_db s) (kg_kek s) (t_group (tasks s ! i)) (kg_bits s)")
  with create have "kg_db s' = d"
    by (simp add: worker_create_def)
  then show ?thesis
    using assms(2) create_key_inv [OF _ c] create_key_frame [OF c] ledger_wf_cong [of d "kg_db s"]
    by (simp add: db_ok_def db_inv_def)
qed (use assms(2) in simp_all)

lemma task_step_dev: "task_step L s s' \<Longrightarrow> develops s s'"
  using task_step_evolves task_step_db_ok by (auto simp: develops_def)

text \<open>What a blocking task finds.\<close>

lemma task_db_ok:
  assumes "server_inv st" and "env_within develops E"
  shows "ledger_wf (task_db E st)" and "ledger_inv (task_db E st)"
proof -
  have "server_inv (interfere E 0 st)"
    by (rule develops_inv [OF assms(1) dev_interfere [OF assms(2) dv.stay]])
  then show "ledger_wf (task_db E st)" "ledger_inv (task_db E st)"
    by (simp_all add: server_inv_def db_inv_def)
qed

subsection \<open>The gates, as the router sees them\<close>

lemma find_route_listed:
  assumes "find_route table m path = Ok r"
  shows "\<exists>ms m'. (path, ms) \<in> set table \<and> (m', r) \<in> set ms"
  using assms by (auto simp: find_route_def dest!: map_of_SomeD split: option.splits)

lemma router_listed:
  assumes "find_route (router st) m path = Ok r"
  shows "\<exists>ms m'. (path, ms) \<in> set base_routes \<union> set prf_routes \<and> (m', r) \<in> set ms"
  using find_route_listed [OF assms] by (auto simp: router_def split: if_splits)

lemma find_route_healthz: "find_route (router st) m path = Ok Healthz \<Longrightarrow> path = ''/healthz''"
  by (drule router_listed) (auto simp: base_routes_def prf_routes_def)

lemma find_route_prf:
  assumes "find_route (router st) m path = Ok r" and "path \<in> set (map fst prf_routes)"
  shows "r \<in> {Pairwise, Evaluate, PublicKey, Disclose, DedupRegister, DedupRelease, DedupReassign}"
proof -
  have "(path, ms) \<notin> set base_routes" for ms
    using assms(2) by (auto simp: base_routes_def prf_routes_def)
  then have "\<exists>ms m'. (path, ms) \<in> set prf_routes \<and> (m', r) \<in> set ms"
    using router_listed [OF assms(1)] by blast
  then show ?thesis by (auto simp: prf_routes_def)
qed

lemma find_route_base:
  assumes "find_route (router st) m path = Ok r" and "path \<in> {''/sign'', ''/key'', ''/key/rotate''}"
  shows "r \<in> {Sign, GetKey, CreateKey, RotateKey}"
proof -
  have "(path, ms) \<notin> set prf_routes" for ms
    using assms(2) by (auto simp: prf_routes_def)
  then have "\<exists>ms m'. (path, ms) \<in> set base_routes \<and> (m', r) \<in> set ms"
    using router_listed [OF assms(1)] by blast
  with assms(2) show ?thesis by (auto simp: base_routes_def)
qed

lemma render_Err [simp]: "render f (Err e) = Reply (into_response e)"
  by (simp add: render_def)

lemma unauthorized_endpoints:
  assumes "\<not> prf_authorized st i" and "app_prf st \<noteq> None"
  shows "prf_pairwise L E st i s = (Err prf_forbidden, st)" and "prf_evaluate L E st i s = (Err prf_forbidden, st)"
    and "prf_public_key L E st i u = (Err prf_forbidden, st)" and "prf_disclose L E st i dq = (Err prf_forbidden, st)"
    and "dedup_register L E st i rq = (Err prf_forbidden, st)"
    and "dedup_release_handler L E st i lq = (Err prf_forbidden, st)"
    and "dedup_reassign_handler L E st i aq = (Err prf_forbidden, st)"
  using pe_pairwise.unauthorized [OF assms(1)] pe_evaluate.unauthorized [OF assms(1)]
    pe_public_key.unauthorized [OF assms(1)] pe_disclose.unauthorized [OF assms(1)]
    pe_register.unauthorized [OF assms(1)] pe_release.unauthorized [OF assms(1)]
    pe_reassign.unauthorized [OF assms(1)] assms(2)
  by metis+

lemma handle_route_unauthorized:
  assumes "\<not> prf_authorized st i" and "app_prf st \<noteq> None"
    and "r \<in> {Pairwise, Evaluate, PublicKey, Disclose, DedupRegister, DedupRelease, DedupReassign}"
    and "handle_route L E st i r q = Some (rep, st')"
  shows "st' = st \<and> rep \<in> {Reply (into_response prf_forbidden), plain 422}"
  using assms(3,4)
  by (elim insertE emptyE; cases q)
    (simp_all add: handle_route_def unauthorized_endpoints [OF assms(1,2)])

lemma handle_route_no_sign:
  assumes "\<not> may_sign i" and "r \<in> {Sign, GetKey, CreateKey, RotateKey}"
    and "handle_route L E st i r q = Some (rep, st')"
  shows "st' = st \<and> rep \<in> {Reply (into_response
      (Forbidden ''this identity is authorized only for the PRF surface'')), plain 422}"
proof -
  have req: "require_sign_surface i = Err (Forbidden ''this identity is authorized only for the PRF surface'')"
    using assms(1) by (simp add: require_sign_surface_def)
  show ?thesis
    using assms(2,3)
    by (elim insertE emptyE; cases q)
      (simp_all add: handle_route_def req sign_def sign_validate_def get_key_def create_key_handler_def
        rotate_key_handler_def key_gate_def)
qed

end
