(* ===== verification/Config.thy ===== *)
theory Config
  imports Keystore
begin

text \<open>
  Configuration from the environment (\<open>src/config.rs\<close>). The process environment is a map that the
  functions read and, for the two secrets, remove entries from (\<open>std::env::var\<close> fails on unset
  and on non-Unicode variables, both absent here). Parsing of socket addresses is the argument
  \<open>addr\<close>; integers and booleans parse as \<open>FromStr\<close> does. Each error text is a constructor.
\<close>

type_synonym environ = "string \<rightharpoonup> string"

datatype config_error =
    MissingEnv string
  | InvalidEnv string string
  | KekInvalid string
  | KeyBitsOutOfRange nat
  | KeygenConcurrencyZero

record config =
  cfg_bind :: string
  cfg_db_path :: string
  cfg_tls_cert :: string
  cfg_tls_key :: string
  cfg_client_ca :: string
  cfg_kek :: kek
  cfg_auto_create_keys :: bool
  cfg_rl_participant_max :: u32
  cfg_rl_global_max :: u32
  cfg_rl_window_secs :: u64
  cfg_key_bits :: nat
  cfg_allowed_client_ids :: "string set"
  cfg_admin_ids :: "string set"
  cfg_keygen_max_concurrent :: nat
  cfg_rl_key_identity_max :: u32
  cfg_rl_key_global_max :: u32
  cfg_prf_client_ids :: "string set"
  cfg_dedup_pubkey_pin :: "string option"
  cfg_import_pairwise_hmac :: "bytes option"
  cfg_rl_prf_identity_max :: u32
  cfg_rl_prf_global_max :: u32

subsection \<open>Parsing\<close>

definition digit_val :: "char \<Rightarrow> nat option" where
  "digit_val c = (let n = of_char c :: nat in if 48 \<le> n \<and> n \<le> 57 then Some (n - 48) else None)"

text \<open>The accumulator loop of \<open>FromStr\<close> for unsigned integers of \<open>w\<close> bits: overflow is an error.\<close>

fun parse_digits :: "nat \<Rightarrow> nat \<Rightarrow> string \<Rightarrow> nat option" where
  "parse_digits w acc [] = Some acc"
| "parse_digits w acc (c # s) =
     (case digit_val c of
        None \<Rightarrow> None
      | Some v \<Rightarrow> if 2 ^ w \<le> acc * 10 + v then None else parse_digits w (acc * 10 + v) s)"

fun parse_uint :: "nat \<Rightarrow> string \<Rightarrow> nat option" where
  "parse_uint w [] = None"
| "parse_uint w (c # s) =
     (if c = CHR ''+'' then (if s = [] then None else parse_digits w 0 s)
      else parse_digits w 0 (c # s))"

definition parse_bool :: "string \<Rightarrow> bool option" where
  "parse_bool s = (if s = ''true'' then Some True else if s = ''false'' then Some False else None)"

text \<open>\<open>str::split(',')\<close>.\<close>

fun split_commas :: "string \<Rightarrow> string \<Rightarrow> string list" where
  "split_commas acc [] = [rev acc]"
| "split_commas acc (c # s) = (if c = CHR '','' then rev acc # split_commas [] s else split_commas (c # acc) s)"

definition env_id_set :: "environ \<Rightarrow> string \<Rightarrow> string set" where
  "env_id_set env key =
     (case env key of
        Some v \<Rightarrow> set (filter (\<lambda>s. s \<noteq> []) (map str_trim (split_commas [] v)))
      | None \<Rightarrow> {})"

definition env_required :: "environ \<Rightarrow> string \<Rightarrow> config_error + string" where
  "env_required env key = ok_or (MissingEnv key) (env key)"

definition env_or :: "(string \<Rightarrow> 'a option) \<Rightarrow> environ \<Rightarrow> string \<Rightarrow> 'a \<Rightarrow> config_error + 'a" where
  "env_or parse env key dflt =
     (case env key of
        Some v \<Rightarrow> ok_or (InvalidEnv key v) (parse v)
      | None \<Rightarrow> Ok dflt)"

abbreviation env_usize where "env_usize \<equiv> env_or (parse_uint 64)"
abbreviation env_u32 :: "environ \<Rightarrow> string \<Rightarrow> u32 \<Rightarrow> config_error + u32" where
  "env_u32 \<equiv> env_or (\<lambda>s. map_option word_of_nat (parse_uint 32 s))"
abbreviation env_u64 :: "environ \<Rightarrow> string \<Rightarrow> u64 \<Rightarrow> config_error + u64" where
  "env_u64 \<equiv> env_or (\<lambda>s. map_option word_of_nat (parse_uint 64 s))"

subsection \<open>Secrets\<close>

definition consume_kek_env :: "libs \<Rightarrow> environ \<Rightarrow> (config_error + kek) \<times> environ" where
  "consume_kek_env L env =
     (case env_required env ''SIGNET_KEK'' of
        Err e \<Rightarrow> (Err e, env)
      | Ok raw \<Rightarrow> (map_err KekInvalid (kek_from_encoded L raw), env(''SIGNET_KEK'' := None)))"

definition consume_pairwise_import_env :: "environ \<Rightarrow> bytes option \<times> environ" where
  "consume_pairwise_import_env env =
     (case env ''SIGNET_IMPORT_PAIRWISE_HMAC'' of
        Some raw \<Rightarrow> (Some (str_bytes raw), env(''SIGNET_IMPORT_PAIRWISE_HMAC'' := None))
      | None \<Rightarrow> (None, env))"

definition db_path_from_env :: "environ \<Rightarrow> config_error + string" where
  "db_path_from_env env = env_or Some env ''SIGNET_DB'' ''signet.db''"

subsection \<open>Config::from_env\<close>

text \<open>The part before the secrets are touched, and the part after.\<close>

definition read_paths ::
  "(string \<Rightarrow> bool) \<Rightarrow> environ \<Rightarrow> config_error + string \<times> string \<times> string \<times> string \<times> string" where
  "read_paths addr env =
     bind_res (env_or (\<lambda>s. if addr s then Some s else None) env ''SIGNET_BIND'' ''0.0.0.0:8443'') (\<lambda>bind.
     bind_res (db_path_from_env env) (\<lambda>db_path.
     bind_res (env_required env ''SIGNET_TLS_CERT'') (\<lambda>cert.
     bind_res (env_required env ''SIGNET_TLS_KEY'') (\<lambda>key.
     bind_res (env_required env ''SIGNET_CLIENT_CA'') (\<lambda>ca.
     Ok (bind, db_path, cert, key, ca))))))"

definition read_key_bits :: "environ \<Rightarrow> config_error + nat" where
  "read_key_bits env =
     bind_res (env_usize env ''SIGNET_KEY_BITS'' 2048) (\<lambda>bits.
     if \<not> (2048 \<le> bits \<and> bits \<le> 4096) \<or> bits mod 16 \<noteq> 0 then Err (KeyBitsOutOfRange bits)
     else Ok bits)"

definition read_keygen_max :: "environ \<Rightarrow> config_error + nat" where
  "read_keygen_max env =
     bind_res (env_usize env ''SIGNET_KEYGEN_MAX_CONCURRENT'' 2) (\<lambda>n.
     if n = 0 then Err KeygenConcurrencyZero else Ok n)"

definition read_rest ::
  "environ \<Rightarrow> string \<times> string \<times> string \<times> string \<times> string \<Rightarrow> kek \<Rightarrow> bytes option \<Rightarrow> config_error + config" where
  "read_rest env paths k import =
     (case paths of (bind, db_path, cert, key, ca) \<Rightarrow>
      bind_res (read_key_bits env) (\<lambda>key_bits.
      bind_res (read_keygen_max env) (\<lambda>keygen_max.
      bind_res (env_or parse_bool env ''SIGNET_AUTO_CREATE_KEYS'' True) (\<lambda>auto.
      bind_res (env_u32 env ''SIGNET_RL_PARTICIPANT_MAX'' 5) (\<lambda>p_max.
      bind_res (env_u32 env ''SIGNET_RL_GLOBAL_MAX'' 1000) (\<lambda>g_max.
      bind_res (env_u64 env ''SIGNET_RL_WINDOW_SECS'' 60) (\<lambda>window.
      bind_res (env_u32 env ''SIGNET_RL_KEY_IDENTITY_MAX'' 10) (\<lambda>ki_max.
      bind_res (env_u32 env ''SIGNET_RL_KEY_GLOBAL_MAX'' 100) (\<lambda>kg_max.
      bind_res (env_u32 env ''SIGNET_RL_PRF_IDENTITY_MAX'' 1000) (\<lambda>pi_max.
      bind_res (env_u32 env ''SIGNET_RL_PRF_GLOBAL_MAX'' 5000) (\<lambda>pg_max.
      Ok \<lparr>cfg_bind = bind, cfg_db_path = db_path, cfg_tls_cert = cert, cfg_tls_key = key,
          cfg_client_ca = ca, cfg_kek = k, cfg_auto_create_keys = auto,
          cfg_rl_participant_max = p_max, cfg_rl_global_max = g_max, cfg_rl_window_secs = window,
          cfg_key_bits = key_bits,
          cfg_allowed_client_ids = env_id_set env ''SIGNET_ALLOWED_CLIENT_IDS'',
          cfg_admin_ids = env_id_set env ''SIGNET_ADMIN_IDS'',
          cfg_keygen_max_concurrent = keygen_max,
          cfg_rl_key_identity_max = ki_max, cfg_rl_key_global_max = kg_max,
          cfg_prf_client_ids = env_id_set env ''SIGNET_PRF_CLIENT_IDS'',
          cfg_dedup_pubkey_pin = env ''SIGNET_DEDUP_PUBKEY_PIN'',
          cfg_import_pairwise_hmac = import,
          cfg_rl_prf_identity_max = pi_max, cfg_rl_prf_global_max = pg_max\<rparr>)))))))))))"

definition from_env :: "libs \<Rightarrow> (string \<Rightarrow> bool) \<Rightarrow> environ \<Rightarrow> (config_error + config) \<times> environ" where
  "from_env L addr env =
     (case read_paths addr env of
        Err e \<Rightarrow> (Err e, env)
      | Ok paths \<Rightarrow>
          (case consume_kek_env L env of
             (Err e, env) \<Rightarrow> (Err e, env)
           | (Ok k, env) \<Rightarrow>
               let (import, env) = consume_pairwise_import_env env in
               (read_rest env paths k import, env)))"

subsection \<open>Lemmas\<close>

lemma digit_val_char: "d < 10 \<Longrightarrow> digit_val (digit_char d) = Some d"
  by (simp add: digit_val_def digit_char_def)

text \<open>Printing and parsing a number are inverse.\<close>

lemma parse_digits_append:
  "parse_digits w acc (s @ [c]) =
     Option.bind (parse_digits w acc s) (\<lambda>a. parse_digits w a [c])"
  by (induction w acc s rule: parse_digits.induct) (auto split: option.splits)

lemma parse_digits_show: "n < 2 ^ w \<Longrightarrow> parse_digits w 0 (show_nat n) = Some n"
proof (induction n rule: show_nat.induct)
  case (1 n)
  show ?case
  proof (cases "n < 10")
    case True
    then show ?thesis
      using 1(2) by (simp add: show_nat.simps [of n] digit_val_char)
  next
    case False
    have "n div 10 < 2 ^ w"
      using 1(2) by (meson div_le_dividend le_less_trans)
    with 1(1) False have "parse_digits w 0 (show_nat (n div 10)) = Some (n div 10)"
      by simp
    with False 1(2) show ?thesis
      by (simp add: show_nat.simps [of n] parse_digits_append digit_val_char)
  qed
qed

lemma show_nat_head: "\<exists>d s. show_nat n = digit_char d # s \<and> d < 10"
proof (induction n rule: show_nat.induct)
  case (1 n)
  then show ?case
    by (cases "n < 10") (auto simp: show_nat.simps [of n])
qed

lemma parse_show: "n < 2 ^ w \<Longrightarrow> parse_uint w (show_nat n) = Some n"
proof -
  assume n: "n < 2 ^ w"
  obtain d s where ds: "show_nat n = digit_char d # s" "d < 10"
    using show_nat_head by blast
  have "digit_char d \<noteq> CHR ''+''"
    using digit_val_char [OF ds(2)] by (auto simp: digit_val_def)
  with parse_digits_show [OF n] show ?thesis
    by (simp add: ds(1))
qed

lemma parse_digits_bound: "parse_digits w acc s = Some n \<Longrightarrow> acc < 2 ^ w \<Longrightarrow> n < 2 ^ w"
  by (induction w acc s rule: parse_digits.induct) (auto split: option.splits if_splits)

lemma split_commas_no_comma:
  "x \<in> set (split_commas acc s) \<Longrightarrow> CHR '','' \<notin> set acc \<Longrightarrow> CHR '','' \<notin> set x"
  by (induction acc s rule: split_commas.induct) (auto split: if_splits)

lemma consume_kek_removed:
  "consume_kek_env L env = (r, env') \<Longrightarrow> env' ''SIGNET_KEK'' = None"
  by (auto simp: consume_kek_env_def env_required_def ok_or_def split: sum.splits option.splits)

lemma consume_import_removed:
  "consume_pairwise_import_env env = (r, env') \<Longrightarrow> env' ''SIGNET_IMPORT_PAIRWISE_HMAC'' = None \<and>
     (env k = None \<longrightarrow> env' k = None)"
  by (auto simp: consume_pairwise_import_env_def split: option.splits)

lemma consume_import_exact:
  "consume_pairwise_import_env env = (r, env') \<Longrightarrow>
     r = map_option str_bytes (env ''SIGNET_IMPORT_PAIRWISE_HMAC'')"
  by (auto simp: consume_pairwise_import_env_def split: option.splits)

lemma from_env_Ok:
  assumes "from_env L addr env = (Ok cfg, env')"
  obtains paths raw where "read_paths addr env = Ok paths" and "env ''SIGNET_KEK'' = Some raw"
    and "kek_from_encoded L raw = Ok (cfg_kek cfg)"
    and "read_rest env' paths (cfg_kek cfg) (map_option str_bytes (env ''SIGNET_IMPORT_PAIRWISE_HMAC'')) = Ok cfg"
    and "env' = env(''SIGNET_KEK'' := None, ''SIGNET_IMPORT_PAIRWISE_HMAC'' := None)"
proof -
  from assms obtain paths k env1 where p: "read_paths addr env = Ok paths"
    and c: "consume_kek_env L env = (Ok k, env1)"
    and i: "consume_pairwise_import_env env1 = (map_option str_bytes (env1 ''SIGNET_IMPORT_PAIRWISE_HMAC''), env')"
    and r: "read_rest env' paths k (map_option str_bytes (env1 ''SIGNET_IMPORT_PAIRWISE_HMAC'')) = Ok cfg"
    by (auto simp: from_env_def split: sum.splits prod.splits dest: consume_import_exact)
  from c obtain raw where raw: "env ''SIGNET_KEK'' = Some raw" "kek_from_encoded L raw = Ok k"
    "env1 = env(''SIGNET_KEK'' := None)"
    by (auto simp: consume_kek_env_def env_required_def ok_or_def split: sum.splits option.splits)
  moreover have "cfg_kek cfg = k"
    using r by (auto simp: read_rest_def bind_res_Ok_iff split: prod.splits)
  moreover have "env' = env1(''SIGNET_IMPORT_PAIRWISE_HMAC'' := None)"
    using i by (auto simp: consume_pairwise_import_env_def split: option.splits)
  ultimately show thesis
    using p r by (intro that) simp_all
qed

lemma read_rest_checks:
  assumes "read_rest env paths k imp = Ok cfg"
  shows "2048 \<le> cfg_key_bits cfg \<and> cfg_key_bits cfg \<le> 4096 \<and> 16 dvd cfg_key_bits cfg \<and>
    1 \<le> cfg_keygen_max_concurrent cfg"
  using assms by (auto simp: read_rest_def read_key_bits_def read_keygen_max_def bind_res_Ok_iff
      split: prod.splits if_splits)

end
