(* ===== verification/Tls.thy ===== *)
theory Tls
  imports Signet_Prelude
begin

text \<open>
  The mutual-TLS configuration (\<open>src/tls.rs\<close>). Reading files, PEM parsing and the rustls builders are
  parameters. A built configuration is what the handshake will rely on: the certificate chain and key
  it presents, the trust roots of the mandatory client verifier, and the ALPN protocols.
\<close>

record tls_libs =
  fs_read :: "string \<Rightarrow> string + bytes"
  pem_certs :: "bytes \<Rightarrow> string + bytes list"
  pem_private_key :: "bytes \<Rightarrow> string + bytes option"
  root_add :: "bytes list \<Rightarrow> bytes \<Rightarrow> string + bytes list"
  verifier_build :: "bytes list \<Rightarrow> string + unit"
  server_build :: "bytes list \<Rightarrow> bytes \<Rightarrow> string + unit"

datatype client_auth = NoClientAuth | Mandatory "bytes list"

record server_config =
  sc_certs :: "bytes list"
  sc_key :: bytes
  sc_client_auth :: client_auth
  sc_alpn :: "string list"

definition load_certs :: "tls_libs \<Rightarrow> string \<Rightarrow> string + bytes list" where
  "load_certs T path =
     bind_res (map_err (\<lambda>e. ''read '' @ path @ '': '' @ e) (fs_read T path)) (\<lambda>data.
     bind_res (map_err (\<lambda>e. ''parse certs '' @ path @ '': '' @ e) (pem_certs T data)) (\<lambda>certs.
     if certs = [] then Err (''no certificates in '' @ path) else Ok certs))"

definition load_private_key :: "tls_libs \<Rightarrow> string \<Rightarrow> string + bytes" where
  "load_private_key T path =
     bind_res (map_err (\<lambda>e. ''read '' @ path @ '': '' @ e) (fs_read T path)) (\<lambda>data.
     bind_res (map_err (\<lambda>e. ''parse key '' @ path @ '': '' @ e) (pem_private_key T data)) (\<lambda>k.
     ok_or (''no private key in '' @ path) k))"

primrec add_roots :: "tls_libs \<Rightarrow> string \<Rightarrow> bytes list \<Rightarrow> bytes list \<Rightarrow> string + bytes list" where
  "add_roots T path store [] = Ok store"
| "add_roots T path store (c # cs) =
     bind_res (map_err (\<lambda>e. ''add CA cert from '' @ path @ '': '' @ e) (root_add T store c))
       (\<lambda>store'. add_roots T path store' cs)"

definition load_root_store :: "tls_libs \<Rightarrow> string \<Rightarrow> string + bytes list" where
  "load_root_store T path = bind_res (load_certs T path) (add_roots T path [])"

definition build_server_config :: "tls_libs \<Rightarrow> string \<Rightarrow> string \<Rightarrow> string \<Rightarrow> string + server_config" where
  "build_server_config T cert_pem key_pem ca_pem =
     bind_res (load_certs T cert_pem) (\<lambda>certs.
     bind_res (load_private_key T key_pem) (\<lambda>key.
     bind_res (load_root_store T ca_pem) (\<lambda>roots.
     bind_res (map_err (\<lambda>e. ''client verifier build failed: '' @ e) (verifier_build T roots)) (\<lambda>_.
     bind_res (map_err (\<lambda>e. ''server config build failed: '' @ e) (server_build T certs key)) (\<lambda>_.
     Ok \<lparr>sc_certs = certs, sc_key = key, sc_client_auth = Mandatory roots, sc_alpn = [''http/1.1'']\<rparr>)))))"

text \<open>\<open>rustls\<close>: adding a trust anchor appends it.\<close>

definition root_add_spec :: "tls_libs \<Rightarrow> bool" where
  "root_add_spec T \<longleftrightarrow> (\<forall>store c store'. root_add T store c = Ok store' \<longrightarrow> store' = store @ [c])"

lemma add_roots_all: "root_add_spec T \<Longrightarrow> add_roots T path store cs = Ok store' \<Longrightarrow> store' = store @ cs"
  by (induction cs arbitrary: store) (fastforce simp: root_add_spec_def bind_res_Ok_iff)+

lemma build_client_auth:
  assumes "root_add_spec T" and "build_server_config T cert key ca = Ok cfg"
  shows "\<exists>roots. sc_client_auth cfg = Mandatory roots \<and> roots \<noteq> [] \<and> load_certs T ca = Ok roots"
proof -
  from assms(2) obtain roots where "load_root_store T ca = Ok roots"
    and "sc_client_auth cfg = Mandatory roots"
    by (auto simp: build_server_config_def bind_res_Ok_iff)
  moreover from this obtain cs where cs: "load_certs T ca = Ok cs" and "add_roots T ca [] cs = Ok roots"
    by (auto simp: load_root_store_def bind_res_Ok_iff)
  then have "roots = cs"
    using add_roots_all [OF assms(1)] by fastforce
  moreover have "cs \<noteq> []"
    using cs by (auto simp: load_certs_def bind_res_Ok_iff split: if_splits)
  ultimately show ?thesis using cs by simp
qed

end
