(* ===== verification/Boot.thy ===== *)
theory Boot
  imports Server_Properties Config Tls
begin

text \<open>
  The entry point (\<open>src/main.rs\<close>): the one-shot initialisation of the service keys and the ordinary
  boot. The database file is \<open>None\<close> while it does not exist. A start consumes a \<open>boot_io\<close>: the first
  command-line argument, the surroundings of its database calls, and the outcome of the steps that
  only touch the operating system. The async runtime and logging are not modelled.
\<close>

record boot_io =
  io_arg1 :: "string option"
  io_addr :: "string \<Rightarrow> bool"
  io_open :: engine
  io_boot :: boot_env
  io_provider :: bool
  io_runtime :: "string option"
  io_tls :: tls_libs
  io_bind :: "string option"
  io_max_permits :: nat

datatype start_error =
    ConfigFailed config_error
  | RuntimeFailed string
  | ProviderFailed
  | OpenFailed string
  | Refused refusal
  | TlsFailed string
  | BindFailed string
  | PermitsPanic

subsection \<open>Initialisation mode\<close>

definition is_init_mode :: "boot_io \<Rightarrow> environ \<Rightarrow> bool" where
  "is_init_mode io env \<longleftrightarrow>
     io_arg1 io = Some ''init-service-keys'' \<or> env ''SIGNET_INIT_SERVICE_KEYS'' = Some ''1''"

definition run_init_service_keys ::
  "libs \<Rightarrow> boot_io \<Rightarrow> environ \<Rightarrow> db option \<Rightarrow> (start_error + string) \<times> environ \<times> db option" where
  "run_init_service_keys L io env file =
     (let pin_configured = env ''SIGNET_DEDUP_PUBKEY_PIN'' \<noteq> None;
          (import, env) = consume_pairwise_import_env env
      in case check_init_preconditions pin_configured (import \<noteq> None) of
           Err e \<Rightarrow> (Err (Refused e), env, file)
         | Ok _ \<Rightarrow>
             (case consume_kek_env L env of
                (Err e, env) \<Rightarrow> (Err (ConfigFailed e), env, file)
              | (Ok k, env) \<Rightarrow>
                  (case db_path_from_env env of
                     Err e \<Rightarrow> (Err (ConfigFailed e), env, file)
                   | Ok _ \<Rightarrow>
                       (case db_open (io_open io) file of
                          Err e \<Rightarrow> (Err (OpenFailed e), env, file)
                        | Ok d \<Rightarrow>
                            let (r, d') = init_service_keys L (io_boot io) d k in
                            (map_err Refused r, env, Some d')))))"

subsection \<open>Ordinary boot\<close>

definition prf_state_of :: "config \<Rightarrow> prf_boot \<Rightarrow> prf_state option" where
  "prf_state_of cfg b =
     (case b of
        Disabled \<Rightarrow> None
      | Enabled keys \<Rightarrow>
          Some \<lparr>ps_keys = keys, allowed_client_ids = cfg_prf_client_ids cfg,
                ps_limiter = krl_new (cfg_rl_prf_identity_max cfg) (cfg_rl_prf_global_max cfg) (cfg_rl_window_secs cfg),
                ps_rl = krl_state0\<rparr>)"

definition app_state_of :: "config \<Rightarrow> db \<Rightarrow> prf_boot \<Rightarrow> app_state" where
  "app_state_of cfg d b =
     \<lparr>app_kg = keygen_new d (cfg_kek cfg) (cfg_key_bits cfg) (cfg_keygen_max_concurrent cfg),
      app_kek = cfg_kek cfg,
      app_rate_limiter = rl_new (cfg_rl_participant_max cfg) (cfg_rl_global_max cfg) (cfg_rl_window_secs cfg),
      app_key_limiter = krl_new (cfg_rl_key_identity_max cfg) (cfg_rl_key_global_max cfg) (cfg_rl_window_secs cfg),
      app_key_rl = krl_state0,
      auto_create_keys = cfg_auto_create_keys cfg, app_key_bits = cfg_key_bits cfg,
      app_prf = prf_state_of cfg b\<rparr>"

definition policy_of :: "config \<Rightarrow> identity_policy" where
  "policy_of cfg =
     \<lparr>allowed_clients = cfg_allowed_client_ids cfg, admins = cfg_admin_ids cfg,
      prf_clients = cfg_prf_client_ids cfg\<rparr>"

definition boot_args :: "config \<Rightarrow> prf_boot_args" where
  "boot_args cfg =
     \<lparr>prf_clients_configured = cfg_prf_client_ids cfg \<noteq> {},
      dedup_pubkey_pin = cfg_dedup_pubkey_pin cfg,
      import_pairwise = cfg_import_pairwise_hmac cfg\<rparr>"

record started =
  st_app :: app_state
  st_policy :: identity_policy
  st_tls :: server_config

text \<open>
  The outcome and the database file: the service that starts serving, or the error that ends the boot. The
  semaphore of tokio panics when it is created with more than its maximal number of permits
  (\<open>io_max_permits\<close>, documented as \<open>usize::MAX >> 3\<close>), which the configuration accepts; a panic ends the
  process (\<open>panic = "abort"\<close>).
\<close>

definition run :: "libs \<Rightarrow> boot_io \<Rightarrow> config \<Rightarrow> db option \<Rightarrow> (start_error + started) \<times> db option" where
  "run L io cfg file =
     (if \<not> io_provider io then (Err ProviderFailed, file)
      else
        (case db_open (io_open io) file of
           Err e \<Rightarrow> (Err (OpenFailed e), file)
         | Ok d \<Rightarrow>
             (case prepare_prf_boot L (io_boot io) d (cfg_kek cfg) (boot_args cfg) of
                (Err e, d) \<Rightarrow> (Err (Refused e), Some d)
              | (Ok b, d) \<Rightarrow>
                  if io_max_permits io < max (cfg_keygen_max_concurrent cfg) 1 then (Err PermitsPanic, Some d)
                  else
                  (case build_server_config (io_tls io) (cfg_tls_cert cfg) (cfg_tls_key cfg) (cfg_client_ca cfg) of
                     Err e \<Rightarrow> (Err (TlsFailed e), Some d)
                   | Ok tls \<Rightarrow>
                       (case io_bind io of
                          Some e \<Rightarrow> (Err (BindFailed e), Some d)
                        | None \<Rightarrow>
                            (Ok \<lparr>st_app = app_state_of cfg d b, st_policy = policy_of cfg, st_tls = tls\<rparr>,
                             Some d))))))"

datatype main_outcome = Printed string | ServingApp started | Exit1 start_error | ProcessAborted

definition main_fn ::
  "libs \<Rightarrow> boot_io \<Rightarrow> environ \<Rightarrow> db option \<Rightarrow> main_outcome \<times> environ \<times> db option" where
  "main_fn L io env file =
     (if is_init_mode io env then
        (case run_init_service_keys L io env file of
           (Ok pk, rest) \<Rightarrow> (Printed pk, rest)
         | (Err e, rest) \<Rightarrow> (Exit1 e, rest))
      else
        (case from_env L (io_addr io) env of
           (Err e, env) \<Rightarrow> (Exit1 (ConfigFailed e), env, file)
         | (Ok cfg, env) \<Rightarrow>
             (case io_runtime io of
                Some e \<Rightarrow> (Exit1 (RuntimeFailed e), env, file)
              | None \<Rightarrow>
                  (case run L io cfg file of
                     (Ok s, file) \<Rightarrow> (ServingApp s, env, file)
                   | (Err PermitsPanic, file) \<Rightarrow> (ProcessAborted, env, file)
                   | (Err e, file) \<Rightarrow> (Exit1 e, env, file)))))"

subsection \<open>Lemmas\<close>

definition file_blob :: "db option \<Rightarrow> string \<Rightarrow> bytes option" where
  "file_blob file p = Option.bind file (\<lambda>d. service_blob d p)"

lemma empty_blob [simp]: "service_blob empty_tables p = None"
  by (simp add: service_blob_def empty_tables_def)

lemma db_open_blob: "db_open eng file = Ok d \<Longrightarrow> service_blob d p = file_blob file p"
  by (auto simp: db_open_def bind_res_Ok_iff file_blob_def split: option.splits)

text \<open>A node with a pin never mints: its database file is not even opened.\<close>

lemma pinned_never_mints:
  assumes "env ''SIGNET_DEDUP_PUBKEY_PIN'' \<noteq> None"
  shows "\<exists>env'. run_init_service_keys L io env file = (Err (Refused InitPinned), env', file)"
  using assms by (cases "consume_pairwise_import_env env")
    (simp add: run_init_service_keys_def check_init_preconditions_def)

lemma prepare_keeps_master:
  assumes "quiet E" and "prepare_prf_boot L E d k args = (r, d')"
  shows "service_blob d' MASTER_SEED_PURPOSE = service_blob d MASTER_SEED_PURPOSE"
proof (cases r)
  case (Inl e)
  with assms show ?thesis by (auto dest: prepare_Err)
next
  case (Inr b)
  show ?thesis
  proof (cases b)
    case Disabled
    have "d' = d"
      using assms Inr Disabled by (auto simp: prepare_prf_boot_def boot_enabled_def
          split: prod.splits sum.splits option.splits bool.splits if_splits dest!: boot_get_quiet)
    then show ?thesis by simp
  next
    case (Enabled keys)
    with assms Inr obtain sealed where "service_blob (be_other E 0 d) MASTER_SEED_PURPOSE = Some sealed"
      by (auto elim: prepare_Enabled)
    then have "service_blob d MASTER_SEED_PURPOSE = Some sealed"
      using assms(1) by (simp add: quiet_def)
    with extendsD [OF prepare_extends [OF quiet_respectful [OF assms(1)] assms(2)]] show ?thesis
      by simp
  qed
qed

lemma run_keeps_master:
  assumes "quiet (io_boot io)" and "run L io cfg file = (r, file')"
  shows "file_blob file' MASTER_SEED_PURPOSE = file_blob file MASTER_SEED_PURPOSE"
  using assms db_open_blob prepare_keeps_master [OF assms(1)]
  by (fastforce simp: run_def file_blob_def split: if_splits sum.splits prod.splits option.splits)

lemma run_Ok:
  assumes "run L io cfg file = (Ok s, file')"
  obtains d0 d b where "db_open (io_open io) file = Ok d0"
    and "prepare_prf_boot L (io_boot io) d0 (cfg_kek cfg) (boot_args cfg) = (Ok b, d)"
    and "st_app s = app_state_of cfg d b" and "st_policy s = policy_of cfg" and "file' = Some d"
    and "build_server_config (io_tls io) (cfg_tls_cert cfg) (cfg_tls_key cfg) (cfg_client_ca cfg) = Ok (st_tls s)"
  using assms by (auto simp: run_def split: if_splits sum.splits prod.splits option.splits)

lemma prepare_other_tables:
  assumes "quiet E" and "prepare_prf_boot L E d k args = (r, d')" and "db_inv d" and "ledger_wf d"
  shows "db_inv d' \<and> ledger_wf d'"
proof -
  have put: "db_inv d2 \<and> ledger_wf d2" if p: "boot_put E i d1 p b = (x, d2)" "db_inv d1 \<and> ledger_wf d1" for i d1 d2 p b x
  proof -
    obtain y where y: "insert_service_key (be_engine E i) (be_clock E) d1 p b = (y, d2)"
      using p(1) assms(1)
      by (cases "insert_service_key (be_engine E i) (be_clock E) d1 p b") (simp add: boot_put_def quiet_def)
    show ?thesis
      using p(2) insert_service_inv [OF _ y] insert_service_frame [OF y] ledger_wf_cong [of d2 d1]
      by (simp add: db_inv_def)
  qed
  have persist: "db_inv d2 \<and> ledger_wf d2" if "persist_import L E d1 k sec = (x, d2)" "db_inv d1 \<and> ledger_wf d1"
    for d1 d2 sec x
    using that by (auto simp: persist_import_def split: sum.splits prod.splits bool.splits dest!: put)
  have enabled: "db_inv d2 \<and> ledger_wf d2" if "boot_enabled L E d1 k args sl = (x, d2)" "db_inv d1 \<and> ledger_wf d1"
    for d1 d2 sl x
    using that by (auto simp: boot_enabled_def split: option.splits sum.splits prod.splits if_splits bool.splits
        dest!: resolve_quiet [OF assms(1)] persist)
  show ?thesis
    using assms(2-4) by (auto simp: prepare_prf_boot_def split: option.splits sum.splits prod.splits bool.splits
        dest!: boot_get_quiet [OF assms(1)] enabled)
qed

lemma started_inv:
  assumes "quiet (io_boot io)" and "run L io cfg file = (Ok s, file')"
    and "\<forall>d. file = Some d \<longrightarrow> db_inv d \<and> ledger_wf d"
  shows "server_inv (st_app s)" and "stock (app_kg (st_app s)) = max (cfg_keygen_max_concurrent cfg) 1"
proof -
  have "server_inv (st_app s) \<and> stock (app_kg (st_app s)) = max (cfg_keygen_max_concurrent cfg) 1"
    using assms(2)
  proof (rule run_Ok)
    fix d0 d b
    assume d0: "db_open (io_open io) file = Ok d0"
      and b: "prepare_prf_boot L (io_boot io) d0 (cfg_kek cfg) (boot_args cfg) = (Ok b, d)"
      and s: "st_app s = app_state_of cfg d b"
    have "db_inv d0 \<and> ledger_wf d0"
      using d0 assms(3) by (auto simp: db_open_def bind_res_Ok_iff ledger_wf_def empty_tables_def
          split: option.splits)
        (simp add: db_inv_empty [unfolded empty_tables_def])
    then have "db_inv d \<and> ledger_wf d"
      using prepare_other_tables [OF assms(1) b] by blast
    then show ?thesis
      using keygen_new_inv [of d "cfg_kek cfg" "cfg_key_bits cfg" "cfg_keygen_max_concurrent cfg"]
      by (simp add: s app_state_of_def server_inv_def good_def db_inv_def channels_fresh_def)
        (simp add: keygen_new_def)
  qed
  then show "server_inv (st_app s)" "stock (app_kg (st_app s)) = max (cfg_keygen_max_concurrent cfg) 1"
    by blast+
qed

end
