(* ===== verification/Reference_Libs.thy ===== *)
theory Reference_Libs
  imports Boot
begin

text \<open>
  A concrete instance of the third-party parameters, and concrete surroundings, under which every
  hypothesis on them holds and the model can be evaluated: the properties' hypotheses are
  satisfiable together.
\<close>

subsection \<open>Bytes and strings\<close>

definition chars_of :: "bytes \<Rightarrow> string" where
  "chars_of = map (\<lambda>b. char_of (unat b))"

lemma byte_mod: "word_of_nat (unat (b :: 8 word) mod 256) = b"
proof -
  have "unat b < 256"
    using unsigned_less [of b, where 'a = nat] by simp
  then show ?thesis by simp
qed

lemma str_bytes_chars_of [simp]: "str_bytes (chars_of bs) = bs"
  by (induction bs) (simp_all add: str_bytes_def chars_of_def byte_mod)

lemma length_chars_of [simp]: "length (chars_of bs) = length bs"
  by (simp add: chars_of_def)

definition tag16 :: "bytes \<Rightarrow> bytes" where
  "tag16 a = drop (length a) (replicate 16 0 @ a)"

lemma length_tag16 [simp]: "length (tag16 a) = 16"
  by (simp add: tag16_def)

definition ref_encrypt :: "bytes \<Rightarrow> bytes \<Rightarrow> bytes \<Rightarrow> bytes \<Rightarrow> bytes option" where
  "ref_encrypt k n a m = Some (m @ tag16 a)"

definition ref_decrypt :: "bytes \<Rightarrow> bytes \<Rightarrow> bytes \<Rightarrow> bytes \<Rightarrow> bytes option" where
  "ref_decrypt k n a c =
     (let n = length c - 16 in if drop n c = tag16 a then Some (take n c) else None)"

definition ref_b64url :: "bytes \<Rightarrow> string" where
  "ref_b64url b = chars_of b @ replicate ((4 * length b + 2) div 3 - length b) CHR ''-''"

definition ref_b64url_dec :: "string \<Rightarrow> bytes option" where
  "ref_b64url_dec s = Some (take (3 * length s div 4) (str_bytes s))"

definition ref_libs :: libs where
  "ref_libs = \<lparr>
     ct_eq = (\<lambda>a b. a = b),
     aead_encrypt = ref_encrypt,
     aead_decrypt = ref_decrypt,
     hex_decode = (\<lambda>s. Ok (take 32 (str_bytes s))),
     b64_encode = chars_of,
     b64_decode = (\<lambda>s. Some (str_bytes s)),
     b64_nopad_decode = (\<lambda>s. None),
     b64url_pad_decode = (\<lambda>s. None),
     b64url_encode = ref_b64url,
     b64url_dec = ref_b64url_dec,
     hkdf_sha512_expand = (\<lambda>ikm info n. Some (take n (ikm @ info))),
     hmac_sha256 = (\<lambda>k m. take 32 (k @ m)),
     voprf_new_from_seed = (\<lambda>seed info. Ok seed),
     voprf_public_key = (\<lambda>sk. sk),
     voprf_deserialize = (\<lambda>b. if length b = 32 then Some b else None),
     voprf_blind_evaluate = (\<lambda>sk rnd e. (e, e @ e)),
     voprf_evaluate = (\<lambda>sk i. Ok i),
     rsa_modulus_bits = (\<lambda>kp. 2048),
     rsa_sk_to_der = (\<lambda>kp. Ok kp),
     rsa_pk_to_der = (\<lambda>kp. Ok (map (\<lambda>b. b + 1) kp)),
     rsa_sk_from_der = (\<lambda>der. Ok der),
     rsa_pk_from_der = (\<lambda>der. Ok der),
     rsa_public_key = (\<lambda>sk. Ok (map (\<lambda>b. b + 1) sk)),
     rsa_derive_for_metadata = (\<lambda>pk sk info. Ok (sk @ info)),
     rsa_blind_sign = (\<lambda>sk b. Ok (sk @ b)),
     x509_parse = (\<lambda>leaf. Some \<lparr>common_names = [Some (chars_of leaf)], alternative_names = None\<rparr>)\<rparr>"

lemma ref_ct_eq [simp]: "ct_eq_spec ref_libs"
  by (simp add: ct_eq_spec_def ref_libs_def)

lemma ref_aead_roundtrip [simp]: "aead_roundtrip ref_libs"
  by (simp add: aead_roundtrip_def ref_libs_def ref_encrypt_def ref_decrypt_def)

lemma ref_aead_authentic:
  assumes "inj_on tag16 A"
  shows "aead_authentic ref_libs k A"
  using assms by (auto simp: aead_authentic_def ref_libs_def ref_encrypt_def ref_decrypt_def inj_on_def)

lemma ref_b64url_spec [simp]: "b64url_spec ref_libs"
proof -
  have len: "length (ref_b64url b) = (4 * length b + 2) div 3" for b
    by (simp add: ref_b64url_def)
  have "3 * ((4 * n + 2) div 3) div 4 = n" for n :: nat
    by presburger
  then have "ref_b64url_dec (ref_b64url b) = Some b" for b
    unfolding ref_b64url_dec_def len by (simp add: ref_b64url_def)
  with len show ?thesis
    by (simp add: b64url_spec_def ref_libs_def)
qed

lemma ref_hkdf_spec [simp]: "hkdf_spec ref_libs"
  by (simp add: hkdf_spec_def ref_libs_def)

subsection \<open>Surroundings without faults\<close>

definition ok_engine :: engine where
  "ok_engine = \<lparr>stmt_fault = (\<lambda>_. None), constraint_msg = (\<lambda>s. s), full_msg = ''database or disk is full''\<rparr>"

lemma ok_engine_fault [simp]: "stmt_fault ok_engine i = None"
  by (simp add: ok_engine_def)

definition ref_kek :: kek where "ref_kek = \<lparr>kek_bytes = replicate 32 7\<rparr>"

definition ref_nonce :: bytes where "ref_nonce = replicate 12 9"

lemma length_ref_nonce [simp]: "length ref_nonce = NONCE_LEN"
  by (simp add: ref_nonce_def NONCE_LEN_def)

definition ref_key_env :: key_env where
  "ref_key_env = \<lparr>env_gen = (\<lambda>_. Ok [1, 2, 3]), env_nonce = ref_nonce, env_clock = (\<lambda>_. 1000),
     env_engine = (\<lambda>_. ok_engine)\<rparr>"

definition ref_boot_env :: boot_env where
  "ref_boot_env = \<lparr>be_engine = (\<lambda>_. ok_engine), be_clock = 1000, be_nonce = ref_nonce,
     be_rng = Ok (replicate 32 5), be_other = (\<lambda>_ d. d)\<rparr>"

lemma ref_boot_env_ok [simp]: "quiet ref_boot_env" "fault_free ref_boot_env" "respectful ref_boot_env"
  by (simp_all add: quiet_def fault_free_def ref_boot_env_def respectful_def)

definition ref_env :: req_env where
  "ref_env = \<lparr>rq_engine = (\<lambda>_. ok_engine), rq_clock = (\<lambda>_. 1000), rq_lo = 0, rq_instant = 5,
     rq_key = ref_key_env, rq_wakes = [Deadline (\<lambda>s. s)], rq_other = (\<lambda>_ s. s), rq_join = None,
     rq_rng = Ok (replicate 16 3), rq_voprf = []\<rparr>"

lemma ref_env_ok [simp]: "undisturbed ref_env" "faultless ref_env" "joined ref_env" "drawn_refs ref_env"
  by (simp_all add: undisturbed_def faultless_def joined_def drawn_refs_def ref_env_def ENTRY_REF_LEN_def)

lemma ref_env_within: "(\<And>s. R s s) \<Longrightarrow> env_within R ref_env"
  by (rule undisturbed_within) (simp_all add: ref_env_def undisturbed_def)

text \<open>A started service with one group key, open client list and the PRF surface mounted.\<close>

definition ref_keys :: prf_keys where
  "ref_keys = \<lparr>prf_server = replicate 32 5, master_seed = replicate 32 5, pairwise_secret = Some [1, 2]\<rparr>"

definition ref_limiter :: key_rate_limiter where "ref_limiter = krl_new 2 3 60"

definition ref_db :: db where
  "ref_db = with_new_key empty_tables 1000 ''g'' [2, 3, 4] (BLOB_VERSION # ref_nonce @ [1, 2, 3] @
     tag16 (associated_data ''g'' 1))"

definition ref_app :: app_state where
  "ref_app = \<lparr>app_kg = keygen_new ref_db ref_kek 2048 2, app_kek = ref_kek,
     app_rate_limiter = rl_new 5 1000 60, app_key_limiter = ref_limiter, app_key_rl = krl_state0,
     auto_create_keys = True, app_key_bits = 2048,
     app_prf = Some \<lparr>ps_keys = ref_keys, allowed_client_ids = {''minister''}, ps_limiter = ref_limiter,
                     ps_rl = krl_state0\<rparr>\<rparr>"

definition ref_req :: sign_request where
  "ref_req = \<lparr>sr_group_id = ''g'', sr_participant_id = ''p'', sr_version_id = ''v'',
     sr_blinded_message = ''blinded''\<rparr>"

lemma ref_db_inv [simp]: "db_inv ref_db"
  by (simp add: ref_db_def with_new_key_def empty_tables_def Let_def db_inv_def table_inv_defs
      unique_on_def fresh_key_row_def i64_max_def gk_active_def)

lemma ref_app_inv [simp]: "server_inv ref_app"
proof -
  have "kg_inv (keygen_new ref_db ref_kek 2048 2)"
    using ref_db_inv keygen_new_inv(1) [of ref_db ref_kek 2048 2] by (simp add: db_inv_def)
  moreover have "channels_fresh (keygen_new ref_db ref_kek 2048 2)"
    by (simp add: channels_fresh_def keygen_new_def)
  moreover have "kg_db (keygen_new ref_db ref_kek 2048 2) = ref_db"
    by (simp add: keygen_new_def)
  moreover have "ledger_wf ref_db"
    by (simp add: ledger_wf_def ref_db_def with_new_key_def empty_tables_def Let_def)
  ultimately show ?thesis
    by (simp add: server_inv_def ref_app_def good_def)
qed

lemma ref_app_db [simp]: "app_db ref_app = ref_db"
  by (simp add: ref_app_def keygen_new_def)

lemma ref_env_sel [simp]:
  "rq_engine ref_env i = ok_engine" "rq_clock ref_env i = 1000" "rq_join ref_env = None"
  "rq_wakes ref_env = [Deadline (\<lambda>s. s)]" "rq_key ref_env = ref_key_env" "rq_rng ref_env = Ok (replicate 16 3)"
  "rq_lo ref_env = 0" "rq_instant ref_env = 5" "rq_other ref_env i s = s"
  by (simp_all add: ref_env_def)

lemma ref_app_sel [simp]:
  "app_kek ref_app = ref_kek" "app_rate_limiter ref_app = rl_new 5 1000 60"
  "app_key_limiter ref_app = ref_limiter" "app_key_rl ref_app = krl_state0"
  "auto_create_keys ref_app" "app_key_bits ref_app = 2048"
  "app_prf ref_app = Some \<lparr>ps_keys = ref_keys, allowed_client_ids = {''minister''},
     ps_limiter = ref_limiter, ps_rl = krl_state0\<rparr>"
  by (simp_all add: ref_app_def)

lemma ref_req_sel [simp]:
  "sr_group_id ref_req = ''g''" "sr_participant_id ref_req = ''p''" "sr_version_id ref_req = ''v''"
  "sr_blinded_message ref_req = ''blinded''"
  by (simp_all add: ref_req_def)

lemma rl_new_sel [simp]:
  "participant_max (rl_new p g w) = p" "global_max (rl_new p g w) = g" "window_secs (rl_new p g w) = w"
  by (simp_all add: rl_new_def)

lemma ref_db_rows [simp]:
  "issuances ref_db = []" "issuances_seq ref_db = 0" "service_keys ref_db = []" "dedup_entries ref_db = []"
  "group_keys_seq ref_db = 1"
  by (simp_all add: ref_db_def with_new_key_def empty_tables_def Let_def)

subsection \<open>Evaluating the model on them\<close>

lemma ref_seal:
  "seal ref_libs ref_nonce k g i p = Ok (BLOB_VERSION # ref_nonce @ p @ tag16 (associated_data g i))"
  by (simp add: seal_def ref_libs_def ref_encrypt_def)

lemma ref_open:
  "open_sealed ref_libs k g i (BLOB_VERSION # ref_nonce @ p @ tag16 (associated_data g i)) = Ok p"
  by (rule open_seal [OF ref_aead_roundtrip length_ref_nonce ref_seal])

lemma ref_open_key:
  "open_sealed ref_libs k g i (BLOB_VERSION # ref_nonce @ x # y # z # tag16 (associated_data g i)) =
     Ok [x, y, z]"
  using ref_open [of k g i "[x, y, z]"] by simp

lemma ref_blind_sign: "blind_sign ref_libs p v b = Ok (p @ version_info v @ b)"
  by (simp add: blind_sign_def ref_libs_def)

lemma ref_active:
  "group_keys d = group_keys ref_db \<Longrightarrow> active_row d ''g'' = Some \<lparr>gk_key_id = 1, gk_group_id = ''g'',
     gk_spki_der = [2, 3, 4],
     gk_sealed_pkcs8 = BLOB_VERSION # ref_nonce @ [1, 2, 3] @ tag16 (associated_data ''g'' 1),
     gk_created_at = 1000, gk_retired_at = None\<rparr>"
  by (simp add: active_row_def ref_db_def with_new_key_def empty_tables_def Let_def fresh_key_row_def
      gk_active_def)

lemma ref_load:
  "group_keys (app_db st) = group_keys ref_db \<Longrightarrow>
     load_and_sign ref_libs ref_env st ref_req bl = (Ok ([1, 2, 3] @ version_info ''v'' @ bl), st)"
  by (simp add: load_and_sign_def get_or_create_key_def load_key_def sign_loaded_def active_key_def ref_active
      run_stmt_def ref_open_key ref_blind_sign Let_def)

lemma ref_load_key:
  "group_keys d = group_keys ref_db \<Longrightarrow>
     load_key ref_libs ok_engine d ref_kek ''g'' auto = Ok (Some ([1, 2, 3], [2, 3, 4]))"
  by (simp add: load_key_def active_key_def ref_active run_stmt_def ref_open_key)

lemma ref_rl_check:
  "issuances d = [] \<Longrightarrow> rl_check (rl_new 5 1000 60) (\<lambda>i. ok_engine) 1000 d d p = Ok Allow"
  by (simp add: rl_check_spec rows_since_def)

lemmas ref_eval = count_global_since_def count_participant_since_def run_stmt_def reserve_issuance_def
  run_autoinc_def run_insert_def ref_load ref_load_key sign_loaded_def ref_blind_sign rows_since_def issuance_exists_def is_tuple_def
  saturating_count_to_u32_def i64_max_def

text \<open>The same service after one signature.\<close>

definition ref_app_issued :: app_state where
  "ref_app_issued = set_db (ref_db\<lparr>issuances := [\<lparr>is_id = 1, is_group_id = ''g'', is_participant_id = ''p'',
     is_version_id = ''v'', is_issued_at = 1000\<rparr>], issuances_seq := 1\<rparr>) ref_app"

lemma ref_app_issued_sel [simp]:
  "issuance_inv (app_db ref_app_issued)" "slot (app_db ref_app_issued) = [1 \<mapsto> (''g'', ''p'', ''v'')]"
  "app_rate_limiter ref_app_issued = rl_new 5 1000 60" "group_keys (app_db ref_app_issued) = group_keys ref_db"
  by (simp_all add: ref_app_issued_def issuance_inv_def unique_on_def is_tuple_def slot_def i64_max_def)

definition ref_client :: client_identity where
  "ref_client = \<lparr>id_name = ''c'', id_role = Client, prf_allowed = False\<rparr>"

lemma ref_client_sel [simp]:
  "id_name ref_client = ''c''" "may_sign ref_client" "\<not> is_admin ref_client" "\<not> may_prf ref_client"
  by (simp_all add: ref_client_def may_sign_def is_admin_def may_prf_def)

lemma ref_validate: "sign_validate ref_libs ref_client ref_req = Ok (str_bytes ''blinded'')"
  by (simp add: sign_validate_def require_sign_surface_def validate_id_def MAX_ID_LEN_def
      MAX_BLINDED_B64_def ref_libs_def)

lemma ref_sign_blocking:
  "\<exists>st. sign_blocking ref_libs ref_env ref_app ref_req bl =
     (Ok \<lparr>blind_signature = b64_encode ref_libs ([1, 2, 3] @ version_info ''v'' @ bl)\<rparr>, st)"
  by (simp add: sign_blocking_def ref_rl_check ref_eval)

lemma ref_sign:
  "\<exists>st r. sign ref_libs ref_env ref_app ref_client ref_req = Some (Ok r, st)"
proof -
  have "sign_ready ref_env ref_app ''g'' = Some (Ok (), ref_app)"
    by (simp add: sign_ready_def wait_ready_def ensure_def active_key_def ref_active run_stmt_def)
  then show ?thesis
    using ref_sign_blocking [of "str_bytes ''blinded''"] by (auto simp: sign_def ref_validate)
qed

subsection \<open>A PRF client and a ledger with one entry\<close>

definition ref_minister :: client_identity where
  "ref_minister = \<lparr>id_name = ''minister'', id_role = Prf, prf_allowed = True\<rparr>"

lemma ref_minister_sel [simp]: "id_name ref_minister = ''minister''" "may_prf ref_minister" "\<not> may_sign ref_minister"
  by (simp_all add: ref_minister_def may_prf_def may_sign_def)

definition ref_register :: register_request where
  "ref_register = \<lparr>rg_value = ref_b64url (replicate 64 1), rg_owner_handle = ''o'', rg_badge_type = ''b''\<rparr>"

lemma ref_register_owner [simp]: "rg_owner_handle ref_register = ''o''"
  by (simp add: ref_register_def)

definition ref_prf :: "int list \<Rightarrow> prf_state" where
  "ref_prf ts = \<lparr>ps_keys = ref_keys, allowed_client_ids = {''minister''}, ps_limiter = ref_limiter,
     ps_rl = \<lparr>per_identity = (if ts = [] then Map.empty else [''minister'' \<mapsto> ts]), krl_global = ts\<rparr>\<rparr>"

lemma ref_require:
  assumes "app_prf st = Some (ref_prf ts)" and "length ts < 2"
  shows "require_prf ref_env st ref_minister = (Ok (ref_prf (ts @ [5])), st\<lparr>app_prf := Some (ref_prf (ts @ [5]))\<rparr>)"
  using assms by (auto simp: require_prf_def ref_prf_def check_at_def checked_sub_def prune_def bucket_of_def
      ref_limiter_def krl_new_def Let_def)

lemma ref_register_validate: "register_validate ref_libs ref_register = Ok (replicate 64 1)"
proof -
  have "ref_b64url_dec (ref_b64url (replicate 64 1)) = Some (replicate 64 1)"
    and len: "length (ref_b64url (replicate 64 1)) = 86"
    using ref_b64url_spec by (simp_all add: b64url_spec_def ref_libs_def)
  moreover from len have "ref_b64url (replicate 64 1) \<noteq> []"
    by force
  ultimately show ?thesis
    by (simp add: register_validate_def ref_register_def b64url_decode_def DEDUP_VALUE_LEN_def ref_libs_def
        validate_text_def MAX_OWNER_HANDLE_LEN_def MAX_BADGE_TYPE_LEN_def)
qed

lemma ref_registered:
  "\<exists>resp st1. dedup_register ref_libs ref_env ref_app ref_minister ref_register = (Ok resp, st1) \<and>
     app_prf st1 = Some (ref_prf [5])"
proof -
  have p: "app_prf ref_app = Some (ref_prf [])"
    by (simp add: ref_prf_def krl_state0_def)
  show ?thesis
    using ref_require [OF p]
    by (simp add: dedup_register_def gated_def ref_register_validate run_db_blocking_def register_dedup_def
        run_insert_def row_by_ref_def row_by_value_def ref_app_def keygen_new_def)
qed

definition ref_ledger_db :: db where
  "ref_ledger_db = empty_tables\<lparr>dedup_entries := [\<lparr>de_entry_ref = [1], de_value = [2], de_owner_tag = ''o'',
     de_badge_type = ''b'', de_created_at = 0\<rparr>]\<rparr>"

lemma ref_ledger_db_sel [simp]: "ledger_inv ref_ledger_db" "ledger ref_ledger_db = [[1] \<mapsto> ([2], ''o'', ''b'')]"
  by (simp_all add: ref_ledger_db_def ledger_inv_def unique_on_def ledger_def)

end
