(* ===== verification/Issuance_Concurrency.thy ===== *)
theory Issuance_Concurrency
  imports Sign_Properties
begin

text \<open>
  Concurrent \<open>/sign\<close> requests. \<open>sign_step\<close> cuts \<open>sign_blocking\<close> at its database calls, the points where
  the connection's mutex is released; threads of these steps are interleaved by a schedule, together
  with arriving requests and with whatever else changes the database outside the issuance table.
\<close>

subsection \<open>One thread\<close>

datatype sign_pc =
    CountGlobal
  | CountParticipant
  | Reserve
  | Load int
  | Create int
  | Undo int app_error
  | Signed int sign_response
  | Denied app_error

definition sign_since :: "req_env \<Rightarrow> app_state \<Rightarrow> int" where
  "sign_since E st = window_start (window_secs (app_rate_limiter st)) (now_secs (rq_clock E 0))"

definition after_sign :: "libs \<Rightarrow> int \<Rightarrow> app_error + bytes \<Rightarrow> sign_pc" where
  "after_sign L i r =
     (case r of Ok sig \<Rightarrow> Signed i \<lparr>blind_signature = b64_encode L sig\<rparr> | Err e \<Rightarrow> Undo i e)"

definition sign_step ::
  "libs \<Rightarrow> req_env \<Rightarrow> sign_request \<Rightarrow> bytes \<Rightarrow> sign_pc \<Rightarrow> app_state \<Rightarrow> sign_pc \<times> app_state" where
  "sign_step L E req bl pc st =
     (case pc of
        CountGlobal \<Rightarrow>
          (case count_global_since (rq_engine E 3) (app_db st) (sign_since E st) of
             Err e \<Rightarrow> Denied (Internal e)
           | Ok n \<Rightarrow> if global_max (app_rate_limiter st) \<le> n then Denied RateLimited else CountParticipant, st)
      | CountParticipant \<Rightarrow>
          (case count_participant_since (rq_engine E 4) (app_db st) (sr_participant_id req) (sign_since E st) of
             Err e \<Rightarrow> Denied (Internal e)
           | Ok n \<Rightarrow> if participant_max (app_rate_limiter st) \<le> n then Denied RateLimited else Reserve, st)
      | Reserve \<Rightarrow>
          (case reserve_issuance (rq_engine E 5) (rq_clock E 1) (app_db st)
                  (sr_group_id req) (sr_participant_id req) (sr_version_id req) of
             (Err e, d) \<Rightarrow> (Denied (Internal e), set_db d st)
           | (Ok reservation.AlreadyIssued, d) \<Rightarrow> (Denied app_error.AlreadyIssued, set_db d st)
           | (Ok (Reserved i), d) \<Rightarrow> (Load i, set_db d st))
      | Load i \<Rightarrow>
          (case load_key L (rq_engine E 6) (app_db st) (app_kek st) (sr_group_id req) (auto_create_keys st) of
             Err e \<Rightarrow> after_sign L i (sign_loaded L req bl (Err e))
           | Ok (Some k) \<Rightarrow> after_sign L i (sign_loaded L req bl (Ok k))
           | Ok None \<Rightarrow> Create i, st)
      | Create i \<Rightarrow>
          let (k, d) = create_key L (rq_key E) (app_db st) (app_kek st) (sr_group_id req) (app_key_bits st)
          in (after_sign L i (sign_loaded L req bl k), set_db d st)
      | Undo i e \<Rightarrow> (Denied e, roll_back E st i)
      | Signed i r \<Rightarrow> (Signed i r, st)
      | Denied e \<Rightarrow> (Denied e, st))"

fun pc_result :: "sign_pc \<Rightarrow> (app_error + sign_response) option" where
  "pc_result (Signed i r) = Some (Ok r)"
| "pc_result (Denied e) = Some (Err e)"
| "pc_result _ = None"

primrec sign_steps ::
  "nat \<Rightarrow> libs \<Rightarrow> req_env \<Rightarrow> sign_request \<Rightarrow> bytes \<Rightarrow> sign_pc \<times> app_state \<Rightarrow> sign_pc \<times> app_state" where
  "sign_steps 0 L E req bl x = x"
| "sign_steps (Suc n) L E req bl x = sign_steps n L E req bl (sign_step L E req bl (fst x) (snd x))"

lemma sign_step_final [simp]:
  "sign_step L E req bl (Signed i r) st = (Signed i r, st)"
  "sign_step L E req bl (Denied e) st = (Denied e, st)"
  by (simp_all add: sign_step_def)

lemma sign_steps_final [simp]:
  "sign_steps n L E req bl (Signed i r, st) = (Signed i r, st)"
  "sign_steps n L E req bl (Denied e, st) = (Denied e, st)"
  by (induction n) simp_all

text \<open>Each step alone, given what its database call answers.\<close>

lemma sign_step_counts:
  "count_global_since (rq_engine E 3) (app_db st) (sign_since E st) = Err e \<Longrightarrow>
     sign_step L E req bl CountGlobal st = (Denied (Internal e), st)"
  "count_global_since (rq_engine E 3) (app_db st) (sign_since E st) = Ok n \<Longrightarrow>
     sign_step L E req bl CountGlobal st =
       (if global_max (app_rate_limiter st) \<le> n then Denied RateLimited else CountParticipant, st)"
  "count_participant_since (rq_engine E 4) (app_db st) (sr_participant_id req) (sign_since E st) = Err e \<Longrightarrow>
     sign_step L E req bl CountParticipant st = (Denied (Internal e), st)"
  "count_participant_since (rq_engine E 4) (app_db st) (sr_participant_id req) (sign_since E st) = Ok n \<Longrightarrow>
     sign_step L E req bl CountParticipant st =
       (if participant_max (app_rate_limiter st) \<le> n then Denied RateLimited else Reserve, st)"
  by (simp_all add: sign_step_def)

lemma sign_step_reserve:
  assumes "reserve_issuance (rq_engine E 5) (rq_clock E 1) (app_db st)
     (sr_group_id req) (sr_participant_id req) (sr_version_id req) = (r, d)"
  shows "sign_step L E req bl Reserve st =
     ((case r of Err e \<Rightarrow> Denied (Internal e)
       | Ok reservation.AlreadyIssued \<Rightarrow> Denied app_error.AlreadyIssued
       | Ok (Reserved i) \<Rightarrow> Load i), set_db d st)"
  using assms by (simp add: sign_step_def split: sum.split reservation.split)

lemma sign_step_undo [simp]: "sign_step L E req bl (Undo i e) st = (Denied e, roll_back E st i)"
  by (simp add: sign_step_def)

lemma sign_steps_after:
  "sign_steps (Suc n) L E req bl (after_sign L i r, st) =
     (case r of Ok sig \<Rightarrow> (Signed i \<lparr>blind_signature = b64_encode L sig\<rparr>, st)
      | Err e \<Rightarrow> (Denied e, roll_back E st i))"
  by (cases r) (simp_all add: after_sign_def)

text \<open>Loading, creating if need be, and giving the reservation back after a failure.\<close>

lemma sign_steps_load:
  assumes "undisturbed E" and "load_and_sign L E st req bl = (r, st')"
  shows "sign_steps (Suc (Suc (Suc n))) L E req bl (Load i, st) =
     (case r of Ok sig \<Rightarrow> (Signed i \<lparr>blind_signature = b64_encode L sig\<rparr>, st')
      | Err e \<Rightarrow> (Denied e, roll_back E st' i))"
proof (cases "load_key L (rq_engine E 6) (app_db st) (app_kek st) (sr_group_id req) (auto_create_keys st)")
  case (Inl e)
  with assms have "sign_step L E req bl (Load i) st = (after_sign L i r, st')"
    by (auto simp: sign_step_def load_and_sign_def get_or_create_key_def Let_def)
  then show ?thesis
    by (simp add: sign_steps.simps(2) [of "Suc (Suc n)"] sign_steps_after del: sign_steps.simps)
next
  case (Inr k)
  show ?thesis
  proof (cases k)
    case None
    obtain c d where c: "create_key L (rq_key E) (app_db st) (app_kek st) (sr_group_id req) (app_key_bits st) = (c, d)"
      (is "?c = _")
      by (cases ?c)
    with None Inr have "sign_step L E req bl (Load i) st = (Create i, st)"
      and "sign_step L E req bl (Create i) st = (after_sign L i (sign_loaded L req bl c), set_db d st)"
      by (simp_all add: sign_step_def)
    moreover have "r = sign_loaded L req bl c" "st' = set_db d st"
      using assms c None Inr by (auto simp: load_and_sign_def get_or_create_key_def)
    ultimately show ?thesis
      by (simp add: sign_steps.simps(2) [of "Suc n"] sign_steps.simps(2) [of "Suc (Suc n)"]
          sign_steps_after del: sign_steps.simps cong: sum.case_cong)
  next
    case (Some x)
    with assms Inr have "sign_step L E req bl (Load i) st = (after_sign L i r, st')"
      by (auto simp: sign_step_def load_and_sign_def get_or_create_key_def Let_def)
    then show ?thesis
      by (simp add: sign_steps.simps(2) [of "Suc (Suc n)"] sign_steps_after del: sign_steps.simps)
  qed
qed

text \<open>The two counting steps are the rate check.\<close>

lemma sign_steps_check:
  assumes "rl_check (app_rate_limiter st) (\<lambda>i. rq_engine E (3 + i)) (rq_clock E 0)
     (app_db st) (app_db st) (sr_participant_id req) = c"
  shows "sign_steps (Suc (Suc n)) L E req bl (CountGlobal, st) =
     sign_steps n L E req bl
       (case c of Err e \<Rightarrow> Denied (Internal e) | Ok Allow \<Rightarrow> Reserve | Ok _ \<Rightarrow> Denied RateLimited, st)"
proof (cases "count_global_since (rq_engine E 3) (app_db st) (sign_since E st)")
  case (Inl e)
  with assms show ?thesis by (auto simp: sign_step_counts rl_check_def sign_since_def)
next
  case g: (Inr m)
  show ?thesis
  proof (cases "count_participant_since (rq_engine E 4) (app_db st) (sr_participant_id req) (sign_since E st)")
    case (Inl e)
    with g assms show ?thesis
      by (cases "global_max (app_rate_limiter st) \<le> m") (auto simp: sign_step_counts rl_check_def sign_since_def)
  next
    case (Inr k)
    with g assms show ?thesis
      by (cases "global_max (app_rate_limiter st) \<le> m"; cases "participant_max (app_rate_limiter st) \<le> k")
        (auto simp: sign_step_counts rl_check_def sign_since_def)
  qed
qed

text \<open>Six steps with nothing in between are the handler.\<close>

lemma sign_steps_blocking:
  assumes "undisturbed E"
  shows "map_option (\<lambda>r. (r, snd (sign_steps 6 L E req bl (CountGlobal, st))))
      (pc_result (fst (sign_steps 6 L E req bl (CountGlobal, st)))) =
    Some (sign_blocking L E st req bl)"
proof -
  note [simp] = interfere_undisturbed [OF assms]
  have six: "sign_steps 6 L E req bl x = sign_steps (Suc (Suc (Suc (Suc (Suc (Suc 0)))))) L E req bl x" for x
    by (simp add: numeral_eq_Suc)
  obtain c where c: "rl_check (app_rate_limiter st) (\<lambda>i. rq_engine E (3 + i)) (rq_clock E 0)
      (app_db st) (app_db st) (sr_participant_id req) = c"
    by blast
  obtain r d where r: "reserve_issuance (rq_engine E 5) (rq_clock E 1) (app_db st) (sr_group_id req)
      (sr_participant_id req) (sr_version_id req) = (r, d)" (is "?c = _")
    by (cases ?c)
  obtain ls st1 where ls: "load_and_sign L E (set_db d st) req bl = (ls, st1)" (is "?l = _")
    by (cases ?l)
  consider "c \<noteq> Ok Allow" | (full) "c = Ok Allow" "\<nexists>i. r = Ok (Reserved i)"
    | (go) i where "c = Ok Allow" "r = Ok (Reserved i)"
    by blast
  then show ?thesis
  proof cases
    case 1
    with c show ?thesis
      unfolding six sign_steps_check [OF c]
      by (simp add: sign_blocking_def split: sum.split decision.split)
  next
    case full
    with c r show ?thesis
      unfolding six sign_steps_check [OF c]
      by (cases r; cases "projr r") (simp_all add: sign_step_reserve [OF r] sign_blocking_def)
  next
    case (go i)
    with c r ls show ?thesis
      unfolding six sign_steps_check [OF c]
      by (cases ls) (simp_all add: sign_steps.simps(2) [of "Suc (Suc (Suc 0))"] sign_step_reserve [OF r]
          sign_steps_load [OF assms ls] sign_blocking_def del: sign_steps.simps)
  qed
qed

subsection \<open>Many threads\<close>

record sign_thread =
  th_env :: req_env
  th_req :: sign_request
  th_blinded :: bytes
  th_pc :: sign_pc

datatype event =
    Run nat
  | Arrive req_env sign_request bytes
  | Elsewhere db

type_synonym system = "app_state \<times> sign_thread list"

fun sys_step :: "libs \<Rightarrow> event \<Rightarrow> system \<Rightarrow> system" where
  "sys_step L (Run j) (st, ts) =
     (if j < length ts then
        let t = ts ! j; (pc, st') = sign_step L (th_env t) (th_req t) (th_blinded t) (th_pc t) st
        in (st', ts[j := t\<lparr>th_pc := pc\<rparr>])
      else (st, ts))"
| "sys_step L (Arrive E req bl) (st, ts) =
     (st, ts @ [\<lparr>th_env = E, th_req = req, th_blinded = bl, th_pc = CountGlobal\<rparr>])"
| "sys_step L (Elsewhere d) (st, ts) =
     (if issuances d = issuances (app_db st) \<and> issuances_seq d = issuances_seq (app_db st)
      then (set_db d st, ts) else (st, ts))"

primrec run_schedule :: "libs \<Rightarrow> event list \<Rightarrow> system \<Rightarrow> system" where
  "run_schedule L [] s = s"
| "run_schedule L (e # es) s = run_schedule L es (sys_step L e s)"

text \<open>The issuance a thread has reserved and not given up.\<close>

fun held :: "sign_pc \<Rightarrow> int option" where
  "held (Load i) = Some i"
| "held (Create i) = Some i"
| "held (Undo i e) = Some i"
| "held (Signed i r) = Some i"
| "held _ = None"

definition owns :: "sign_thread list \<Rightarrow> nat \<Rightarrow> int \<Rightarrow> bool" where
  "owns ts j i \<longleftrightarrow> j < length ts \<and> held (th_pc (ts ! j)) = Some i"

definition sys_inv :: "system \<Rightarrow> bool" where
  "sys_inv s = (case s of (st, ts) \<Rightarrow>
     issuance_inv (app_db st) \<and>
     (\<forall>j i. owns ts j i \<longrightarrow> slot (app_db st) i = Some (req_tuple (th_req (ts ! j)))) \<and>
     (\<forall>j k i. owns ts j i \<longrightarrow> owns ts k i \<longrightarrow> j = k))"

text \<open>How one step changes the slots: nothing, a new id that the thread now holds, or its own id removed.\<close>

definition slot_change ::
  "sign_request \<Rightarrow> sign_pc \<Rightarrow> sign_pc \<Rightarrow> (int \<rightharpoonup> string \<times> string \<times> string) \<Rightarrow> (int \<rightharpoonup> string \<times> string \<times> string) \<Rightarrow> bool" where
  "slot_change req pc pc' m m' \<longleftrightarrow>
     (m' = m \<and> (held pc' = held pc \<or> held pc' = None)) \<or>
     (\<exists>i. held pc = None \<and> held pc' = Some i \<and> m i = None \<and> m' = m(i \<mapsto> req_tuple req)) \<or>
     (\<exists>i. held pc = Some i \<and> held pc' = None \<and> m' = m(i := None))"

lemma held_after [simp]: "held (after_sign L i r) = Some i"
  by (cases r) (simp_all add: after_sign_def)

lemma reserve_step_slots:
  assumes inv: "issuance_inv (app_db st)" and "sign_step L E req bl Reserve st = (pc', st')"
  shows "issuance_inv (app_db st') \<and> slot_change req Reserve pc' (slot (app_db st)) (slot (app_db st'))"
proof -
  obtain r d where r: "reserve_issuance (rq_engine E 5) (rq_clock E 1) (app_db st) (sr_group_id req)
      (sr_participant_id req) (sr_version_id req) = (r, d)" (is "?c = _")
    by (cases ?c)
  note inv' = reserve_inv [OF inv r]
  show ?thesis
  proof (cases "\<exists>i. r = Ok (Reserved i)")
    case True
    then obtain i where i: "r = Ok (Reserved i)" by blast
    have "slot d = (slot (app_db st))(i \<mapsto> req_tuple req)" "slot (app_db st) i = None"
      using slot_reserve [OF inv] r slot_above [OF inv, of i] by (auto simp: i reserve_Reserved_iff)
    with assms(2) r inv' i show ?thesis by (auto simp: sign_step_def slot_change_def)
  next
    case False
    then have "d = app_db st"
      by (rule reserve_refused [OF r])
    with assms(2) r inv False show ?thesis
      by (auto simp: sign_step_def slot_change_def split: sum.splits reservation.splits)
  qed
qed

lemma sign_step_slots:
  assumes inv: "issuance_inv (app_db st)" and "sign_step L E req bl pc st = (pc', st')"
  shows "issuance_inv (app_db st') \<and> slot_change req pc pc' (slot (app_db st)) (slot (app_db st'))"
proof (cases pc)
  case CountGlobal
  with assms show ?thesis by (auto simp: sign_step_def slot_change_def split: sum.splits if_splits)
next
  case CountParticipant
  with assms show ?thesis by (auto simp: sign_step_def slot_change_def split: sum.splits if_splits)
next
  case Reserve
  with assms show ?thesis by (simp add: reserve_step_slots)
next
  case (Load i)
  with assms show ?thesis
    by (auto simp: sign_step_def slot_change_def held_after split: sum.splits option.splits)
next
  case (Create i)
  obtain k d where c: "create_key L (rq_key E) (app_db st) (app_kek st) (sr_group_id req) (app_key_bits st) = (k, d)"
    (is "?c = _")
    by (cases ?c)
  with assms(2) Create inv create_key_frame(1,5) [OF c] show ?thesis
    by (auto simp: sign_step_def slot_change_def held_after slot_def)
next
  case (Undo i e)
  obtain r d where "delete_issuance (rq_engine E 7) (app_db st) i = (r, d)"
    by (cases "delete_issuance (rq_engine E 7) (app_db st) i")
  with assms(2) Undo delete_inv [OF inv this] slot_delete [of "rq_engine E 7" "app_db st" i d]
    delete_issuance_Err [of "rq_engine E 7" "app_db st" i _ d] show ?thesis
    by (cases r) (auto simp: sign_step_def roll_back_def slot_change_def)
qed (use assms in \<open>auto simp: slot_change_def\<close>)

lemma owns_update:
  assumes "j < length ts"
  shows "owns (ts[j := (ts ! j)\<lparr>th_pc := pc\<rparr>]) k i \<longleftrightarrow> (if k = j then held pc = Some i else owns ts k i)"
  using assms by (auto simp: owns_def)

lemma th_req_update:
  "th_req (ts[j := (ts ! j)\<lparr>th_pc := pc\<rparr>] ! k) = th_req (ts ! k)"
  by (cases "j < length ts"; cases "k = j") (auto simp: list_update_beyond)

text \<open>A step of one thread keeps the invariant, whatever the others hold.\<close>

lemma thread_step_inv:
  assumes "sys_inv (st, ts)" and "j < length ts"
    and "sign_step L (th_env (ts ! j)) (th_req (ts ! j)) (th_blinded (ts ! j)) (th_pc (ts ! j)) st = (pc, st')"
  shows "sys_inv (st', ts[j := (ts ! j)\<lparr>th_pc := pc\<rparr>])"
proof -
  let ?ts = "ts[j := (ts ! j)\<lparr>th_pc := pc\<rparr>]"
  have inv: "issuance_inv (app_db st)"
    and own: "\<And>j i. owns ts j i \<Longrightarrow> slot (app_db st) i = Some (req_tuple (th_req (ts ! j)))"
    and uniq: "\<And>j k i. owns ts j i \<Longrightarrow> owns ts k i \<Longrightarrow> j = k"
    using assms(1) by (auto simp: sys_inv_def)
  have j: "owns ts j i \<longleftrightarrow> held (th_pc (ts ! j)) = Some i" for i
    using assms(2) by (simp add: owns_def)
  note slots = sign_step_slots [OF inv assms(3), unfolded slot_change_def]
  have "slot (app_db st') i = Some (req_tuple (th_req (?ts ! k)))" if "owns ?ts k i" for k i
    using slots that own [of k i] own [of j i] uniq [of j i k] assms(2)
    unfolding owns_update [OF assms(2)] th_req_update j
    by (auto split: if_splits)
  moreover have "k = l" if "owns ?ts k i" "owns ?ts l i" for k l i
    using slots that own [of k i] own [of l i] uniq [of k i l] uniq [of j i l] uniq [of j i k]
    unfolding owns_update [OF assms(2)] j
    by (auto split: if_splits)
  ultimately show ?thesis
    using slots by (auto simp: sys_inv_def)
qed

lemma sys_step_inv:
  assumes "sys_inv s"
  shows "sys_inv (sys_step L e s)"
proof -
  obtain st ts where s: "s = (st, ts)" by (cases s)
  have inv: "issuance_inv (app_db st)"
    and own: "\<And>j i. owns ts j i \<Longrightarrow> slot (app_db st) i = Some (req_tuple (th_req (ts ! j)))"
    and uniq: "\<And>j k i. owns ts j i \<Longrightarrow> owns ts k i \<Longrightarrow> j = k"
    using assms by (auto simp: sys_inv_def s)
  show ?thesis
  proof (cases e)
    case (Run j)
    with assms thread_step_inv [of st ts j L] show ?thesis
      by (cases "j < length ts") (auto simp: s Let_def split: prod.split)
  next
    case (Arrive E req bl)
    have "owns (ts @ [\<lparr>th_env = E, th_req = req, th_blinded = bl, th_pc = CountGlobal\<rparr>]) k i = owns ts k i" for k i
      by (auto simp: owns_def nth_append less_Suc_eq)
    moreover have "owns ts k i \<Longrightarrow> k < length ts" for k i
      by (simp add: owns_def)
    ultimately show ?thesis
      using inv own uniq by (auto simp: s Arrive sys_inv_def nth_append)
  next
    case (Elsewhere d)
    have "slot d = slot (app_db st)" "issuance_inv d"
      if "issuances d = issuances (app_db st)" "issuances_seq d = issuances_seq (app_db st)"
      using inv that by (simp_all add: slot_def issuance_inv_def)
    with assms inv own uniq show ?thesis
      by (auto simp: s Elsewhere sys_inv_def)
  qed
qed

lemma run_schedule_inv: "sys_inv s \<Longrightarrow> sys_inv (run_schedule L es s)"
  by (induction es arbitrary: s) (simp_all add: sys_step_inv)

lemma sys_inv_init: "issuance_inv (app_db st) \<Longrightarrow> sys_inv (st, [])"
  by (simp add: sys_inv_def owns_def)

text \<open>A thread that has signed holds the slot of its tuple.\<close>

lemma signed_slot:
  assumes "sys_inv (st, ts)" and "j < length ts" and "th_pc (ts ! j) = Signed i r"
  shows "slot (app_db st) i = Some (req_tuple (th_req (ts ! j)))" and "owns ts j i"
  using assms by (simp_all add: sys_inv_def owns_def)

text \<open>Two threads never both obtain a signature for the same tuple.\<close>

lemma signed_once:
  assumes "sys_inv (st, ts)" and "j < length ts" and "k < length ts"
    and "th_pc (ts ! j) = Signed i r" and "th_pc (ts ! k) = Signed i' r'"
    and "req_tuple (th_req (ts ! j)) = req_tuple (th_req (ts ! k))"
  shows "j = k"
proof -
  note s = signed_slot [OF assms(1,2,4)] signed_slot [OF assms(1,3,5)]
  have "issuance_inv (app_db st)"
    using assms(1) by (simp add: sys_inv_def)
  then have "i = i'"
    using il.holds_unique s(1,3) assms(6) by metis
  with s(2,4) assms(1) show ?thesis by (auto simp: sys_inv_def)
qed

text \<open>What was recorded before stays, whatever the threads do: they roll back only their own reservations.\<close>

lemma recorded_stays_step:
  assumes "sys_inv (st, ts)" and "slot (app_db st) i = Some t" and "\<forall>j. \<not> owns ts j i"
    and "sys_step L e (st, ts) = (st', ts')"
  shows "slot (app_db st') i = Some t \<and> (\<forall>j. \<not> owns ts' j i)"
proof (cases e)
  case (Run j)
  have inv: "issuance_inv (app_db st)"
    using assms(1) by (simp add: sys_inv_def)
  show ?thesis
  proof (cases "j < length ts")
    case False
    with assms Run show ?thesis by simp
  next
    case True
    obtain pc st1 where step: "sign_step L (th_env (ts ! j)) (th_req (ts ! j)) (th_blinded (ts ! j))
        (th_pc (ts ! j)) st = (pc, st1)" (is "?c = _")
      by (cases ?c)
    have eq: "st' = st1" "ts' = ts[j := (ts ! j)\<lparr>th_pc := pc\<rparr>]"
      using True Run step assms(4) by simp_all
    have "held (th_pc (ts ! j)) \<noteq> Some i"
      using assms(3) True by (auto simp: owns_def)
    with sign_step_slots [OF inv step, unfolded slot_change_def] assms(2,3) show ?thesis
      unfolding eq owns_update [OF True] by auto
  qed
next
  case (Arrive E req bl)
  with assms show ?thesis by (auto simp: owns_def nth_append less_Suc_eq)
next
  case (Elsewhere d)
  with assms show ?thesis by (auto simp: slot_def split: if_splits)
qed

lemma recorded_stays:
  assumes "sys_inv s" and "slot (app_db (fst s)) i = Some t" and "\<forall>j. \<not> owns (snd s) j i"
  shows "slot (app_db (fst (run_schedule L es s))) i = Some t \<and> (\<forall>j. \<not> owns (snd (run_schedule L es s)) j i)"
  using assms
proof (induction es arbitrary: s)
  case Nil
  then show ?case by simp
next
  case (Cons e es)
  obtain st ts where s: "s = (st, ts)" by (cases s)
  obtain st' ts' where s': "sys_step L e s = (st', ts')" by (cases "sys_step L e s")
  have "slot (app_db st') i = Some t \<and> (\<forall>j. \<not> owns ts' j i)"
    using Cons.prems s s' by (intro recorded_stays_step [of st ts]) simp_all
  with Cons.IH [of "(st', ts')"] sys_step_inv [OF Cons.prems(1), of L e] s' show ?case by simp
qed

end
