(* ===== verification/Issuance_Theorems.thy ===== *)
theory Issuance_Theorems
  imports Reference_Libs Issuance_Concurrency
begin

text \<open>
  The main theorems on the \<open>sign\<close> handler: its effect on each path, with other tasks in between, and the
  ceilings for requests served in turn. \<open>Concurrency_Theorems\<close> has the theorems on all interleavings.
\<close>

subsection \<open>The handler around its blocking part\<close>

lemma sign_ready_keeps:
  assumes "env_within same_issuances E" and "sign_ready E st g = Some (r, st')"
  shows "same_rows st st'" and "app_rate_limiter st' = app_rate_limiter st"
proof -
  have "same_rows st st' \<and> app_rate_limiter st' = app_rate_limiter st"
  proof (cases "auto_create_keys st")
    case True
    with assms(2) obtain r' s where w: "wait_ready (rq_engine E) (rq_other E) (rq_wakes E) (app_kg st) g =
        Some (r', s)" and "st' = st\<lparr>app_kg := s\<rparr>"
      by (auto simp: sign_ready_def)
    with si.wait_ready_within [OF _ _ w] assms(1) show ?thesis by (auto simp: env_within_def)
  next
    case False
    with assms(2) show ?thesis by (simp add: sign_ready_def si.stay)
  qed
  then show "same_rows st st'" "app_rate_limiter st' = app_rate_limiter st"
    by simp_all
qed

text \<open>A \<open>sign\<close> that returns has either refused or run its blocking part, on the same issuance table.\<close>

lemma sign_cases:
  assumes "env_within same_issuances E" and "sign L E st i req = Some (res, st')"
  obtains (early) e where "res = Err e" and "same_rows st st'"
  | (blocking) bl st1 where "sign_validate L i req = Ok bl" and "same_rows st st1"
      and "app_rate_limiter st1 = app_rate_limiter st" and "sign_blocking L E st1 req bl = (res, st')"
proof (cases "sign_validate L i req")
  case (Inl e)
  with assms(2) show thesis by (intro early) (auto simp: sign_def si.stay)
next
  case v: (Inr bl)
  with assms(2) obtain r st1 where ready: "sign_ready E st (sr_group_id req) = Some (r, st1)"
    by (auto simp: sign_def split: option.splits)
  note keeps = sign_ready_keeps [OF assms(1) ready]
  have later: "same_rows st (interfere E 3 st1)"
    by (rule same_rows_interfere [OF assms(1) keeps(1)])
  show thesis
  proof (cases "r = Ok () \<and> rq_join E = None")
    case True
    with assms(2) v ready have "sign_blocking L E (interfere E 3 st1) req bl = (res, st')"
      by (simp add: sign_def)
    with v later keeps(2) show thesis by (intro blocking) simp_all
  next
    case False
    with assms(2) v ready have "st' = st1 \<or> st' = interfere E 3 st1" "\<exists>e. res = Err e"
      by (auto simp: sign_def split: sum.splits option.splits)
    with keeps(1) later early show thesis by blast
  qed
qed

lemma sign_ready_active:
  assumes "faultless E" and "active_row (app_db st) g = Some r"
  shows "sign_ready E st g = Some (Ok (), st)"
proof -
  have "\<exists>k. active_key (rq_engine E 0) (app_db st) g = Ok (Some k)"
    using assms by (simp add: active_key_def run_stmt_def faultless_def)
  then show ?thesis
    by (auto simp: sign_ready_def wait_ready_def ensure_def kg_active_key_def)
qed

subsection \<open>The handler on each path\<close>

text \<open>
  C3. A request that is answered with a signature was for a participation not recorded so far, and
  records exactly that one, under an id that was free; meanwhile keys may be generated and rotated
  and the other tables may change.
\<close>

theorem sign_records_issuance:
  assumes "env_within same_issuances E" and "issuance_inv (app_db st)" and "sign L E st i req = Some (Ok resp, st')"
  shows "req_tuple req \<notin> ran (slot (app_db st)) \<and>
    (\<exists>a. slot (app_db st) a = None \<and> slot (app_db st') = (slot (app_db st))(a \<mapsto> req_tuple req))"
  using assms(1,3)
proof (cases rule: sign_cases)
  case (blocking bl st1)
  with assms(2) show ?thesis
    using sign_blocking_Ok [OF assms(1) _ blocking(4)] same_rows_facts [OF blocking(2)] by simp
qed simp

theorem sign_records_issuance_witness:
  "\<exists>r st a. sign ref_libs ref_env ref_app ref_client ref_req = Some (Ok r, st) \<and>
     slot (app_db st) = [a \<mapsto> (''g'', ''p'', ''v'')]"
proof -
  obtain r st where s: "sign ref_libs ref_env ref_app ref_client ref_req = Some (Ok r, st)"
    using ref_sign by blast
  have "issuance_inv (app_db ref_app)" "slot (app_db ref_app) = Map.empty"
    using ref_db_inv by (simp_all add: db_inv_def slot_def)
  then show ?thesis
    using sign_records_issuance [OF ref_env_within [OF si.stay] _ s] s by auto
qed

text \<open>
  C4. While no other request changes the issuance table, a request that ends in any error leaves the recorded
  participations as they were, with one exception: when the statement that takes the request's own
  reservation back fails as well, exactly that reservation stays, and the participant's token is burnt. A
  failed signing alone does not burn it.
\<close>

theorem sign_failure_keeps_token:
  assumes "env_within same_issuances E" and "issuance_inv (app_db st)" and "sign L E st i req = Some (Err e, st')"
  shows "slot (app_db st') = slot (app_db st) \<or>
    (stmt_fault (rq_engine E 7) 0 \<noteq> None \<and>
     (\<exists>a. slot (app_db st) a = None \<and> slot (app_db st') = (slot (app_db st))(a \<mapsto> req_tuple req)))"
  using assms(1,3)
proof (cases rule: sign_cases)
  case (blocking bl st1)
  with assms(2) show ?thesis
    using sign_blocking_Err [OF assms(1) _ blocking(4)] same_rows_facts [OF blocking(2)] by simp
qed (simp add: same_rows_facts)

text \<open>A service whose keys do not sign: the request reserves, fails and rolls back, on the engine given.\<close>

abbreviation mute_libs :: libs where
  "mute_libs \<equiv> ref_libs\<lparr>rsa_blind_sign := (\<lambda>_ _. Err ''bad message'')\<rparr>"

abbreviation undo_env :: "engine \<Rightarrow> req_env" where
  "undo_env eng \<equiv> ref_env\<lparr>rq_engine := (\<lambda>i. if i = 7 then eng else ok_engine)\<rparr>"

abbreviation broken_engine :: engine where
  "broken_engine \<equiv> ok_engine\<lparr>stmt_fault := (\<lambda>_. Some ''disk I/O error'')\<rparr>"

lemma mute_load:
  assumes "group_keys d = group_keys ref_db"
  shows "load_key mute_libs ok_engine d ref_kek ''g'' auto = Ok (Some ([1, 2, 3], [2, 3, 4]))"
proof -
  have "open_sealed mute_libs k g i b = open_sealed ref_libs k g i b" for k g i b
    by (simp add: open_sealed_def)
  then have "load_key mute_libs = load_key ref_libs"
    by (intro ext) (simp only: load_key_def)
  then show ?thesis
    using ref_load_key [OF assms] by simp
qed

lemma mute_sign:
  "\<exists>st. sign mute_libs (undo_env eng) ref_app ref_client ref_req =
      Some (Err (Internal ''blind_sign failed: bad message''), st) \<and>
    issuances_seq (app_db st) = 1 \<and> (stmt_fault eng 0 \<noteq> None \<longrightarrow> issuances (app_db st) \<noteq> [])"
proof -
  have ready: "sign_ready (undo_env eng) ref_app ''g'' = Some (Ok (), ref_app)"
    by (simp add: sign_ready_def wait_ready_def ensure_def active_key_def ref_active run_stmt_def)
  have "sign_validate mute_libs i q = sign_validate ref_libs i q" for i q
    by (simp add: sign_validate_def)
  then have valid: "sign_validate mute_libs ref_client ref_req = Ok (str_bytes ''blinded'')"
    by (simp add: ref_validate)
  have mute: "blind_sign mute_libs p v b = Err ''bad message''" for p v b
    by (simp add: blind_sign_def ref_libs_def)
  have "\<exists>st. sign_blocking mute_libs (undo_env eng) ref_app ref_req bl =
      (Err (Internal ''blind_sign failed: bad message''), st) \<and>
      issuances_seq (app_db st) = 1 \<and> (stmt_fault eng 0 \<noteq> None \<longrightarrow> issuances (app_db st) \<noteq> [])" for bl
    by (auto simp: sign_blocking_def rl_check_def ref_eval load_and_sign_def get_or_create_key_def mute_load mute
        roll_back_def delete_issuance_def Let_def split: option.splits)
  with ready valid show ?thesis
    by (simp add: sign_def interfere_def)
qed

theorem sign_failure_keeps_token_witness:
  "(\<exists>e st. sign mute_libs (undo_env ok_engine) ref_app ref_client ref_req = Some (Err e, st) \<and>
      issuances_seq (app_db st) = 1 \<and> slot (app_db st) = Map.empty) \<and>
   (\<exists>e st a. sign mute_libs (undo_env broken_engine) ref_app ref_client ref_req = Some (Err e, st) \<and>
      slot (app_db st) = [a \<mapsto> (''g'', ''p'', ''v'')])"
proof
  have inv: "issuance_inv (app_db ref_app)" "slot (app_db ref_app) = Map.empty"
    using ref_db_inv by (simp_all add: db_inv_def slot_def)
  have within: "env_within same_issuances (undo_env eng)" for eng
    using ref_env_within [of same_issuances, OF si.stay] by (simp add: env_within_def)
  note kept = sign_failure_keeps_token [OF within inv(1)]
  show "\<exists>e st. sign mute_libs (undo_env ok_engine) ref_app ref_client ref_req = Some (Err e, st) \<and>
      issuances_seq (app_db st) = 1 \<and> slot (app_db st) = Map.empty"
  proof -
    obtain e st where s: "sign mute_libs (undo_env ok_engine) ref_app ref_client ref_req = Some (Err e, st)"
      "issuances_seq (app_db st) = 1"
      using mute_sign [of ok_engine] by auto
    with kept [OF s(1)] inv(2) show ?thesis by auto
  qed
  obtain e st where s: "sign mute_libs (undo_env broken_engine) ref_app ref_client ref_req = Some (Err e, st)"
    "issuances (app_db st) \<noteq> []"
    using mute_sign [of broken_engine] by auto
  then have "slot (app_db st) \<noteq> Map.empty"
    by (cases "issuances (app_db st)") (auto simp: slot_def)
  with kept [OF s(1)] s(1) inv(2)
  show "\<exists>e st a. sign mute_libs (undo_env broken_engine) ref_app ref_client ref_req = Some (Err e, st) \<and>
      slot (app_db st) = [a \<mapsto> (''g'', ''p'', ''v'')]"
    by auto
qed

text \<open>
  A refusal of a recorded participation changes the shared state only where its surroundings do, or by
  queueing a worker.
\<close>

context interference
begin

lemma sign_ready_frame:
  assumes "env_within R E" and "sign_ready E st g = Some (r, st')"
  shows "R (app_kg st) (app_kg st') \<and> st' = st\<lparr>app_kg := app_kg st'\<rparr>"
proof (cases "auto_create_keys st")
  case True
  with assms(2) obtain r' s where w: "wait_ready (rq_engine E) (rq_other E) (rq_wakes E) (app_kg st) g = Some (r', s)"
    and "st' = st\<lparr>app_kg := s\<rparr>"
    by (auto simp: sign_ready_def)
  with wait_ready_within [OF _ _ w] assms(1) show ?thesis by (auto simp: env_within_def)
next
  case False
  with assms(2) show ?thesis by (simp add: sign_ready_def stay)
qed

lemma interfere_frame:
  assumes "env_within R E" and "R (app_kg st) (app_kg st') \<and> st' = st\<lparr>app_kg := app_kg st'\<rparr>"
  shows "R (app_kg st) (app_kg (interfere E j st')) \<and> interfere E j st' = st\<lparr>app_kg := app_kg (interfere E j st')\<rparr>"
proof -
  have "interfere E j st' = st\<lparr>app_kg := rq_other E j (app_kg st')\<rparr>"
    using assms(2) unfolding interfere_def by (metis app_state.update_convs(1) app_state.surjective)
  then show ?thesis
    using assms chain by (simp add: env_within_def) blast
qed

lemma sign_held_frame:
  assumes "env_within R E" and "env_within same_issuances E" and "issuance_inv (app_db st)"
    and "req_tuple req \<in> ran (slot (app_db st))" and "sign L E st i req = Some (res, st')"
  shows "R (app_kg st) (app_kg st') \<and> st' = st\<lparr>app_kg := app_kg st'\<rparr>"
proof (cases "sign_validate L i req")
  case (Inl e)
  with assms(5) show ?thesis by (simp add: sign_def stay)
next
  case v: (Inr bl)
  with assms(5) obtain r st1 where ready: "sign_ready E st (sr_group_id req) = Some (r, st1)"
    by (auto simp: sign_def split: option.splits)
  let ?st1 = "interfere E 3 st1"
  note frame = sign_ready_frame [OF assms(1) ready] and step = interfere_frame [OF assms(1)]
  have "same_rows st ?st1"
    by (rule same_rows_interfere [OF assms(2) sign_ready_keeps(1) [OF assms(2) ready]])
  then have held: "issuance_inv (app_db ?st1)" "req_tuple req \<in> ran (slot (app_db ?st1))"
    using assms(3,4) same_rows_facts by metis+
  have "sign_blocking L E ?st1 req bl = (res, st') \<or> st' = st1 \<or> st' = ?st1"
    using assms(5) v ready by (auto simp: sign_def split: sum.splits option.splits)
  then have "st' = st1 \<or> st' = ?st1 \<or> st' = interfere E 4 ?st1 \<or> st' = interfere E 5 (interfere E 4 ?st1)"
    using sign_blocking_held_state [OF assms(2) held] by blast
  with frame step show ?thesis by metis
qed

end

lemma worker_interference:
  assumes "reflp R" and "transp R" and "\<forall>s g. R s (register_worker g s)"
  shows "interference R"
proof
  show "R s s'" if "ensure_locked eng s g = (r, s')" for eng s g r s'
    using ensure_locked_outcome [OF that] assms(1,3) by (auto dest: reflpD)
qed (use assms in \<open>auto dest: reflpD transpD\<close>)

text \<open>
  C5. While no other request changes the issuance table, no signature is given for a participation that is
  recorded in it, and the refusal changes nothing itself: the issuance rows stay, and whatever happens to
  the shared state is done by the surroundings or is the queueing of a worker for a missing group key, so
  that every preorder that these two stay within, such as ``the database is the same'', relates the state
  before to the state after. When the request gets as far as the reservation, the answer is \<open>AlreadyIssued\<close>.
\<close>

theorem issued_tuple_refused:
  assumes "env_within same_issuances E" and "issuance_inv (app_db st)" and "req_tuple req \<in> ran (slot (app_db st))"
  shows "(\<forall>res st'. sign L E st i req = Some (res, st') \<longrightarrow>
      (\<exists>e. res = Err e) \<and> issuances (app_db st') = issuances (app_db st) \<and> st' = st\<lparr>app_kg := app_kg st'\<rparr> \<and>
      (\<forall>R. reflp R \<and> transp R \<and> (\<forall>s g. R s (register_worker g s)) \<and> env_within R E \<longrightarrow> R (app_kg st) (app_kg st'))) \<and>
    (rl_check (app_rate_limiter st) (\<lambda>i. rq_engine E (3 + i)) (rq_clock E 0) (app_db st)
        (app_db st) (sr_participant_id req) = Ok Allow \<longrightarrow> stmt_fault (rq_engine E 5) 0 = None \<longrightarrow>
      issuances_seq (app_db st) < i64_max \<longrightarrow>
      fst (sign_blocking L E st req bl) = Err app_error.AlreadyIssued)"
proof (intro conjI [rotated] allI impI)
  let ?st1 = "interfere E 4 st" and ?st2 = "interfere E 5 (interfere E 4 st)"
  assume rl: "rl_check (app_rate_limiter st) (\<lambda>i. rq_engine E (3 + i)) (rq_clock E 0) (app_db st)
    (app_db st) (sr_participant_id req) = Ok Allow" and ok: "stmt_fault (rq_engine E 5) 0 = None" "issuances_seq (app_db st) < i64_max"
  have same: "same_rows st ?st1" "same_rows st ?st2"
    by (intro same_rows_interfere [OF assms(1)] si.stay)+
  have "reserve_issuance (rq_engine E 5) (rq_clock E 1) (app_db ?st2) (sr_group_id req)
      (sr_participant_id req) (sr_version_id req) = (Ok reservation.AlreadyIssued, app_db ?st2)"
    using ok assms(3) issuance_exists_slot [OF assms(2)] same(2) same_rows_facts(4) [OF same(2)]
    by (simp add: reserve_AlreadyIssued_iff same_issuances_def)
  with rl rl_check_same [OF si.stay same(1)] show "fst (sign_blocking L E st req bl) = Err app_error.AlreadyIssued"
    by (simp add: sign_blocking_def Let_def)
next
  fix res st'
  assume s: "sign L E st i req = Some (res, st')"
  show "st' = st\<lparr>app_kg := app_kg st'\<rparr>"
    using si.sign_held_frame [OF assms(1) assms s] by blast
  show "R (app_kg st) (app_kg st')"
    if "reflp R \<and> transp R \<and> (\<forall>s g. R s (register_worker g s)) \<and> env_within R E" for R
    using interference.sign_held_frame [OF worker_interference _ assms s] that by blast
  from assms(1) s have "same_rows st st' \<and> (\<exists>e. res = Err e)"
  proof (cases rule: sign_cases)
    case (blocking bl st1)
    with sign_blocking_held [OF assms(1) _ _ blocking(4)] assms(2,3) same_rows_facts [OF blocking(2)] show ?thesis
      using same_rows_trans by auto
  qed simp
  then show "issuances (app_db st') = issuances (app_db st)" "\<exists>e. res = Err e"
    using same_rows_facts(1) by blast+
qed

theorem issued_tuple_refused_witness:
  "\<exists>e st'. sign ref_libs ref_env ref_app_issued ref_client ref_req = Some (Err e, st') \<and> app_db st' = app_db ref_app_issued \<and>
     fst (sign_blocking ref_libs ref_env ref_app_issued ref_req [1]) = Err app_error.AlreadyIssued"
proof -
  let ?same = "\<lambda>s s'. kg_db s' = kg_db s"
  have held: "req_tuple ref_req \<in> ran (slot (app_db ref_app_issued))"
    by simp
  note refused = issued_tuple_refused [OF ref_env_within [OF si.stay] ref_app_issued_sel(1) held]
  have "rl_check (app_rate_limiter ref_app_issued) (\<lambda>i. rq_engine ref_env (3 + i)) (rq_clock ref_env 0)
      (app_db ref_app_issued) (app_db ref_app_issued) (sr_participant_id ref_req) = Ok Allow"
    by (simp add: rl_check_spec ref_app_issued_def rows_since_def Let_def)
  moreover have "issuances_seq (app_db ref_app_issued) < i64_max"
    by (simp add: ref_app_issued_def i64_max_def)
  ultimately have answer: "fst (sign_blocking ref_libs ref_env ref_app_issued ref_req [1]) = Err app_error.AlreadyIssued"
    using refused [THEN conjunct2] by simp
  have "active_row (app_db ref_app_issued) ''g'' \<noteq> None"
    by (simp add: ref_active)
  then have "sign_ready ref_env ref_app_issued ''g'' = Some (Ok (), ref_app_issued)"
    using sign_ready_active [OF ref_env_ok(2)] by auto
  then obtain r st' where s: "sign ref_libs ref_env ref_app_issued ref_client ref_req = Some (r, st')"
    by (cases "sign_blocking ref_libs ref_env (interfere ref_env 3 ref_app_issued) ref_req (str_bytes ''blinded'')")
      (simp add: sign_def ref_validate)
  have "reflp ?same \<and> transp ?same \<and> (\<forall>s g. ?same s (register_worker g s)) \<and> env_within ?same ref_env"
    using ref_env_within [of ?same] by (auto simp: reflp_def transp_def register_worker_def spawn_worker_def Let_def)
  with refused [THEN conjunct1, rule_format, OF s] s answer show ?thesis
    by auto
qed

text \<open>
  C6. A proper request is served: from an identity of the signing surface, with valid fields, room
  under both ceilings, a participation not yet recorded and a group key that opens and signs, the
  answer is the signature and the participation is recorded; other tasks may do whatever leaves the
  issuance table and this group's key alone.
\<close>

theorem sign_served:
  assumes "env_within (\<lambda>s s'. same_issuances s s' \<and>
      active_row (kg_db s') (sr_group_id req) = active_row (kg_db s) (sr_group_id req)) E"
    and "faultless E" and "rq_join E = None" and "issuance_inv (app_db st)"
    and "issuances_seq (app_db st) < i64_max"
    and "sign_validate L i req = Ok bl"
    and "rl_check (app_rate_limiter st) (\<lambda>i. rq_engine E (3 + i)) (rq_clock E 0) (app_db st) (app_db st)
        (sr_participant_id req) = Ok Allow"
    and "req_tuple req \<notin> ran (slot (app_db st))"
    and "active_row (app_db st) (sr_group_id req) = Some r"
    and "open_sealed L (app_kek st) (sr_group_id req) (gk_key_id r) (gk_sealed_pkcs8 r) = Ok pkcs8"
    and "blind_sign L pkcs8 (sr_version_id req) bl = Ok sig"
  shows "\<exists>st'. sign L E st i req = Some (Ok \<lparr>blind_signature = b64_encode L sig\<rparr>, st') \<and>
    req_tuple req \<in> ran (slot (app_db st'))"
proof -
  have within: "env_within same_issuances E"
    using assms(1) by (auto simp: env_within_def)
  let ?st1 = "interfere E 3 st"
  have st1: "same_rows st ?st1"
    by (intro same_rows_interfere [OF within] si.stay)
  have row: "active_row (app_db ?st1) (sr_group_id req) = Some r"
    using assms(1,9) by (simp add: env_within_def)
  have inv1: "issuance_inv (app_db ?st1)" and free: "req_tuple req \<notin> ran (slot (app_db ?st1))"
    using assms(4,8) same_rows_facts [OF st1] by simp_all
  have ok: "fst (sign_blocking L E ?st1 req bl) = Ok \<lparr>blind_signature = b64_encode L sig\<rparr>"
    using assms(1,2) inv1 _ _ free row
  proof (rule sign_blocking_served)
    show "issuances_seq (app_db ?st1) < i64_max"
      using assms(5) st1 by (simp add: same_issuances_def)
    show "rl_check (app_rate_limiter ?st1) (\<lambda>i. rq_engine E (3 + i)) (rq_clock E 0) (app_db ?st1) (app_db ?st1)
        (sr_participant_id req) = Ok Allow"
      using assms(7) rl_check_same [OF st1 st1] by simp
  qed (use assms(10,11) in simp_all)
  then obtain st' where sb: "sign_blocking L E ?st1 req bl = (Ok \<lparr>blind_signature = b64_encode L sig\<rparr>, st')"
    by (cases "sign_blocking L E ?st1 req bl") simp
  have "sign L E st i req = Some (sign_blocking L E ?st1 req bl)"
    using sign_ready_active [OF assms(2,9)] assms(3,6) by (simp add: sign_def)
  with sb sign_blocking_Ok [OF within inv1 sb] show ?thesis
    by (auto simp: ran_def split: if_splits)
qed

theorem sign_served_witness:
  "\<exists>r st. sign ref_libs ref_env ref_app ref_client ref_req = Some (Ok r, st) \<and>
     (''g'', ''p'', ''v'') \<in> ran (slot (app_db st))"
proof -
  note row = ref_active [OF refl]
  have inv: "issuance_inv (app_db ref_app)" "issuances_seq (app_db ref_app) < i64_max"
    using ref_db_inv by (simp_all add: db_inv_def i64_max_def)
  have rl: "rl_check (app_rate_limiter ref_app) (\<lambda>i. rq_engine ref_env (3 + i)) (rq_clock ref_env 0)
      (app_db ref_app) (app_db ref_app) (sr_participant_id ref_req) = Ok Allow"
    by (simp add: ref_rl_check)
  have free: "req_tuple ref_req \<notin> ran (slot (app_db ref_app))"
    by (simp add: slot_def)
  have within: "env_within (\<lambda>s s'. same_issuances s s' \<and>
      active_row (kg_db s') (sr_group_id ref_req) = active_row (kg_db s) (sr_group_id ref_req)) ref_env"
    by (rule ref_env_within) (simp add: si.stay)
  from sign_served [OF within ref_env_ok(2) ref_env_sel(3) inv ref_validate rl free, unfolded ref_app_db ref_req_sel,
      OF row _ ref_blind_sign, of "[1, 2, 3]"]
  show ?thesis
    by (auto simp: ref_open_key)
qed

subsection \<open>The ceilings\<close>

text \<open>
  Over any sequence of requests served one after another in the order of the clock, every window
  of the configured length holds at most \<open>global_max\<close> issuances, and at most \<open>participant_max\<close> of one
  participant.
\<close>

lemma issuance_within_ceilings:
  assumes "uint (window_secs (app_rate_limiter st)) < 2 ^ 63" and "issuances (app_db st) = []"
    and "sorted (map snd calls)" and "\<forall>(c, now) \<in> set calls. clock_in_range now"
  shows "in_window (uint (window_secs (app_rate_limiter st)) + 1) T
      (issue_times (fold (\<lambda>(c, now). serve_sign L c now) calls st) k) \<le>
    issue_limit (app_rate_limiter st) k"
proof (rule sg.run_bounded [where m = 0])
  show "issue_past (app_rate_limiter st) st 0"
    using assms(1,2) by (simp add: issue_past_def)
  show "sorted (0 # map snd calls)"
    using assms(3,4) by (auto simp: clock_in_range_def)
  show "in_window (uint (window_secs (app_rate_limiter st)) + 1) T' (issue_times st k) \<le>
      issue_limit (app_rate_limiter st) k" for T'
    using assms(2) by (cases k) (simp_all add: in_window_def)
qed (rule assms(4))

text \<open>
  C40. The window is read as a signed number: with the largest value the configuration accepts,
  \<open>2 ^ 64 - 1\<close>, the start of the window lies in the future, so that no issuance recorded up
  to now is counted and the check allows every request, however many were issued.
\<close>

theorem huge_window_disables_limiter:
  assumes "window_secs rl = - 1" and "0 \<le> clk" and "clk < i64_max"
    and "\<forall>r \<in> set (issuances d). is_issued_at r \<le> clk"
    and "0 < participant_max rl" and "0 < global_max rl" and "\<forall>i j. stmt_fault (engs i) j = None"
  shows "rl_check rl engs clk d d p = Ok Allow"
proof -
  have "now_secs clk = clk"
    using assms(2,3) by (simp add: now_secs_def)
  then have "rows_since d (window_start (window_secs rl) (now_secs clk)) = []"
    using assms(1,4) window_start_max [OF assms(2,3)] by (auto simp: rows_since_def filter_empty_conv)
  with assms(5,6) show ?thesis
    by (simp add: rl_check_spec [OF assms(7)] word_less_nat_alt)
qed

theorem huge_window_disables_limiter_witness:
  "rl_check (rl_new 1 1 (- 1)) (\<lambda>_. ok_engine) 1000 (app_db ref_app_issued) (app_db ref_app_issued) ''p'' = Ok Allow"
  using huge_window_disables_limiter [of "rl_new 1 1 (- 1)" 1000 "app_db ref_app_issued" "\<lambda>_. ok_engine" "''p''"]
  by (simp add: ref_app_issued_def i64_max_def)

subsection \<open>Requests generate no keys\<close>

text \<open>
  C10. The signing path never generates a key: its answer and its effect do not depend on what a key
  generation would draw, seal or store, whatever the other tasks of the service do meanwhile.
\<close>

theorem sign_generates_no_key:
  assumes "good (app_kg st)" and "req_rely E"
  shows "sign L E st i req = sign L (E\<lparr>rq_key := K\<rparr>) st i req"
  by (rule sign_key_independent [OF assms])

theorem sign_generates_no_key_witness:
  "sign ref_libs ref_env ref_app ref_client ref_req =
     sign ref_libs (ref_env\<lparr>rq_key := ref_key_env\<lparr>env_gen := (\<lambda>_. Err ''no entropy'')\<rparr>\<rparr>) ref_app ref_client ref_req"
proof -
  have "good (app_kg ref_app)"
    using ref_app_inv by (simp add: server_inv_def)
  then show ?thesis
    using sign_generates_no_key [OF _ develops_rely [OF ref_env_within [OF dv.stay]]] by blast
qed

end
