(* ===== verification/Key_Theorems.thy ===== *)
theory Key_Theorems
  imports Reference_Libs
begin

text \<open>
  The main theorems on keys: a wait for a key returns and \<open>Ready\<close> means a key, stored keys open, rotation
  uses fresh ids, generation is bounded, sealed blobs are bound to their row.
\<close>

subsection \<open>The key-generation service\<close>

lemma keys_inv_empty: "keys_inv empty_tables"
  using db_inv_empty by (simp add: db_inv_def)

text \<open>
  A \<open>/sign\<close> request always gets an answer: its wait for a key is bounded by the deadline,
  whatever wakes it before.
\<close>

lemma sign_returns:
  assumes "Deadline f \<in> set (rq_wakes E)"
  shows "\<exists>res st'. sign L E st i req = Some (res, st')"
proof -
  obtain r s where "wait_ready (rq_engine E) (rq_other E) (rq_wakes E) (app_kg st) (sr_group_id req) = Some (r, s)"
    using wait_ready_returns [OF assms] by fastforce
  then obtain r' st1 where "sign_ready E st (sr_group_id req) = Some (r', st1)"
    by (cases "auto_create_keys st") (simp_all add: sign_ready_def)
  then show ?thesis
    by (cases r') (auto simp: sign_def split: sum.split option.split)
qed

text \<open>
  C14. When \<open>wait_ready\<close> answers \<open>Ready\<close> the group has an active key in the state it returns with,
  while other tasks interleave in any way the service allows.
\<close>

theorem wait_ready_means_key:
  assumes "good s" and "\<forall>i. rely (other i)"
    and "wakes_ok events"
    and "wait_ready engs other events s g = Some (Ok Ready, s')"
  shows "good s' \<and> (\<exists>i pk. active_pub (kg_db s') g = Some (i, pk))"
  using wait_ready_spec [OF assms] by (auto simp: has_key_def active_pub_def dest: evolves_good)

theorem wait_ready_means_key_witness:
  "\<exists>s' i pk. wait_ready (\<lambda>_. ok_engine) (\<lambda>_ s. s) [Deadline (\<lambda>s. s)] (app_kg ref_app) ''g'' = Some (Ok Ready, s') \<and>
     active_pub (kg_db s') ''g'' = Some (i, pk)"
proof -
  have w: "wait_ready (\<lambda>_. ok_engine) (\<lambda>_ s. s) [Deadline (\<lambda>s. s)] (app_kg ref_app) ''g'' = Some (Ok Ready, app_kg ref_app)"
    by (simp add: wait_ready_def ensure_def active_key_def ref_active run_stmt_def)
  have "good (app_kg ref_app)"
    using ref_app_inv by (simp add: server_inv_def)
  with w show ?thesis
    using wait_ready_means_key [OF _ _ _ w] rely_id by (auto simp: id_def wakes_ok_def)
qed

subsection \<open>Stored keys\<close>

text \<open>
  A key that \<open>create_key\<close> returned is the one that \<open>get_or_create_key\<close> loads afterwards, private
  half included.
\<close>

lemma created_key_loads:
  assumes "aead_roundtrip L" and "length (env_nonce E) = NONCE_LEN" and "keys_inv d"
    and "create_key L E d k g bits = (Ok (p, s), d')" and "stmt_fault eng 0 = None"
  shows "get_or_create_key L eng E' d' d'' k g bits' auto = (Ok (p, s), None)"
  by (rule get_after_create [OF assms])

lemma ref_key_env_sel [simp]:
  "env_gen ref_key_env i = Ok [1, 2, 3]" "env_nonce ref_key_env = ref_nonce" "env_clock ref_key_env i = 1000"
  "env_engine ref_key_env i = ok_engine"
  by (simp_all add: ref_key_env_def)

lemma ref_generate: "generate_group_key ref_libs (env_gen ref_key_env) 2048 = Ok \<lparr>pkcs8_der = [1, 2, 3], spki_der = [2, 3, 4]\<rparr>"
  by (simp add: generate_group_key_def MAX_ATTEMPTS_def numeral_eq_Suc export_key_def ref_libs_def)

text \<open>A call that creates or rotates a key, and a history of them.\<close>

datatype key_call = CreateCall key_env string | RotateCall key_env string

fun exec_key_call :: "libs \<Rightarrow> kek \<Rightarrow> nat \<Rightarrow> key_call \<Rightarrow> db \<Rightarrow> db" where
  "exec_key_call L k bits (CreateCall E g) d = snd (create_key L E d k g bits)"
| "exec_key_call L k bits (RotateCall E g) d = snd (rotate_key L E d k g bits)"

fun call_nonce :: "key_call \<Rightarrow> bytes" where
  "call_nonce (CreateCall E g) = env_nonce E"
| "call_nonce (RotateCall E g) = env_nonce E"

lemma exec_key_call_openable:
  assumes "aead_roundtrip L" and "length (call_nonce c) = NONCE_LEN" and "keys_inv d" and "keys_openable L k d"
  shows "keys_inv (exec_key_call L k bits c d) \<and> keys_openable L k (exec_key_call L k bits c d)"
proof (cases c)
  case (CreateCall E g)
  with assms show ?thesis
    using create_key_inv [OF assms(3) prod.collapse [symmetric], of L E k g bits]
      create_key_openable [OF assms(1) _ assms(3,4) prod.collapse [symmetric], of E g bits] by simp
next
  case (RotateCall E g)
  with assms show ?thesis
    using rotate_key_inv [OF assms(3) prod.collapse [symmetric], of L E k g bits]
      rotate_key_openable [OF assms(1) _ assms(3,4) prod.collapse [symmetric], of E g bits] by simp
qed

text \<open>
  C16. Over any history of key creations and rotations, with or without database faults, every stored
  key row (retired ones included) has a blob that opens under its own group and id.
\<close>

theorem keys_stay_openable:
  assumes "aead_roundtrip L" and "\<forall>c \<in> set calls. length (call_nonce c) = NONCE_LEN"
    and "keys_inv d" and "keys_openable L k d"
  shows "keys_inv (fold (exec_key_call L k bits) calls d) \<and>
    keys_openable L k (fold (exec_key_call L k bits) calls d)"
  using assms(2-4)
proof (induction calls arbitrary: d)
  case Nil
  then show ?case by simp
next
  case (Cons c calls)
  then show ?case using exec_key_call_openable [OF assms(1), of c d k bits] by simp
qed

theorem keys_stay_openable_witness:
  "keys_openable ref_libs ref_kek (fold (exec_key_call ref_libs ref_kek 2048)
     [CreateCall ref_key_env ''g'', RotateCall ref_key_env ''g'', RotateCall ref_key_env ''h''] empty_tables)"
proof -
  have "keys_openable ref_libs ref_kek empty_tables"
    by (simp add: keys_openable_def empty_tables_def)
  then show ?thesis
    using keys_stay_openable [of ref_libs "[CreateCall ref_key_env ''g'', RotateCall ref_key_env ''g'',
        RotateCall ref_key_env ''h'']" empty_tables ref_kek 2048] keys_inv_empty
    by (simp del: fold.simps)
qed

text \<open>
  C17. A rotation makes the key it returns the active one of its group, under an id above every id ever
  used; the rows of other groups are untouched and retired rows keep their sealed keys.
\<close>

theorem rotation_fresh:
  assumes "keys_inv d" and "rotate_key L E d k g bits = (Ok pk, d')"
  shows "(\<exists>i. active_pub d' g = Some (i, pk) \<and> (\<forall>r \<in> set (group_keys d). gk_key_id r < i)) \<and>
    (\<forall>h. h \<noteq> g \<longrightarrow> active_pub d' h = active_pub d h) \<and>
    (\<exists>row. map (\<lambda>r. (gk_key_id r, gk_group_id r, gk_spki_der r, gk_sealed_pkcs8 r)) (group_keys d') =
       map (\<lambda>r. (gk_key_id r, gk_group_id r, gk_spki_der r, gk_sealed_pkcs8 r)) (group_keys d) @ [row])"
proof -
  have act: "active_pub d' = (active_pub d)(g \<mapsto> (group_keys_seq d', pk))" and seq: "group_keys_seq d < group_keys_seq d'"
    using ks.rotate_done [OF assms] by blast+
  have below: "\<forall>r \<in> set (group_keys d). gk_key_id r < group_keys_seq d'"
    using assms(1) seq by (auto simp: keys_inv_def)
  obtain now now' blob where d': "d' = with_new_key (retire_active now g d) now' g pk blob"
    using assms by (elim rotate_key_Ok) blast
  then have "map (\<lambda>r. (gk_key_id r, gk_group_id r, gk_spki_der r, gk_sealed_pkcs8 r)) (group_keys d') =
       map (\<lambda>r. (gk_key_id r, gk_group_id r, gk_spki_der r, gk_sealed_pkcs8 r)) (group_keys d) @
         [(group_keys_seq d + 1, g, pk, blob)]"
    by (simp add: with_new_key_def Let_def retire_active_def fresh_key_row_def)
  with act below show ?thesis by auto
qed

lemma ref_rotate: "\<exists>d'. rotate_key ref_libs ref_key_env ref_db ref_kek ''g'' 2048 = (Ok [2, 3, 4], d')"
proof -
  have inv: "keys_inv ref_db"
    using ref_db_inv by (simp add: db_inv_def)
  have "\<exists>d'. rotate_key_sealed ok_engine (env_clock ref_key_env) ref_db ''g'' [2, 3, 4]
      (\<lambda>key_id. seal ref_libs ref_nonce ref_kek ''g'' key_id [1, 2, 3]) = (Ok 2, d')"
    by (simp add: rotate_sealed_Ok_iff [OF inv] ref_seal i64_max_def)
  then show ?thesis
    by (auto simp: rotate_key_def ref_generate)
qed

theorem rotation_fresh_witness:
  "\<exists>d' i. rotate_key ref_libs ref_key_env ref_db ref_kek ''g'' 2048 = (Ok [2, 3, 4], d') \<and>
     active_pub d' ''g'' = Some (i, [2, 3, 4]) \<and> 1 < i"
proof -
  obtain d' where r: "rotate_key ref_libs ref_key_env ref_db ref_kek ''g'' 2048 = (Ok [2, 3, 4], d')"
    using ref_rotate by blast
  have "\<exists>r \<in> set (group_keys ref_db). gk_key_id r = 1"
    by (simp add: ref_db_def with_new_key_def empty_tables_def Let_def fresh_key_row_def)
  moreover have "keys_inv ref_db"
    using ref_db_inv by (simp add: db_inv_def)
  ultimately obtain i where "active_pub d' ''g'' = Some (i, [2, 3, 4])" "1 < i"
    using rotation_fresh [OF _ r] by metis
  with r show ?thesis by blast
qed

text \<open>
  C18. Key generation draws at most 64 key pairs. It succeeds exactly when one of them, with only
  short moduli before it, has the configured number of modulus bits and can be exported; that
  first one is the key.
\<close>

theorem generation_bounded:
  "generate_group_key L gen bits = Ok key \<longleftrightarrow>
     (\<exists>i < 64. \<exists>kp. (\<forall>j < i. \<exists>kp'. gen j = Ok kp' \<and> rsa_modulus_bits L kp' \<noteq> bits) \<and>
        gen i = Ok kp \<and> rsa_modulus_bits L kp = bits \<and> export_key L kp = Ok key)"
  unfolding generate_group_key_Ok_iff short_attempt_def MAX_ATTEMPTS_def by simp

theorem generation_bounded_witness:
  "generate_group_key (ref_libs\<lparr>rsa_modulus_bits := length\<rparr>) (\<lambda>i. Ok (replicate i 1)) 2 =
     Ok \<lparr>pkcs8_der = [1, 1], spki_der = [2, 2]\<rparr>"
  by (subst generation_bounded, rule exI [of _ 2]) (simp add: export_key_def ref_libs_def numeral_2_eq_2)

subsection \<open>Sealed blobs\<close>

text \<open>
  C20. A blob sealed for one (group, id) opens under no other pair of a group and a 64-bit id, although
  the associated data is a plain concatenation; in particular a service key (id 0) never opens as a
  group key (ids from 1) or the other way round.
\<close>

theorem sealed_blob_bound_to_row:
  assumes "aead_roundtrip L"
    and "aead_authentic L (kek_bytes k) {associated_data g i, associated_data h j}"
    and "length n = NONCE_LEN" and "seal L n k g i p = Ok blob"
    and "in_i64 i" and "in_i64 j" and "(h, j) \<noteq> (g, i)"
  shows "open_sealed L k h j blob = Err ''AES-GCM decryption/authentication failed''"
  by (rule open_seal_other [OF assms])

lemma last_tag16: "a \<noteq> [] \<Longrightarrow> last (tag16 a) = last a"
  unfolding tag16_def by (subst last_drop) simp_all

lemma last_be_bytes: "last (be_bytes (Suc k) n) = word_of_nat n"
  by (induction k) simp_all

lemma associated_data_ne [simp]: "associated_data g i \<noteq> []"
  by (simp add: associated_data_def flip: length_greater_0_conv)

lemma last_associated: "last (associated_data g i) = word_of_nat (nat (i mod 2 ^ 64))"
proof -
  have "i64_be_bytes i \<noteq> []"
    by (simp flip: length_greater_0_conv)
  then show ?thesis
    using last_be_bytes [of 7 "nat (i mod 2 ^ 64)"] by (simp add: associated_data_def i64_be_bytes_def)
qed

theorem sealed_blob_bound_to_row_witness:
  "open_sealed ref_libs ref_kek MASTER_SEED_PURPOSE SERVICE_KEY_ID
     (BLOB_VERSION # ref_nonce @ [1, 2, 3] @ tag16 (associated_data ''g'' 1)) =
     Err ''AES-GCM decryption/authentication failed''"
proof -
  have "last (tag16 (associated_data ''g'' 1)) \<noteq> last (tag16 (associated_data MASTER_SEED_PURPOSE SERVICE_KEY_ID))"
    by (simp add: last_tag16 last_associated SERVICE_KEY_ID_def)
  then have "aead_authentic ref_libs (kek_bytes ref_kek)
      {associated_data ''g'' 1, associated_data MASTER_SEED_PURPOSE SERVICE_KEY_ID}"
    by (intro ref_aead_authentic) (auto simp: inj_on_def)
  then show ?thesis
    by (rule sealed_blob_bound_to_row [OF ref_aead_roundtrip _ length_ref_nonce ref_seal])
      (simp_all add: in_i64_def SERVICE_KEY_ID_def)
qed

end
