(* ===== verification/Service_Programs.thy ===== *)
theory Service_Programs
  imports Server_Properties Issuance_Concurrency
begin

text \<open>
  The handlers as programs. A program is a sequence of sections: what a request does between two
  points at which other tasks may run (a lock given up, an await, the start of a blocking task). A
  section reads and changes the shared state at once and says how to go on, or cannot run yet (no
  permit is free). The programs are composed here the way \<open>Handlers_Sign\<close> and \<open>Handlers_Prf\<close>
  compose the handlers, and \<open>exec_handle\<close> shows that a program run with the surroundings of a request
  in the gaps is the handler.
\<close>

subsection \<open>Programs\<close>

text \<open>
  Where a section runs: right after the one before in the same poll of the future, when the future is
  polled again after an await, or on the blocking pool.
\<close>

datatype place = Inline | Await | Pool

datatype wake_kind = OnDeadline | OnChanged | OnDropped

text \<open>
  A section has the number of the gap before it (none before the first section of a program), its
  place, whether the future owns a permit of the semaphore when the section starts, and its body.
  \<open>WaitLoop\<close> is the \<open>select!\<close> of \<open>wait_ready\<close>, which reacts to what wakes it or goes on waiting.
\<close>

datatype 'r prog =
    Return 'r
  | Section "nat option" place bool "app_state \<Rightarrow> (app_state \<times> 'r prog) option"
  | WaitLoop "wake_kind \<Rightarrow> app_state \<Rightarrow> (app_state \<times> 'r prog) option"

text \<open>Induction over what the sections of a program go on with.\<close>

lemma prog_induct [case_names Return Section WaitLoop]:
  assumes "\<And>r. P (Return r)"
    and "\<And>i pl h f. (\<And>st st' p. f st = Some (st', p) \<Longrightarrow> P p) \<Longrightarrow> P (Section i pl h f)"
    and "\<And>f. (\<And>w st st' p. f w st = Some (st', p) \<Longrightarrow> P p) \<Longrightarrow> P (WaitLoop f)"
  shows "P p"
proof (induction p)
  case (Section i pl h f)
  show ?case
    by (rule assms(2)) (metis Section.IH option.set_intros rangeI snd_conv snds.intros)
next
  case (WaitLoop f)
  show ?case
    by (rule assms(3)) (metis WaitLoop.IH option.set_intros rangeI snd_conv snds.intros)
qed (rule assms(1))

primrec bind_prog :: "'a prog \<Rightarrow> ('a \<Rightarrow> 'b prog) \<Rightarrow> 'b prog" where
  "bind_prog (Return r) k = k r"
| "bind_prog (Section i pl h f) k = Section i pl h (\<lambda>st. map_option (map_prod id (\<lambda>p. bind_prog p k)) (f st))"
| "bind_prog (WaitLoop f) k = WaitLoop (\<lambda>w st. map_option (map_prod id (\<lambda>p. bind_prog p k)) (f w st))"

subsection \<open>Running a program in the surroundings of one request\<close>

fun wake_kind_of :: "wake \<Rightarrow> wake_kind" where
  "wake_kind_of (Deadline f) = OnDeadline"
| "wake_kind_of (Changed f) = OnChanged"
| "wake_kind_of (SenderDropped f) = OnDropped"

primrec wait_exec ::
  "(wake_kind \<Rightarrow> app_state \<Rightarrow> (app_state \<times> (app_state \<Rightarrow> 'x option)) option) \<Rightarrow> wake list \<Rightarrow> app_state \<Rightarrow> 'x option" where
  "wait_exec f [] st = None"
| "wait_exec f (w # ws) st =
     (let st1 = st\<lparr>app_kg := wake_effect w (app_kg st)\<rparr> in
      case f (wake_kind_of w) st1 of None \<Rightarrow> wait_exec f ws st1 | Some (st2, k) \<Rightarrow> k st2)"

definition gap :: "req_env \<Rightarrow> nat option \<Rightarrow> app_state \<Rightarrow> app_state" where
  "gap E i st = (case i of None \<Rightarrow> st | Some n \<Rightarrow> interfere E n st)"

primrec exec :: "req_env \<Rightarrow> 'r prog \<Rightarrow> app_state \<Rightarrow> ('r \<times> app_state) option" where
  "exec E (Return r) st = Some (r, st)"
| "exec E (Section i pl h f) st =
     (case map_option (map_prod id (exec E)) (f (gap E i st)) of
        None \<Rightarrow> None | Some (st', k) \<Rightarrow> k st')"
| "exec E (WaitLoop f) st = wait_exec (\<lambda>w st. map_option (map_prod id (exec E)) (f w st)) (rq_wakes E) st"

lemma gap_simps [simp]: "gap E None st = st" "gap E (Some n) st = interfere E n st"
  by (simp_all add: gap_def)

lemma exec_section:
  "exec E (Section i pl h f) st = (case f (gap E i st) of None \<Rightarrow> None | Some (st', p) \<Rightarrow> exec E p st')"
  by (cases "f (gap E i st)") auto

lemma exec_section_Some [simp]: "exec E (Section i pl h (\<lambda>st. Some (F st))) st =
    exec E (snd (F (gap E i st))) (fst (F (gap E i st)))"
  by (simp add: exec_section case_prod_unfold)

declare exec.simps(2) [simp del]

lemma wait_exec_bind:
  "wait_exec (\<lambda>w st. map_option (map_prod id (exec E)) (map_option (map_prod id (\<lambda>p. bind_prog p k)) (f w st))) ws st =
    Option.bind (wait_exec (\<lambda>w st. map_option (map_prod id (exec E)) (f w st)) ws st) (\<lambda>(r, st). exec E (k r) st)"
  if "\<And>w st st' p st''. f w st = Some (st', p) \<Longrightarrow>
    exec E (bind_prog p k) st'' = Option.bind (exec E p st'') (\<lambda>(r, st). exec E (k r) st)"
proof (induction ws arbitrary: st)
  case Nil
  then show ?case by simp
next
  case (Cons w ws)
  let ?st = "st\<lparr>app_kg := wake_effect w (app_kg st)\<rparr>"
  show ?case
    by (cases "f (wake_kind_of w) ?st") (auto simp: Let_def Cons [unfolded id_def] that id_def)
qed

lemma exec_bind [simp]:
  "exec E (bind_prog p k) st = Option.bind (exec E p st) (\<lambda>(r, st). exec E (k r) st)"
proof (induction p arbitrary: st rule: prog_induct)
  case (Section i pl h f)
  then show ?case
    by (cases "f (gap E i st)") (auto simp: exec_section)
next
  case (WaitLoop f)
  then show ?case
    by (simp add: wait_exec_bind)
qed simp

subsection \<open>The key-generation service\<close>

text \<open>
  \<open>ensure\<close> looks the key up, and registers a worker under the lock of the in-flight map; \<open>first\<close> and
  \<open>locked\<close> are the gaps before the two.
\<close>

definition ensure_prog ::
  "nat option \<Rightarrow> nat \<Rightarrow> (nat \<Rightarrow> engine) \<Rightarrow> string \<Rightarrow> (string + keygen_status) prog" where
  "ensure_prog first locked engs g =
     Section first Inline False (\<lambda>st. Some (st,
       case active_key (engs 0) (app_db st) g of
         Err e \<Rightarrow> Return (Err e)
       | Ok (Some _) \<Rightarrow> Return (Ok Ready)
       | Ok None \<Rightarrow>
           Section (Some locked) Inline False (\<lambda>st.
             let (r, s) = ensure_locked (engs 1) (app_kg st) g in Some (st\<lparr>app_kg := s\<rparr>, Return r))))"

definition status_section :: "engine \<Rightarrow> string \<Rightarrow> app_state \<Rightarrow> app_state \<times> (string + keygen_status) prog" where
  "status_section eng g st = (st,
     case active_key eng (app_db st) g of
       Err e \<Rightarrow> Return (Err e)
     | Ok (Some _) \<Rightarrow> Return (Ok Ready)
     | Ok None \<Rightarrow>
         Section (Some 2) Inline False (\<lambda>st. Some (st, Return (Ok
           (case inflight (app_kg st) g of Some rx \<Rightarrow> channels (app_kg st) rx | None \<Rightarrow> Pending)))))"

definition wait_loop_prog :: "engine \<Rightarrow> string \<Rightarrow> nat \<Rightarrow> (string + keygen_status) prog" where
  "wait_loop_prog eng g rx = WaitLoop (\<lambda>w st.
     case w of
       OnDeadline \<Rightarrow> Some (st, Return (Ok Pending))
     | OnChanged \<Rightarrow>
         (case channels (app_kg st) rx of
            Ready \<Rightarrow> Some (st, Return (Ok Ready))
          | Failed e \<Rightarrow> Some (st, Return (Ok (Failed e)))
          | Pending \<Rightarrow> None)
     | OnDropped \<Rightarrow> Some (status_section eng g st))"

definition wait_ready_prog :: "(nat \<Rightarrow> engine) \<Rightarrow> string \<Rightarrow> (string + keygen_status) prog" where
  "wait_ready_prog engs g =
     bind_prog (ensure_prog None 0 engs g) (\<lambda>r.
       case r of
         Err e \<Rightarrow> Return (Err e)
       | Ok Ready \<Rightarrow> Return (Ok Ready)
       | Ok (Failed e) \<Rightarrow> Return (Ok (Failed e))
       | Ok Pending \<Rightarrow>
           Section (Some 1) Inline False (\<lambda>st. Some (st,
             case inflight (app_kg st) g of
               Some rx \<Rightarrow>
                 (case channels (app_kg st) rx of
                    Ready \<Rightarrow> Return (Ok Ready)
                  | Failed e \<Rightarrow> Return (Ok (Failed e))
                  | Pending \<Rightarrow> wait_loop_prog (engs 2) g rx)
             | None \<Rightarrow> Section (Some 9) Inline False (\<lambda>st. Some (status_section (engs 2) g st)))))"

text \<open>
  \<open>rotate\<close> acquires a permit, which its future owns until it returns, lets the blocking pool rotate the
  key, and awaits that.
\<close>

definition release_permit :: "app_state \<Rightarrow> app_state" where
  "release_permit st = st\<lparr>app_kg := (app_kg st)\<lparr>permits := permits (app_kg st) + 1\<rparr>\<rparr>"

definition await_rotation :: "string + bytes \<Rightarrow> (string + bytes) prog" where
  "await_rotation r = Section (Some 2) Await True (\<lambda>st. Some (release_permit st, Return r))"

definition rotate_prog :: "libs \<Rightarrow> key_env \<Rightarrow> string option \<Rightarrow> string \<Rightarrow> (string + bytes) prog" where
  "rotate_prog L K join g =
     Section (Some 0) Await False (\<lambda>st.
       if closed (app_kg st) then Some (st, Return (Err ''keygen semaphore closed''))
       else if permits (app_kg st) = 0 then None
       else Some (st\<lparr>app_kg := (app_kg st)\<lparr>permits := permits (app_kg st) - 1\<rparr>\<rparr>,
         Section (Some 1) Pool True (\<lambda>st. Some (
           case join of
             Some e \<Rightarrow> (st, await_rotation (Err (''rotate task join error: '' @ e)))
           | None \<Rightarrow>
               let (r, d) = rotate_key L K (app_db st) (kg_kek (app_kg st)) g (kg_bits (app_kg st))
               in (set_db d st, await_rotation r)))))"

subsection \<open>The signing surface\<close>

text \<open>The gaps of \<open>sign_blocking\<close>, and how many steps are left.\<close>

fun pc_gap :: "sign_pc \<Rightarrow> nat" where
  "pc_gap CountGlobal = 3"
| "pc_gap CountParticipant = 4"
| "pc_gap Reserve = 5"
| "pc_gap (Load _) = 6"
| "pc_gap (Create _) = 8"
| "pc_gap _ = 7"

fun pc_rank :: "sign_pc \<Rightarrow> nat" where
  "pc_rank CountGlobal = 6"
| "pc_rank CountParticipant = 5"
| "pc_rank Reserve = 4"
| "pc_rank (Load _) = 3"
| "pc_rank (Create _) = 2"
| "pc_rank (Undo _ _) = 1"
| "pc_rank _ = 0"

lemma rank_after [simp]: "1 < n \<Longrightarrow> pc_rank (after_sign L i r) < n"
  by (cases r) (simp_all add: after_sign_def)

lemma sign_step_rank:
  assumes "sign_step L E req bl pc st = (pc', st')" and "pc_result pc = None"
  shows "pc_rank pc' < pc_rank pc"
  using assms
  by (cases pc) (auto simp: sign_step_def Let_def
      split: sum.splits if_splits option.splits reservation.splits prod.splits)

text \<open>
  \<open>sign_blocking\<close>, on the blocking pool. A denial by the global count is answered after one more pause,
  that of the await in \<open>sign\<close>.
\<close>

function sign_pool ::
  "libs \<Rightarrow> req_env \<Rightarrow> sign_request \<Rightarrow> bytes \<Rightarrow> sign_pc \<Rightarrow> (app_error + sign_response) prog" where
  "sign_pool L E req bl pc =
     (case pc_result pc of
        Some r \<Rightarrow> Return r
      | None \<Rightarrow>
          Section (Some (pc_gap pc)) Pool False (\<lambda>st.
            let (pc', st') = sign_step L E req bl pc st in
            Some (st',
              if pc = CountGlobal \<and> pc' \<noteq> CountParticipant
              then Section (Some 4) Await False (\<lambda>st. Some (st, sign_pool L E req bl pc'))
              else sign_pool L E req bl pc')))"
  by pat_completeness auto

termination
  by (relation "measure (\<lambda>(L, E, req, bl, pc). pc_rank pc)") (auto dest: sign_step_rank [OF sym])

declare sign_pool.simps [simp del]

definition sign_ready_prog :: "req_env \<Rightarrow> app_state \<Rightarrow> string \<Rightarrow> (app_error + unit) prog" where
  "sign_ready_prog E st g =
     (if auto_create_keys st then
        bind_prog (wait_ready_prog (rq_engine E) g) (\<lambda>r. Return
          (case r of
             Err e \<Rightarrow> Err (Internal e)
           | Ok Ready \<Rightarrow> Ok ()
           | Ok Pending \<Rightarrow> Err KeyPending
           | Ok (Failed e) \<Rightarrow> Err (Internal e)))
      else
        Section None Inline False (\<lambda>st. Some (st, Return
          (case kg_active_key (rq_engine E 0) (app_kg st) g of
             Err e \<Rightarrow> Err (Internal e)
           | Ok None \<Rightarrow> Err NoSuchKey
           | Ok (Some _) \<Rightarrow> Ok ()))))"

definition sign_prog ::
  "libs \<Rightarrow> req_env \<Rightarrow> app_state \<Rightarrow> client_identity \<Rightarrow> sign_request \<Rightarrow> (app_error + sign_response) prog" where
  "sign_prog L E st i req =
     (case sign_validate L i req of
        Err e \<Rightarrow> Return (Err e)
      | Ok blinded \<Rightarrow>
          bind_prog (sign_ready_prog E st (sr_group_id req)) (\<lambda>r.
            case r of
              Err e \<Rightarrow> Return (Err e)
            | Ok _ \<Rightarrow>
                (case rq_join E of
                   Some e \<Rightarrow> Section (Some 3) Pool False (\<lambda>st.
                     Some (st, Return (Err (Internal (''join error: '' @ e)))))
                 | None \<Rightarrow> sign_pool L E req blinded CountGlobal)))"

definition key_gate_prog ::
  "req_env \<Rightarrow> client_identity \<Rightarrow> string \<Rightarrow> (app_error + 'r) prog \<Rightarrow> (app_error + 'r) prog" where
  "key_gate_prog E i g p =
     Section None Inline False (\<lambda>st.
       case key_gate E st i g of
         (Err e, st) \<Rightarrow> Some (st, Return (Err e))
       | (Ok _, st) \<Rightarrow> Some (st, p))"

definition ensure_answer_prog :: "libs \<Rightarrow> req_env \<Rightarrow> string \<Rightarrow> (app_error + nat \<times> key_response) prog" where
  "ensure_answer_prog L E g =
     bind_prog (ensure_prog (Some 0) 1 (\<lambda>i. rq_engine E (1 + i)) g) (\<lambda>r.
       case r of
         Err e \<Rightarrow> Return (Err (Internal e))
       | Ok Ready \<Rightarrow>
           Section (Some 2) Inline False (\<lambda>st. Some (st, Return (ready_answer L (rq_engine E 3) (app_kg st) g)))
       | Ok Pending \<Rightarrow> Return (Ok (202, key_response_pending g))
       | Ok (Failed e) \<Rightarrow> Return (Err (Internal e)))"

definition get_key_prog ::
  "libs \<Rightarrow> req_env \<Rightarrow> client_identity \<Rightarrow> string \<Rightarrow> (app_error + nat \<times> key_response) prog" where
  "get_key_prog L E i g =
     key_gate_prog E i g (Section (Some 4) Inline False (\<lambda>st. Some (st,
       case kg_active_key (rq_engine E 0) (app_kg st) g of
         Err e \<Rightarrow> Return (Err (Internal e))
       | Ok (Some (key_id, spki)) \<Rightarrow> Return (Ok (200, key_response_ready L g spki key_id))
       | Ok None \<Rightarrow>
           if \<not> auto_create_keys st then Return (Err NoSuchKey) else ensure_answer_prog L E g)))"

definition create_key_prog ::
  "libs \<Rightarrow> req_env \<Rightarrow> client_identity \<Rightarrow> string \<Rightarrow> (app_error + nat \<times> key_response) prog" where
  "create_key_prog L E i g = key_gate_prog E i g (ensure_answer_prog L E g)"

definition rotate_key_prog ::
  "libs \<Rightarrow> req_env \<Rightarrow> client_identity \<Rightarrow> string \<Rightarrow> (app_error + key_response) prog" where
  "rotate_key_prog L E i g =
     (case bind_res (require_sign_surface i) (\<lambda>_. validate_id g ''group_id'') of
        Err e \<Rightarrow> Return (Err e)
      | Ok _ \<Rightarrow>
          if \<not> is_admin i then
            Return (Err (Forbidden ''key rotation requires an admin client identity''))
          else
            Section None Inline False (\<lambda>st.
              case check_key_rate_limit E st i of
                (Err e, st) \<Rightarrow> Some (st, Return (Err e))
              | (Ok _, st) \<Rightarrow> Some (st,
                  bind_prog (rotate_prog L (rq_key E) (rq_join E) g) (\<lambda>r.
                    case r of
                      Err e \<Rightarrow> Return (Err (Internal e))
                    | Ok spki \<Rightarrow>
                        Section (Some 3) Inline False (\<lambda>st. Some (st, Return
                          (case kg_active_key (rq_engine E 0) (app_kg st) g of
                             Err e \<Rightarrow> Err (Internal e)
                           | Ok None \<Rightarrow> Err (Internal ''key vanished after rotate'')
                           | Ok (Some (key_id, _)) \<Rightarrow> Ok (key_response_ready L g spki key_id))))))))"

subsection \<open>The PRF surface\<close>

definition gated_prog ::
  "req_env \<Rightarrow> client_identity \<Rightarrow> (prf_state \<Rightarrow> (app_error + 'r) prog) \<Rightarrow> (app_error + 'r) prog" where
  "gated_prog E i body =
     Section None Inline False (\<lambda>st.
       case require_prf E st i of
         (Err e, st) \<Rightarrow> Some (st, Return (Err e))
       | (Ok prf, st) \<Rightarrow> Some (st, body prf))"

definition run_db_prog :: "req_env \<Rightarrow> (db \<Rightarrow> (string + 'a) \<times> db) \<Rightarrow> (app_error + 'a) prog" where
  "run_db_prog E f =
     Section (Some 0) Pool False (\<lambda>st. Some (
       case rq_join E of
         Some e \<Rightarrow> (st, Return (Err (Internal (''join error: '' @ e))))
       | None \<Rightarrow> let (r, d) = f (app_db st) in (set_db d st, Return (map_err Internal r))))"

text \<open>The endpoints that compute their answer without the database do so in one section with their gate.\<close>

definition one_section :: "(app_state \<Rightarrow> 'r \<times> app_state) \<Rightarrow> 'r prog" where
  "one_section h = Section None Inline False (\<lambda>st. let (r, st) = h st in Some (st, Return r))"

definition disclose_prog ::
  "libs \<Rightarrow> req_env \<Rightarrow> client_identity \<Rightarrow> disclose_request \<Rightarrow> (app_error + string option) prog" where
  "disclose_prog L E i req = gated_prog E i (\<lambda>prf.
     case disclose_validate L req of
       Err e \<Rightarrow> Return (Err e)
     | Ok entry \<Rightarrow>
         bind_prog (run_db_prog E (\<lambda>d. (dedup_entry_by_ref (rq_engine E 0) d entry, d))) (\<lambda>r. Return
           (case r of
              Err e \<Rightarrow> Err e
            | Ok None \<Rightarrow> Err (NotFound ''no such dedup entry'')
            | Ok (Some en) \<Rightarrow>
                if \<not> owner_eq L (owner_tag en) (dq_owner_handle req)
                then Err (Forbidden ''owner_handle does not match the entry owner'')
                else Ok (disclose L (ps_keys prf) (entry_value en) (dq_client_id req)))))"

definition register_prog ::
  "libs \<Rightarrow> req_env \<Rightarrow> client_identity \<Rightarrow> register_request \<Rightarrow> (app_error + register_response) prog" where
  "register_prog L E i req = gated_prog E i (\<lambda>_.
     case register_validate L req of
       Err e \<Rightarrow> Return (Err e)
     | Ok v \<Rightarrow>
         (case rq_rng E of
            Err e \<Rightarrow> Return (Err (Internal (''OS RNG failure: '' @ e)))
          | Ok ref \<Rightarrow>
              bind_prog (run_db_prog E (\<lambda>d. register_dedup L (rq_engine E 0) (rq_clock E 0) d ref v
                  (rg_owner_handle req) (rg_badge_type req))) (\<lambda>r. Return
                (case r of
                   Err e \<Rightarrow> Err e
                 | Ok (Registered r) \<Rightarrow> Ok \<lparr>rr_status = ''registered'', rr_entry_ref = b64url_encode L r\<rparr>
                 | Ok (AlreadyYours r) \<Rightarrow> Ok \<lparr>rr_status = ''already_yours'', rr_entry_ref = b64url_encode L r\<rparr>
                 | Ok Taken \<Rightarrow> Err DedupTaken))))"

definition release_prog ::
  "libs \<Rightarrow> req_env \<Rightarrow> client_identity \<Rightarrow> release_request \<Rightarrow> (app_error + string) prog" where
  "release_prog L E i req = gated_prog E i (\<lambda>_.
     case release_validate L req of
       Err e \<Rightarrow> Return (Err e)
     | Ok ref \<Rightarrow>
         bind_prog (run_db_prog E (\<lambda>d. release_dedup L (rq_engine E 0) d ref (rl_owner_handle req))) (\<lambda>r. Return
           (case r of
              Err e \<Rightarrow> Err e
            | Ok Released \<Rightarrow> Ok ''released''
            | Ok ReleaseNotFound \<Rightarrow> Ok ''already_released''
            | Ok ReleaseOwnerMismatch \<Rightarrow> Err (Forbidden ''owner_handle does not match the entry owner''))))"

definition reassign_prog ::
  "libs \<Rightarrow> req_env \<Rightarrow> client_identity \<Rightarrow> reassign_request \<Rightarrow> (app_error + string \<times> nat) prog" where
  "reassign_prog L E i req = gated_prog E i (\<lambda>_.
     case reassign_validate L req of
       Err e \<Rightarrow> Return (Err e)
     | Ok refs \<Rightarrow>
         bind_prog (run_db_prog E (\<lambda>d. reassign_dedup L (rq_engine E 0) d refs
             (ra_from_owner_handle req) (ra_to_owner_handle req))) (\<lambda>r. Return
           (case r of
              Err e \<Rightarrow> Err e
            | Ok (Reassigned n) \<Rightarrow> Ok (''reassigned'', n)
            | Ok ReassignNotFound \<Rightarrow> Err (NotFound ''an entry_ref does not exist'')
            | Ok ReassignOwnerMismatch \<Rightarrow>
                Err (Forbidden ''an entry is owned by neither from_owner_handle nor to_owner_handle''))))"

subsection \<open>The router\<close>

abbreviation reply_with :: "(app_error + 'a) prog \<Rightarrow> ('a \<Rightarrow> nat \<times> (string \<times> json) list) \<Rightarrow> reply prog" where
  "reply_with p f \<equiv> bind_prog p (\<lambda>r. Return (render f r))"

definition route_prog ::
  "libs \<Rightarrow> req_env \<Rightarrow> app_state \<Rightarrow> client_identity \<Rightarrow> route \<Rightarrow> req_data \<Rightarrow> reply prog" where
  "route_prog L E st i route q =
     (case (route, q) of
        (Sign, DSign q) \<Rightarrow>
          reply_with (sign_prog L E st i q) (\<lambda>x. (200, [(''blind_signature'', JStr (blind_signature x))]))
      | (GetKey, DGroup g) \<Rightarrow> reply_with (get_key_prog L E i g) (\<lambda>(code, k). (code, key_json k))
      | (CreateKey, DGroup g) \<Rightarrow> reply_with (create_key_prog L E i g) (\<lambda>(code, k). (code, key_json k))
      | (RotateKey, DGroup g) \<Rightarrow> reply_with (rotate_key_prog L E i g) (\<lambda>k. (200, key_json k))
      | (Pairwise, DText s) \<Rightarrow>
          reply_with (one_section (\<lambda>st. prf_pairwise L E st i s)) (\<lambda>x. (200, [(''output'', JStr x)]))
      | (Evaluate, DText s) \<Rightarrow>
          reply_with (one_section (\<lambda>st. prf_evaluate L E st i s))
            (\<lambda>x. (200, [(''evaluation_element'', JStr (er_evaluation_element x)), (''proof'', JStr (er_proof x))]))
      | (PublicKey, _) \<Rightarrow>
          reply_with (one_section (\<lambda>st. prf_public_key L E st i ()))
            (\<lambda>x. (200, [(''suite'', JStr (pk_suite x)), (''public_key'', JStr (pk_public_key x))]))
      | (Disclose, DDisclose q) \<Rightarrow>
          bind_prog (disclose_prog L E i q) (\<lambda>r. Return
            (if r = Ok None then Aborted else render (\<lambda>x. (200, [(''nullifier'', JStr (the x))])) r))
      | (DedupRegister, DRegister q) \<Rightarrow>
          reply_with (register_prog L E i q)
            (\<lambda>x. (200, [(''status'', JStr (rr_status x)), (''entry_ref'', JStr (rr_entry_ref x))]))
      | (DedupRelease, DRelease q) \<Rightarrow> reply_with (release_prog L E i q) (\<lambda>x. (200, [(''status'', JStr x)]))
      | (DedupReassign, DReassign q) \<Rightarrow>
          reply_with (reassign_prog L E i q) (\<lambda>(s, n). (200, [(''status'', JStr s), (''reassigned'', JInt (int n))]))
      | _ \<Rightarrow> Return (plain 422))"

definition handle_prog :: "libs \<Rightarrow> req_env \<Rightarrow> app_state \<Rightarrow> http_data request \<Rightarrow> reply prog" where
  "handle_prog L E st req =
     (case find_route (router st) (h_method (payload req)) (h_path (payload req)) of
        Err code \<Rightarrow> Return (plain code)
      | Ok Healthz \<Rightarrow> Return (Reply \<lparr>status_code = 200, resp_body = [([], JStr healthz)]\<rparr>)
      | Ok r \<Rightarrow>
          (case from_request_parts req of
             Err e \<Rightarrow> Return (Reply (into_response e))
           | Ok i \<Rightarrow>
               (case h_data (payload req) of
                  Err code \<Rightarrow> Return (plain code)
                | Ok q \<Rightarrow> route_prog L E st i r q)))"

subsection \<open>The programs are the handlers\<close>

text \<open>Putting a key-generation state back into the shared state.\<close>

abbreviation with_kg :: "app_state \<Rightarrow> 'a \<times> kg_state \<Rightarrow> 'a \<times> app_state" where
  "with_kg st \<equiv> map_prod id (\<lambda>s. st\<lparr>app_kg := s\<rparr>)"

lemma exec_ensure:
  "exec E (ensure_prog first locked engs g) st =
     Some (with_kg st (ensure engs (rq_other E locked) (app_kg (gap E first st)) g))"
  by (cases first)
    (auto simp: ensure_prog_def ensure_def exec_section interfere_def Let_def split: sum.split option.split prod.split)

lemma exec_status:
  "exec E (snd (status_section eng g st)) st = Some (with_kg st (status eng (rq_other E 2) (app_kg st) g))"
  by (auto simp: status_section_def status_def interfere_def Let_def split: sum.split option.split)

lemma fst_status_section [simp]: "fst (status_section eng g st) = st"
  by (simp add: status_section_def)

lemma exec_wait_loop:
  assumes "channels (app_kg st) rx = Pending"
  shows "exec E (wait_loop_prog eng g rx) st =
    map_option (with_kg st) (wait_loop eng (rq_other E 2) g rx (app_kg st) (rq_wakes E))"
proof -
  have "wait_exec (\<lambda>w st. map_option (map_prod id (exec E)) (case w of
       OnDeadline \<Rightarrow> Some (st, Return (Ok Pending))
     | OnChanged \<Rightarrow> (case channels (app_kg st) rx of Ready \<Rightarrow> Some (st, Return (Ok Ready))
          | Failed e \<Rightarrow> Some (st, Return (Ok (Failed e))) | Pending \<Rightarrow> None)
     | OnDropped \<Rightarrow> Some (status_section eng g st))) ws st =
    map_option (with_kg st) (wait_loop eng (rq_other E 2) g rx (app_kg st) ws)" for ws
    using assms
  proof (induction ws arbitrary: st)
    case Nil
    then show ?case by (simp add: wait_loop_events)
  next
    case (Cons w ws)
    let ?st = "st\<lparr>app_kg := wake_effect w (app_kg st)\<rparr>"
    have stop: "wait_loop eng (rq_other E 2) g rx (app_kg ?st) ws =
        Some (Ok (channels (app_kg ?st) rx), app_kg ?st)" if "channels (app_kg ?st) rx \<noteq> Pending"
      using that by (cases "channels (app_kg ?st) rx") (simp_all add: wait_loop.simps [of _ _ _ _ _ ws])
    show ?case
    proof (cases w)
      case (Deadline f)
      with Cons.prems show ?thesis by (simp add: wait_loop_events Let_def)
    next
      case (Changed f)
      with Cons.prems Cons.IH [of ?st] stop show ?thesis
        by (cases "channels (app_kg ?st) rx") (simp_all add: wait_loop_events Let_def map_prod_def case_prod_unfold)
    next
      case (SenderDropped f)
      with Cons.prems exec_status [of E eng g ?st] show ?thesis
        by (simp add: wait_loop_events Let_def case_prod_unfold map_prod_def)
    qed
  qed
  then show ?thesis
    by (simp add: wait_loop_prog_def)
qed

lemma exec_wait_ready:
  "exec E (wait_ready_prog engs g) st =
     map_option (with_kg st) (wait_ready engs (rq_other E) (rq_wakes E) (app_kg st) g)"
proof -
  obtain r s where e: "ensure engs (rq_other E 0) (app_kg st) g = (r, s)"
    by (cases "ensure engs (rq_other E 0) (app_kg st) g")
  let ?st = "interfere E 1 (st\<lparr>app_kg := s\<rparr>)"
  show ?thesis
  proof (cases "r = Ok Pending")
    case False
    with e show ?thesis
      by (auto simp: wait_ready_prog_def exec_ensure wait_ready_def split: sum.split keygen_status.split)
  next
    case True
    show ?thesis
    proof (cases "inflight (rq_other E 1 s) g")
      case None
      then show ?thesis
        using e True exec_status [of E "engs 2" g "interfere E 9 ?st"]
        by (simp add: wait_ready_prog_def exec_ensure wait_ready_def Let_def) (simp add: interfere_def)
    next
      case (Some rx)
      then show ?thesis
        using e True exec_wait_loop [of ?st rx E "engs 2" g]
          wait_loop.simps [of "engs 2" "rq_other E 2" g rx "rq_other E 1 s" "rq_wakes E"]
        by (cases "channels (rq_other E 1 s) rx")
          (simp_all add: wait_ready_prog_def exec_ensure wait_ready_def Let_def interfere_def)
    qed
  qed
qed

lemma exec_rotate:
  "exec E (rotate_prog L K join g) st = map_option (with_kg st) (kg_rotate L K join (rq_other E) (app_kg st) g)"
  by (auto simp: rotate_prog_def kg_rotate_def exec_section Let_def await_rotation_def release_permit_def
      interfere_def set_db_def split: option.split prod.split)

lemma sign_pool_step:
  assumes "pc_result pc = None" and "pc \<noteq> CountGlobal"
    and "sign_step L E req bl pc (interfere E (pc_gap pc) st) = (pc', st')"
  shows "exec E (sign_pool L E req bl pc) st = exec E (sign_pool L E req bl pc') st'"
  using assms by (subst sign_pool.simps) (simp add: exec_section)

lemma sign_pool_done [simp]:
  "sign_pool L E req bl (Signed i r) = Return (Ok r)" "sign_pool L E req bl (Denied e) = Return (Err e)"
  by (simp_all add: sign_pool.simps)

lemma exec_after_sign:
  "exec E (sign_pool L E req bl (after_sign L i r)) st =
     Some (case r of Ok sig \<Rightarrow> (Ok \<lparr>blind_signature = b64_encode L sig\<rparr>, st)
           | Err e \<Rightarrow> (Err e, roll_back E (interfere E 7 st) i))"
  by (cases r) (simp_all add: after_sign_def sign_pool_step)

lemma exec_load:
  assumes "load_and_sign L E (interfere E 6 st) req bl = (r, st')"
  shows "exec E (sign_pool L E req bl (Load i)) st =
     Some (case r of Ok sig \<Rightarrow> (Ok \<lparr>blind_signature = b64_encode L sig\<rparr>, st')
           | Err e \<Rightarrow> (Err e, roll_back E (interfere E 7 st') i))"
proof (cases "load_key L (rq_engine E 6) (app_db (interfere E 6 st)) (app_kek st) (sr_group_id req)
    (auto_create_keys st) = Ok None")
  case True
  obtain k d where c: "create_key L (rq_key E) (app_db (interfere E 8 (interfere E 6 st))) (app_kek st)
      (sr_group_id req) (app_key_bits st) = (k, d)" (is "?c = _")
    by (cases ?c)
  let ?st = "set_db d (interfere E 8 (interfere E 6 st))"
  have "sign_step L E req bl (Load i) (interfere E 6 st) = (Create i, interfere E 6 st)"
    using True by (simp add: sign_step_def)
  moreover have "sign_step L E req bl (Create i) (interfere E 8 (interfere E 6 st)) =
      (after_sign L i (sign_loaded L req bl k), ?st)"
    using c by (simp add: sign_step_def)
  moreover have "r = sign_loaded L req bl k" "st' = ?st"
    using assms True c by (auto simp: load_and_sign_def get_or_create_key_def)
  ultimately show ?thesis
    by (simp add: sign_pool_step exec_after_sign cong: sum.case_cong)
next
  case False
  with assms have "sign_step L E req bl (Load i) (interfere E 6 st) = (after_sign L i r, st')"
    by (auto simp: sign_step_def load_and_sign_def get_or_create_key_def Let_def split: sum.splits option.splits)
  then show ?thesis
    by (simp add: sign_pool_step exec_after_sign)
qed

lemma exec_reserve:
  assumes "reserve_issuance (rq_engine E 5) (rq_clock E 1) (app_db (interfere E 5 st))
     (sr_group_id req) (sr_participant_id req) (sr_version_id req) = (r, d)"
    and "load_and_sign L E (interfere E 6 (set_db d (interfere E 5 st))) req bl = (ls, st')"
  shows "exec E (sign_pool L E req bl Reserve) st =
     Some (case r of
        Err e \<Rightarrow> (Err (Internal e), set_db d (interfere E 5 st))
      | Ok reservation.AlreadyIssued \<Rightarrow> (Err app_error.AlreadyIssued, set_db d (interfere E 5 st))
      | Ok (Reserved i) \<Rightarrow>
          (case ls of Ok sig \<Rightarrow> (Ok \<lparr>blind_signature = b64_encode L sig\<rparr>, st')
           | Err e \<Rightarrow> (Err e, roll_back E (interfere E 7 st') i)))"
proof -
  have "sign_step L E req bl Reserve (interfere E 5 st) =
     ((case r of Err e \<Rightarrow> Denied (Internal e)
       | Ok reservation.AlreadyIssued \<Rightarrow> Denied app_error.AlreadyIssued
       | Ok (Reserved i) \<Rightarrow> Load i), set_db d (interfere E 5 st))"
    by (rule sign_step_reserve) (use assms(1) in simp)
  then show ?thesis
    using exec_load [OF assms(2)]
    by (auto simp: sign_pool_step split: sum.split reservation.split)
qed

lemma exec_sign_pool:
  "exec E (sign_pool L E req bl CountGlobal) st = Some (sign_blocking L E (interfere E 3 st) req bl)"
proof -
  let ?st = "interfere E 3 st" and ?st1 = "interfere E 4 (interfere E 3 st)"
  obtain r d where r: "reserve_issuance (rq_engine E 5) (rq_clock E 1) (app_db (interfere E 5 ?st1))
      (sr_group_id req) (sr_participant_id req) (sr_version_id req) = (r, d)" (is "?r = _")
    by (cases ?r)
  obtain ls st2 where ls: "load_and_sign L E (interfere E 6 (set_db d (interfere E 5 ?st1))) req bl = (ls, st2)"
    (is "?l = _")
    by (cases ?l)
  note reserve = exec_reserve [OF r ls]
  note unfolds = sign_step_def sign_blocking_def rl_check_def sign_since_def Let_def
  show ?thesis
  proof (cases "count_global_since (rq_engine E 3) (app_db ?st) (sign_since E ?st)")
    case (Inl e)
    then show ?thesis
      by (subst sign_pool.simps) (simp add: unfolds)
  next
    case g: (Inr n)
    show ?thesis
    proof (cases "global_max (app_rate_limiter st) \<le> n")
      case True
      with g show ?thesis
        by (subst sign_pool.simps) (simp add: unfolds)
    next
      case False
      with g have first: "exec E (sign_pool L E req bl CountGlobal) st =
          exec E (sign_pool L E req bl CountParticipant) ?st"
        by (subst sign_pool.simps) (simp add: unfolds)
      obtain pc where pc: "sign_step L E req bl CountParticipant ?st1 = (pc, ?st1)"
        by (simp add: sign_step_def)
      then have "exec E (sign_pool L E req bl CountGlobal) st = exec E (sign_pool L E req bl pc) ?st1"
        unfolding first by (intro sign_pool_step) simp_all
      then show ?thesis
        using pc g False r ls reserve
        by (cases "count_participant_since (rq_engine E 4) (app_db ?st1) (sr_participant_id req) (sign_since E ?st1)")
          (auto simp: unfolds split: sum.split reservation.split if_splits)
    qed
  qed
qed

lemma exec_sign_ready: "exec E (sign_ready_prog E st g) st = sign_ready E st g"
  by (auto simp: sign_ready_prog_def sign_ready_def exec_wait_ready map_prod_def case_prod_unfold
      map_option_case split: option.split)

lemma sign_ready_kg: "sign_ready E st g = Some (r, st1) \<Longrightarrow> \<exists>s. st1 = st\<lparr>app_kg := s\<rparr>"
  by (auto simp: sign_ready_def split: if_splits) (metis app_state.surjective app_state.update_convs(1))

lemma exec_sign: "exec E (sign_prog L E st i req) st = sign L E st i req"
  by (auto simp: sign_prog_def sign_def exec_sign_ready exec_sign_pool split: sum.split option.split)

lemma exec_ensure_answer: "exec E (ensure_answer_prog L E g) st = Some (ensure_answer L E st g)"
  by (auto simp: ensure_answer_prog_def ensure_answer_def exec_ensure interfere_def Let_def map_prod_def
      split: prod.split sum.split keygen_status.split)

lemma exec_get_key: "exec E (get_key_prog L E i g) st = Some (get_key L E st i g)"
  by (auto simp: get_key_prog_def get_key_def key_gate_prog_def exec_section exec_ensure_answer Let_def
      split: prod.split sum.split option.split)

lemma exec_create_key: "exec E (create_key_prog L E i g) st = Some (create_key_handler L E st i g)"
  by (auto simp: create_key_prog_def create_key_handler_def key_gate_prog_def exec_section exec_ensure_answer
      split: prod.split sum.split)

lemma exec_rotate_key: "exec E (rotate_key_prog L E i g) st = rotate_key_handler L E st i g"
  by (auto simp: rotate_key_prog_def rotate_key_handler_def exec_section exec_rotate interfere_def Let_def
      map_prod_def split: prod.split sum.split option.split)

lemma exec_run_db: "exec E (run_db_prog E f) st = Some (run_db_blocking E st f)"
  by (auto simp: run_db_prog_def run_db_blocking_def case_prod_unfold Let_def split: option.split)

lemma exec_gated:
  "exec E (gated_prog E i body) st =
     (case require_prf E st i of (Err e, st) \<Rightarrow> Some (Err e, st) | (Ok prf, st) \<Rightarrow> exec E (body prf) st)"
  by (auto simp: gated_prog_def exec_section split: prod.split sum.split)

lemma exec_one_section: "exec E (one_section h) st = Some (h st)"
  by (simp add: one_section_def exec_section case_prod_unfold Let_def)

lemma exec_disclose: "exec E (disclose_prog L E i req) st = Some (prf_disclose L E st i req)"
  by (auto simp: disclose_prog_def prf_disclose_def exec_gated gated_def exec_run_db
      split: prod.split sum.split option.split)

lemma exec_register: "exec E (register_prog L E i req) st = Some (dedup_register L E st i req)"
  by (auto simp: register_prog_def dedup_register_def exec_gated gated_def exec_run_db
      split: prod.split sum.split dedup_register.split)

lemma exec_release: "exec E (release_prog L E i req) st = Some (dedup_release_handler L E st i req)"
  by (auto simp: release_prog_def dedup_release_handler_def exec_gated gated_def exec_run_db
      split: prod.split sum.split dedup_release.split)

lemma exec_reassign: "exec E (reassign_prog L E i req) st = Some (dedup_reassign_handler L E st i req)"
  by (auto simp: reassign_prog_def dedup_reassign_handler_def exec_gated gated_def exec_run_db
      split: prod.split sum.split dedup_reassign.split)

lemmas exec_endpoints = exec_sign exec_get_key exec_create_key exec_rotate_key exec_one_section exec_disclose
  exec_register exec_release exec_reassign

lemma exec_route: "exec E (route_prog L E st i route q) st = handle_route L E st i route q"
proof (cases route)
  case Sign
  then show ?thesis
    by (cases q) (simp_all add: route_prog_def handle_route_def exec_sign map_option_case split: option.split)
next
  case RotateKey
  then show ?thesis
    by (cases q) (simp_all add: route_prog_def handle_route_def exec_rotate_key map_option_case split: option.split)
qed (cases q; simp add: route_prog_def handle_route_def exec_endpoints case_prod_unfold Let_def)+

theorem exec_handle: "exec E (handle_prog L E st req) st = handle L E st req"
proof (cases "find_route (router st) (h_method (payload req)) (h_path (payload req))")
  case (Inr r)
  then show ?thesis
    by (cases r) (simp_all add: handle_prog_def handle_def exec_route split: sum.split)
qed (simp add: handle_prog_def handle_def)

end
