(* ===== verification/Service_Runs.thy ===== *)
theory Service_Runs
  imports Service_Programs
begin

text \<open>
  The running service: requests are threads that run their programs section by section, in any
  order, interleaved with the workers of the key-generation service. The future of a request may be
  dropped when its client goes away: what it owned is released at once, and of its program only the
  work already handed to the blocking pool goes on.
\<close>

subsection \<open>Steps\<close>

record thread =
  sv_env :: req_env
  sv_req :: "http_data request"
  sv_prog :: "reply prog"
  sv_gone :: bool

type_synonym service = "app_state \<times> thread list"

datatype action =
    NewRequest req_env "http_data request"
  | Continue nat
  | WakeUp nat wake_kind
  | Disconnect nat

fun permit_of :: "'r prog \<Rightarrow> nat" where
  "permit_of (Section i pl h f) = (if h then 1 else 0)"
| "permit_of _ = 0"

definition owned :: "thread \<Rightarrow> nat" where
  "owned t = (if sv_gone t then 0 else permit_of (sv_prog t))"

text \<open>A future can be dropped where it is suspended: at an await, which includes the wait for the pool.\<close>

fun suspended :: "'r prog \<Rightarrow> bool" where
  "suspended (Return r) = False"
| "suspended (Section i pl h f) = (pl \<noteq> Inline)"
| "suspended (WaitLoop f) = True"

fun section_of :: "bool \<Rightarrow> 'r prog \<Rightarrow> app_state \<Rightarrow> (app_state \<times> 'r prog) option" where
  "section_of gone (Section i pl h f) st = (if gone \<and> pl \<noteq> Pool then None else f st)"
| "section_of gone _ st = None"

fun reaction_of :: "bool \<Rightarrow> 'r prog \<Rightarrow> wake_kind \<Rightarrow> app_state \<Rightarrow> (app_state \<times> 'r prog) option" where
  "reaction_of gone (WaitLoop f) w st = (if gone then None else f w st)"
| "reaction_of gone _ w st = None"

definition put_prog :: "thread list \<Rightarrow> nat \<Rightarrow> app_state \<times> reply prog \<Rightarrow> service" where
  "put_prog ts j x = (fst x, ts[j := (ts ! j)\<lparr>sv_prog := snd x\<rparr>])"

fun act :: "libs \<Rightarrow> action \<Rightarrow> service \<Rightarrow> service option" where
  "act L (NewRequest E req) (st, ts) =
     (if drawn_refs E
      then Some (st, ts @ [\<lparr>sv_env = E, sv_req = req, sv_prog = handle_prog L E st req, sv_gone = False\<rparr>])
      else None)"
| "act L (Continue j) (st, ts) =
     (if j < length ts
      then map_option (put_prog ts j) (section_of (sv_gone (ts ! j)) (sv_prog (ts ! j)) st)
      else None)"
| "act L (WakeUp j w) (st, ts) =
     (if j < length ts
      then map_option (put_prog ts j) (reaction_of (sv_gone (ts ! j)) (sv_prog (ts ! j)) w st)
      else None)"
| "act L (Disconnect j) (st, ts) =
     (if j < length ts \<and> \<not> sv_gone (ts ! j) \<and> suspended (sv_prog (ts ! j))
      then Some (if owned (ts ! j) = 1 then release_permit st else st, ts[j := (ts ! j)\<lparr>sv_gone := True\<rparr>])
      else None)"

text \<open>\<open>A\<close> are the actions that may happen.\<close>

inductive service_step :: "libs \<Rightarrow> action set \<Rightarrow> service \<Rightarrow> service \<Rightarrow> bool"
  for L :: libs and A :: "action set" where
  background: "task_step L (app_kg st) s \<Longrightarrow> service_step L A (st, ts) (st\<lparr>app_kg := s\<rparr>, ts)"
| action: "\<lbrakk> a \<in> A; act L a x = Some y \<rbrakk> \<Longrightarrow> service_step L A x y"

definition service_run :: "libs \<Rightarrow> action set \<Rightarrow> service \<Rightarrow> service \<Rightarrow> bool" where
  "service_run L A = (service_step L A)\<^sup>*\<^sup>*"

text \<open>The moves of one thread, as a relation.\<close>

inductive moves :: "bool \<Rightarrow> 'r prog \<Rightarrow> app_state \<Rightarrow> app_state \<Rightarrow> 'r prog \<Rightarrow> bool" where
  step: "\<lbrakk> f st = Some (st', p); gone \<longrightarrow> pl = Pool \<rbrakk> \<Longrightarrow> moves gone (Section i pl h f) st st' p"
| wake: "f w st = Some (st', p) \<Longrightarrow> moves False (WaitLoop f) st st' p"

inductive_cases moves_ReturnE: "moves gone (Return r) st st' p"
inductive_cases moves_SectionE: "moves gone (Section i pl h f) st st' p"
inductive_cases moves_WaitLoopE: "moves gone (WaitLoop f) st st' p"

lemma section_moves: "section_of gone p st = Some (st', p') \<Longrightarrow> moves gone p st st' p'"
  by (cases p) (auto intro: moves.step split: if_splits)

lemma reaction_moves: "reaction_of gone p w st = Some (st', p') \<Longrightarrow> moves gone p st st' p'"
  by (cases p) (auto intro: moves.wake split: if_splits)

text \<open>A step is a step of one thread, an arrival, or the drop of a future.\<close>

lemma act_cases:
  assumes "act L a (st, ts) = Some (st', ts')"
  obtains (arrived) E req where "drawn_refs E" and "st' = st"
      and "ts' = ts @ [\<lparr>sv_env = E, sv_req = req, sv_prog = handle_prog L E st req, sv_gone = False\<rparr>]"
  | (moved) j p where "j < length ts" and "moves (sv_gone (ts ! j)) (sv_prog (ts ! j)) st st' p"
      and "ts' = ts[j := (ts ! j)\<lparr>sv_prog := p\<rparr>]"
  | (dropped) j where "a = Disconnect j" and "j < length ts" and "\<not> sv_gone (ts ! j)"
      and "st' = (if owned (ts ! j) = 1 then release_permit st else st)"
      and "ts' = ts[j := (ts ! j)\<lparr>sv_gone := True\<rparr>]"
proof (cases a)
  case (NewRequest E req)
  with assms arrived show thesis by (auto split: if_splits)
next
  case (Continue j)
  with assms obtain p where "j < length ts" "section_of (sv_gone (ts ! j)) (sv_prog (ts ! j)) st = Some (st', p)"
    and "ts' = ts[j := (ts ! j)\<lparr>sv_prog := p\<rparr>]"
    by (auto simp: put_prog_def split: if_splits)
  with moved section_moves show thesis by blast
next
  case (WakeUp j w)
  with assms obtain p where "j < length ts" "reaction_of (sv_gone (ts ! j)) (sv_prog (ts ! j)) w st = Some (st', p)"
    and "ts' = ts[j := (ts ! j)\<lparr>sv_prog := p\<rparr>]"
    by (auto simp: put_prog_def split: if_splits)
  with moved reaction_moves show thesis by blast
next
  case (Disconnect j)
  with assms dropped show thesis by (auto split: if_splits)
qed

subsection \<open>What every section guarantees\<close>

text \<open>What the configuration fixes once and for all.\<close>

definition same_config :: "app_state \<Rightarrow> app_state \<Rightarrow> bool" where
  "same_config st st' \<longleftrightarrow> app_kek st' = app_kek st \<and> app_rate_limiter st' = app_rate_limiter st \<and>
     app_key_limiter st' = app_key_limiter st \<and> auto_create_keys st' = auto_create_keys st \<and>
     app_key_bits st' = app_key_bits st \<and> (app_prf st' = None \<longleftrightarrow> app_prf st = None)"

text \<open>
  The shared state develops, the configuration stays, and permits are neither lost nor made up: those in
  stock and the one that the future may own add up. A section that cannot run waits for a permit and
  owns none, and a section on the pool leaves the stock alone, since it may run after its future was
  dropped. A wait ends at its deadline.
\<close>

definition kept :: "bool \<Rightarrow> app_state \<Rightarrow> app_state \<Rightarrow> 'r prog \<Rightarrow> bool" where
  "kept h st st' p \<longleftrightarrow> dev st st' \<and> same_config st st' \<and> busy (app_kg st') = busy (app_kg st) \<and>
     stock (app_kg st') + permit_of p = stock (app_kg st) + (if h then 1 else 0)"

inductive guar :: "'r prog \<Rightarrow> bool" where
  Return: "guar (Return r)"
| Section: "\<lbrakk> \<And>st st' p. f st = Some (st', p) \<Longrightarrow> kept h st st' p \<and> guar p;
     \<And>st st' p. pl = Pool \<Longrightarrow> f st = Some (st', p) \<Longrightarrow> stock (app_kg st') = stock (app_kg st);
     \<And>st. f st = None \<Longrightarrow> \<not> h \<and> permits (app_kg st) = 0 \<rbrakk> \<Longrightarrow> guar (Section i pl h f)"
| WaitLoop: "\<lbrakk> \<And>w st st' p. f w st = Some (st', p) \<Longrightarrow> kept False st st' p \<and> guar p;
     \<And>st. f OnDeadline st \<noteq> None \<rbrakk> \<Longrightarrow> guar (WaitLoop f)"

inductive_cases guar_SectionE: "guar (Section i pl h f)"
inductive_cases guar_WaitLoopE: "guar (WaitLoop f)"

declare guar.Return [intro, simp]

lemma same_config_refl [simp]: "same_config st st"
  by (simp add: same_config_def)

lemma same_config_trans: "same_config st1 st2 \<Longrightarrow> same_config st2 st3 \<Longrightarrow> same_config st1 st3"
  by (simp add: same_config_def)

lemma same_config_simps [simp]:
  "same_config st (st'\<lparr>app_kg := s\<rparr>) = same_config st st'"
  "same_config st (st'\<lparr>app_key_rl := rl\<rparr>) = same_config st st'"
  "same_config st (set_db d st') = same_config st st'"
  "same_config st (release_permit st') = same_config st st'"
  by (simp_all add: same_config_def release_permit_def)

lemma permit_of_bind:
  assumes "\<And>r. permit_of (k r) = 0"
  shows "permit_of (bind_prog p k) = permit_of p"
  using assms by (cases p) simp_all

lemma guar_bind:
  assumes "guar p" and "\<And>r. guar (k r)" and "\<And>r. permit_of (k r) = 0"
  shows "guar (bind_prog p k)"
  using assms(1)
proof induction
  case (Section f h pl i)
  show ?case
    unfolding bind_prog.simps
    by (rule guar.Section) (use Section in \<open>auto simp: kept_def permit_of_bind [of k, OF assms(3)]\<close>)
next
  case (WaitLoop f)
  then show ?case
    unfolding bind_prog.simps
    by (intro guar.WaitLoop) (auto simp: kept_def permit_of_bind [of k, OF assms(3)])
qed (simp add: assms(2))

text \<open>A section that can always run, is not on the pool and owns nothing.\<close>

lemma guar_section:
  assumes "\<And>st. kept False st (fst (F st)) (snd (F st)) \<and> guar (snd (F st))"
    and "\<And>st. pl = Pool \<Longrightarrow> stock (app_kg (fst (F st))) = stock (app_kg st)"
  shows "guar (Section i pl False (\<lambda>st. Some (F st)))"
proof (rule guar.Section)
  fix st st' p
  assume F: "Some (F st) = Some (st', p)"
  then show "kept False st st' p \<and> guar p"
    using assms(1) [of st] by simp
  show "pl = Pool \<Longrightarrow> stock (app_kg st') = stock (app_kg st)"
    using F assms(2) [of st] by simp
qed simp

lemma kept_same: "kept False st st p \<longleftrightarrow> permit_of p = 0"
  by (simp add: kept_def dv.stay)

subsection \<open>The programs of the service keep their guarantee\<close>

lemma stock_set_db [simp]:
  "stock (app_kg (set_db d st)) = stock (app_kg st)" "busy (app_kg (set_db d st)) = busy (app_kg st)"
  by (simp_all add: stock_def busy_def set_db_def)

text \<open>A section that only reads.\<close>

lemma guar_read:
  assumes "\<And>st. guar (k st)" and "\<And>st. permit_of (k st) = 0"
  shows "guar (Section i pl False (\<lambda>st. Some (st, k st)))"
  by (rule guar_section) (simp_all add: kept_same assms)

lemma guar_ensure: "guar (ensure_prog first locked engs g)"
proof -
  have "guar (Section (Some locked) Inline False (\<lambda>st.
      let (r, s) = ensure_locked (engs 1) (app_kg st) g in Some (st\<lparr>app_kg := s\<rparr>, Return r)))"
    by (intro guar.Section)
      (auto simp: kept_def Let_def dv.locked ensure_locked_stock split: prod.splits)
  then show ?thesis
    unfolding ensure_prog_def by (intro guar_read) (auto split: sum.split option.split)
qed

lemma permit_of_simps [simp]:
  "permit_of (ensure_prog first locked engs g) = 0" "permit_of (wait_loop_prog eng g rx) = 0"
  "permit_of (snd (status_section eng g st)) = 0"
  by (auto simp: ensure_prog_def wait_loop_prog_def status_section_def split: sum.split option.split)

lemma guar_status: "guar (snd (status_section eng g st))"
  by (auto simp: status_section_def intro!: guar_read split: sum.split option.split)

lemma guar_wait_loop: "guar (wait_loop_prog eng g rx)"
  unfolding wait_loop_prog_def
proof (rule guar.WaitLoop)
  fix w st st' p
  assume "(case w of OnDeadline \<Rightarrow> Some (st, Return (Ok Pending))
     | OnChanged \<Rightarrow> (case channels (app_kg st) rx of Ready \<Rightarrow> Some (st, Return (Ok Ready))
          | Failed e \<Rightarrow> Some (st, Return (Ok (Failed e))) | Pending \<Rightarrow> None)
     | OnDropped \<Rightarrow> Some (status_section eng g st)) = Some (st', p)"
  moreover have "status_section eng g st = (st, snd (status_section eng g st))"
    by (simp add: status_section_def)
  ultimately have "st' = st \<and> (p = snd (status_section eng g st) \<or> (\<exists>r. p = Return r))"
    by (auto split: wake_kind.splits keygen_status.splits)
  then have "st' = st \<and> guar p \<and> permit_of p = 0"
    using guar_status [of eng g st] by auto
  then show "kept False st st' p \<and> guar p"
    by (simp add: kept_same)
qed simp

lemma guar_wait_ready: "guar (wait_ready_prog engs g)"
proof -
  have "guar (Section (Some 9) Inline False (\<lambda>st. Some (status_section (engs 2) g st)))"
    by (rule guar_section) (simp_all add: kept_same guar_status)
  then have "guar (Section (Some 1) Inline False (\<lambda>st. Some (st, case inflight (app_kg st) g of
      Some rx \<Rightarrow> (case channels (app_kg st) rx of Ready \<Rightarrow> Return (Ok Ready) | Failed e \<Rightarrow> Return (Ok (Failed e))
          | Pending \<Rightarrow> wait_loop_prog (engs 2) g rx)
      | None \<Rightarrow> Section (Some 9) Inline False (\<lambda>st. Some (status_section (engs 2) g st)))))"
    by (intro guar_read) (auto simp: guar_wait_loop split: option.split keygen_status.split)
  then show ?thesis
    unfolding wait_ready_prog_def by (intro guar_bind guar_ensure) (auto split: sum.split keygen_status.split)
qed

lemma dev_release_permit: "dev st (release_permit st)"
  by (simp add: release_permit_def develops_permits)

lemma stock_release_permit [simp]:
  "stock (app_kg (release_permit st)) = stock (app_kg st) + 1"
  "busy (app_kg (release_permit st)) = busy (app_kg st)"
  by (simp_all add: release_permit_def stock_def busy_def)

lemma guar_await_rotation: "guar (await_rotation r)"
  unfolding await_rotation_def
  by (rule guar.Section) (auto simp: kept_def dev_release_permit)

lemma guar_rotate: "guar (rotate_prog L K join g)"
proof -
  let ?pool = "Section (Some 1) Pool True (\<lambda>st. Some (case join of
      Some e \<Rightarrow> (st, await_rotation (Err (''rotate task join error: '' @ e)))
    | None \<Rightarrow> let (r, d) = rotate_key L K (app_db st) (kg_kek (app_kg st)) g (kg_bits (app_kg st))
        in (set_db d st, await_rotation r)))"
  have dev: "dev st (set_db d st)" if "rotate_key L K (app_db st) (kg_kek (app_kg st)) g (kg_bits (app_kg st)) = (r, d)"
    for st r d
    using rotate_develops [OF that] by (rule dev_set_db)
  have "permit_of (await_rotation r) = 1" for r
    by (simp add: await_rotation_def)
  then have "guar ?pool"
    using dev by (intro guar.Section)
      (auto simp: kept_def dv.stay guar_await_rotation Let_def split: option.splits prod.splits)
  then show ?thesis
    unfolding rotate_prog_def
    by (intro guar.Section) (auto simp: kept_same, auto simp: kept_def dv.stay develops_permits stock_def busy_def split: if_splits)
qed

lemma sign_step_dev:
  assumes "sign_step L E req bl pc st = (pc', st')"
  shows "dev st st'" and "same_config st st'" and "stock (app_kg st') = stock (app_kg st)"
    and "busy (app_kg st') = busy (app_kg st)"
proof -
  obtain r d where r: "reserve_issuance (rq_engine E 5) (rq_clock E 1) (app_db st) (sr_group_id req)
      (sr_participant_id req) (sr_version_id req) = (r, d)" (is "?c = _")
    by (cases ?c)
  obtain k d2 where k: "create_key L (rq_key E) (app_db st) (app_kek st) (sr_group_id req) (app_key_bits st) = (k, d2)"
    (is "?k = _")
    by (cases ?k)
  have "st' \<in> {st, set_db d st, set_db d2 st} \<union> range (roll_back E st)"
    using assms r k by (cases pc) (auto simp: sign_step_def split: sum.splits reservation.splits)
  then show "dev st st'" "same_config st st'" "stock (app_kg st') = stock (app_kg st)"
    "busy (app_kg st') = busy (app_kg st)"
    using reserve_dev [OF r] dev_set_db [OF create_develops [OF k]] roll_back_dev
    by (auto simp: dv.stay roll_back_def)
qed

lemma permit_sign_pool [simp]: "permit_of (sign_pool L E req bl pc) = 0"
  by (subst sign_pool.simps) (simp split: option.split)

lemma guar_sign_pool: "guar (sign_pool L E req bl pc)"
proof (induction pc rule: measure_induct_rule [of pc_rank])
  case (less pc)
  show ?case
  proof (cases "pc_result pc")
    case (Some r)
    then show ?thesis by (subst sign_pool.simps) simp
  next
    case None
    show ?thesis
      by (subst sign_pool.simps, simp only: None option.case)
        (rule guar.Section; auto simp: Let_def kept_def sign_step_dev less [OF sign_step_rank [OF _ None]]
          intro!: guar_read split: prod.splits)
  qed
qed

lemma guar_sign: "guar (sign_prog L E st i req)"
proof -
  have ready: "guar (sign_ready_prog E st g)" for g
    by (auto simp: sign_ready_prog_def intro!: guar_bind guar_wait_ready guar_read)
  show ?thesis
    unfolding sign_prog_def
    by (auto intro!: guar_bind ready guar_sign_pool guar_read split: sum.split option.split)
qed

lemma key_gate_config:
  assumes "key_gate E st i g = (r, st')"
  shows "same_config st st'" and "app_kg st' = app_kg st"
  using assms by (auto simp: key_gate_def check_key_rate_limit_def split: sum.splits prod.splits)

lemma guar_key_gate:
  assumes "guar p" and "permit_of p = 0"
  shows "guar (key_gate_prog E i g p)"
  unfolding key_gate_prog_def
  by (rule guar.Section)
    (auto simp: kept_def dv.stay assms dest: key_gate_config split: prod.splits sum.splits)

lemma guar_ensure_answer: "guar (ensure_answer_prog L E g)"
  by (auto simp: ensure_answer_prog_def intro!: guar_bind guar_ensure guar_read split: sum.split keygen_status.split)

lemma permit_ensure_answer [simp]: "permit_of (ensure_answer_prog L E g) = 0"
  by (simp add: ensure_answer_prog_def permit_of_bind split: sum.split keygen_status.split)

lemma guar_get_key: "guar (get_key_prog L E i g)"
  unfolding get_key_prog_def
  by (intro guar_key_gate guar_read) (auto simp: guar_ensure_answer split: sum.split option.split)

lemma guar_create_key: "guar (create_key_prog L E i g)"
  by (auto simp: create_key_prog_def intro!: guar_key_gate guar_ensure_answer)

lemma guar_rotate_key: "guar (rotate_key_prog L E i g)"
proof -
  let ?k = "\<lambda>r. case r of Err e \<Rightarrow> Return (Err (Internal e))
      | Ok spki \<Rightarrow> Section (Some 3) Inline False (\<lambda>st. Some (st, Return
          (case kg_active_key (rq_engine E 0) (app_kg st) g of Err e \<Rightarrow> Err (Internal e)
           | Ok None \<Rightarrow> Err (Internal ''key vanished after rotate'')
           | Ok (Some (key_id, _)) \<Rightarrow> Ok (key_response_ready L g spki key_id))))"
  have 0: "permit_of (?k r) = 0" for r
    by (simp split: sum.split)
  have k: "guar (bind_prog (rotate_prog L (rq_key E) (rq_join E) g) ?k)"
    by (rule guar_bind [OF guar_rotate _ 0]) (auto intro!: guar_read split: sum.split)
  have p: "permit_of (bind_prog (rotate_prog L (rq_key E) (rq_join E) g) ?k) = 0"
    by (subst permit_of_bind [OF 0]) (simp add: rotate_prog_def)
  have gate: "same_config st st'" "app_kg st' = app_kg st" if "check_key_rate_limit E st i = (r, st')" for st st' r
    using that by (auto simp: check_key_rate_limit_def split: prod.splits)
  show ?thesis
    unfolding rotate_key_prog_def
    by (auto intro!: guar.Section simp: kept_def dv.stay k p gate split: sum.splits prod.splits)
qed

lemma require_prf_config:
  "require_prf E st i = (r, st') \<Longrightarrow> same_config st st' \<and> app_kg st' = app_kg st"
  by (auto simp: require_prf_def same_config_def Let_def split: option.splits if_splits prod.splits)

lemma guar_gated:
  assumes "\<And>prf. guar (body prf)" and "\<And>prf. permit_of (body prf) = 0"
  shows "guar (gated_prog E i body)"
  unfolding gated_prog_def
  by (rule guar.Section)
    (auto simp: kept_def dv.stay assms dest: require_prf_config split: prod.splits sum.splits)

lemma permit_run_db [simp]: "permit_of (run_db_prog E f) = 0"
  by (simp add: run_db_prog_def)

lemma guar_run_db:
  assumes "\<And>st. dev st (set_db (snd (f (app_db st))) st)"
  shows "guar (run_db_prog E f)"
  unfolding run_db_prog_def using assms
  by (intro guar_section) (auto simp: kept_def dv.stay case_prod_unfold Let_def split: option.split)

lemma guar_gated_section:
  assumes "\<And>st. \<exists>body. h st = gated E st i (\<lambda>prf st. (body prf, st))"
  shows "guar (one_section h)"
proof -
  have "same_config st (snd (h st)) \<and> app_kg (snd (h st)) = app_kg st" for st
  proof -
    obtain r st' where rp: "require_prf E st i = (r, st')"
      by (cases "require_prf E st i")
    then have "snd (h st) = st'"
      using assms [of st] by (cases r) (auto simp: gated_def)
    with require_prf_config [OF rp] show ?thesis by simp
  qed
  then show ?thesis
    unfolding one_section_def Let_def case_prod_unfold
    by (intro guar_section) (auto simp: kept_def dv.stay)
qed

lemma guar_prf_programs:
  shows "guar (one_section (\<lambda>st. prf_pairwise L E st i s))" and "guar (one_section (\<lambda>st. prf_evaluate L E st i s))"
    and "guar (one_section (\<lambda>st. prf_public_key L E st i u))"
    and "guar (disclose_prog L E i dq)" and "guar (release_prog L E i lq)" and "guar (reassign_prog L E i aq)"
proof -
  show "guar (one_section (\<lambda>st. prf_pairwise L E st i s))" "guar (one_section (\<lambda>st. prf_evaluate L E st i s))"
    "guar (one_section (\<lambda>st. prf_public_key L E st i u))"
    unfolding prf_pairwise_def prf_evaluate_def prf_public_key_def by (rule guar_gated_section, rule exI, rule refl)+
  show "guar (disclose_prog L E i dq)"
    unfolding disclose_prog_def
    by (intro guar_gated) (auto intro!: guar_bind guar_run_db simp: dv.stay permit_of_bind split: sum.split)
  show "guar (release_prog L E i lq)" "guar (reassign_prog L E i aq)"
    unfolding release_prog_def reassign_prog_def
    by (intro guar_gated; auto intro!: guar_bind guar_run_db ledger_ops_dev simp: permit_of_bind split: sum.split)+
qed

lemma guar_register:
  assumes "drawn_refs E"
  shows "guar (register_prog L E i req)"
  unfolding register_prog_def using assms
  by (intro guar_gated) (auto intro!: guar_bind guar_run_db ledger_ops_dev simp: permit_of_bind drawn_refs_def
      dest: register_validate_Ok split: sum.split)

lemma guar_reply [intro]: "guar p \<Longrightarrow> guar (bind_prog p (\<lambda>r. Return (k r)))"
  by (rule guar_bind) simp_all

lemma guar_handle:
  assumes "drawn_refs E"
  shows "guar (handle_prog L E st req)"
proof -
  note programs = guar_sign guar_get_key guar_create_key guar_rotate_key guar_prf_programs guar_register [OF assms]
  have "guar (route_prog L E st i r q)" for i r q
    by (cases r; cases q) (auto simp: route_prog_def intro!: guar_reply programs)
  then show ?thesis
    by (auto simp: handle_prog_def split: sum.split route.split)
qed

text \<open>No program starts out with a permit.\<close>

lemma permit_handle: "permit_of (handle_prog L E st req) = 0"
proof -
  have "permit_of (route_prog L E st i r q) = 0" for i r q
    by (cases r; cases q) (auto simp: route_prog_def permit_of_bind sign_prog_def sign_ready_prog_def
        wait_ready_prog_def ensure_prog_def get_key_prog_def create_key_prog_def key_gate_prog_def rotate_key_prog_def
        one_section_def disclose_prog_def register_prog_def release_prog_def reassign_prog_def gated_prog_def
        split: sum.split option.split)
  then show ?thesis
    by (auto simp: handle_prog_def split: sum.split route.split)
qed

subsection \<open>The invariant of the running service\<close>

definition owned_total :: "thread list \<Rightarrow> nat" where
  "owned_total ts = sum_list (map owned ts)"

definition running_inv :: "nat \<Rightarrow> service \<Rightarrow> bool" where
  "running_inv cap x = (case x of (st, ts) \<Rightarrow>
     server_inv st \<and> stock (app_kg st) + owned_total ts = cap \<and> (\<forall>t \<in> set ts. guar (sv_prog t)))"

lemma owned_total_update:
  "j < length ts \<Longrightarrow> owned_total (ts[j := t]) + owned (ts ! j) = owned_total ts + owned t"
  unfolding owned_total_def by (induction ts arbitrary: j) (auto simp: nth_Cons split: nat.splits)

lemma guar_moves:
  assumes "guar p" and "moves gone p st st' p'"
  shows "dev st st' \<and> same_config st st' \<and> guar p' \<and> busy (app_kg st') = busy (app_kg st) \<and>
    stock (app_kg st') + (if gone then 0 else permit_of p') = stock (app_kg st) + (if gone then 0 else permit_of p)"
  using assms(2)
proof (cases rule: moves.cases)
  case (step f pl i h)
  with assms(1) have "kept h st st' p' \<and> guar p'" and "pl = Pool \<Longrightarrow> stock (app_kg st') = stock (app_kg st)"
    by (blast elim: guar_SectionE)+
  with step show ?thesis
    by (auto simp: kept_def)
next
  case (wake f w)
  with assms(1) have "kept False st st' p' \<and> guar p'"
    by (blast elim: guar_WaitLoopE)
  with wake show ?thesis
    by (auto simp: kept_def)
qed

text \<open>What one step does to the shared state.\<close>

text \<open>What one move of a thread, and the drop of its future, do to the permits.\<close>

lemma moved_permits:
  assumes "\<forall>t \<in> set ts. guar (sv_prog t)" and "j < length ts" and "moves (sv_gone (ts ! j)) (sv_prog (ts ! j)) st st' p"
  shows "dev st st' \<and> same_config st st' \<and> (\<forall>t \<in> set (ts[j := (ts ! j)\<lparr>sv_prog := p\<rparr>]). guar (sv_prog t)) \<and>
    stock (app_kg st') + owned_total (ts[j := (ts ! j)\<lparr>sv_prog := p\<rparr>]) = stock (app_kg st) + owned_total ts"
proof -
  have "guar (sv_prog (ts ! j))"
    using assms(1,2) by simp
  note g = guar_moves [OF this assms(3)]
  have "stock (app_kg st') + owned_total (ts[j := (ts ! j)\<lparr>sv_prog := p\<rparr>]) = stock (app_kg st) + owned_total ts"
    using g owned_total_update [OF assms(2), of "(ts ! j)\<lparr>sv_prog := p\<rparr>"] by (simp add: owned_def split: if_splits)
  moreover have "\<forall>t \<in> set (ts[j := (ts ! j)\<lparr>sv_prog := p\<rparr>]). guar (sv_prog t)"
    using assms(1) g by (auto dest!: set_update_subset_insert [THEN subsetD])
  ultimately show ?thesis
    using g by blast
qed

lemma dropped_permits:
  assumes "\<forall>t \<in> set ts. guar (sv_prog t)" and "j < length ts"
    and "st' = (if owned (ts ! j) = 1 then release_permit st else st)"
  shows "dev st st' \<and> same_config st st' \<and> (\<forall>t \<in> set (ts[j := (ts ! j)\<lparr>sv_gone := True\<rparr>]). guar (sv_prog t)) \<and>
    stock (app_kg st') + owned_total (ts[j := (ts ! j)\<lparr>sv_gone := True\<rparr>]) = stock (app_kg st) + owned_total ts"
proof -
  have "owned_total (ts[j := (ts ! j)\<lparr>sv_gone := True\<rparr>]) + owned (ts ! j) = owned_total ts"
    using owned_total_update [OF assms(2), of "(ts ! j)\<lparr>sv_gone := True\<rparr>"] by (simp add: owned_def)
  moreover have "owned (ts ! j) \<le> 1"
    by (cases "sv_prog (ts ! j)") (auto simp: owned_def)
  moreover have "\<forall>t \<in> set (ts[j := (ts ! j)\<lparr>sv_gone := True\<rparr>]). guar (sv_prog t)"
    using assms(1,2) by (auto dest!: set_update_subset_insert [THEN subsetD])
  ultimately show ?thesis
    using assms(3) dev_release_permit [of st] by (auto simp: dv.stay)
qed

lemma service_step_dev:
  assumes "service_step L A (st, ts) (st', ts')" and "\<forall>t \<in> set ts. guar (sv_prog t)"
  shows "dev st st'" and "same_config st st'" and "\<forall>t \<in> set ts'. guar (sv_prog t)"
    and "stock (app_kg st') + owned_total ts' = stock (app_kg st) + owned_total ts"
proof -
  have "dev st st' \<and> same_config st st' \<and> (\<forall>t \<in> set ts'. guar (sv_prog t)) \<and>
      stock (app_kg st') + owned_total ts' = stock (app_kg st) + owned_total ts"
    using assms(1)
  proof (cases rule: service_step.cases)
    case (background s)
    with assms(2) show ?thesis
      by (auto dest: task_step_dev task_step_stock)
  next
    case (action a)
    from action(2) show ?thesis
    proof (cases rule: act_cases)
      case (arrived E req)
      with assms(2) guar_handle [of E L st req] show ?thesis
        by (auto simp: dv.stay owned_total_def owned_def permit_handle)
    next
      case (moved j p)
      from moved_permits [OF assms(2) moved(1,2)] moved(3) show ?thesis by simp
    next
      case (dropped j)
      from dropped_permits [OF assms(2) dropped(2,4)] dropped(5) show ?thesis by simp
    qed
  qed
  then show "dev st st'" "same_config st st'" "\<forall>t \<in> set ts'. guar (sv_prog t)"
    "stock (app_kg st') + owned_total ts' = stock (app_kg st) + owned_total ts"
    by blast+
qed

lemma service_step_inv:
  assumes "service_step L A x y" and "running_inv cap x"
  shows "running_inv cap y"
proof -
  obtain st ts st' ts' where x: "x = (st, ts)" and y: "y = (st', ts')"
    by (cases x, cases y)
  from assms(2) have inv: "server_inv st" "stock (app_kg st) + owned_total ts = cap" "\<forall>t \<in> set ts. guar (sv_prog t)"
    by (simp_all add: running_inv_def x)
  note s = service_step_dev [OF assms(1) [unfolded x y] inv(3)]
  from develops_inv [OF inv(1) s(1)] s(3,4) inv(2) show ?thesis
    by (simp add: running_inv_def y)
qed

lemma service_run_inv: "service_run L A x y \<Longrightarrow> running_inv cap x \<Longrightarrow> running_inv cap y"
  unfolding service_run_def by (induction rule: rtranclp_induct) (auto intro: service_step_inv)

lemma running_inv_start: "server_inv st \<Longrightarrow> running_inv (stock (app_kg st)) (st, [])"
  by (simp add: running_inv_def owned_total_def)

lemma service_run_config:
  assumes "service_run L A (st0, []) (st, ts)" and "server_inv st0"
  shows "same_config st0 st"
proof -
  have "same_config st0 (fst x)" if "(service_step L A)\<^sup>*\<^sup>* (st0, []) x" for x
    using that
  proof (induction rule: rtranclp_induct)
    case (step y z)
    have "running_inv (stock (app_kg st0)) y"
      by (rule service_run_inv [OF _ running_inv_start [OF assms(2)]]) (use step.hyps(1) in \<open>simp add: service_run_def\<close>)
    then have "\<forall>t \<in> set (snd y). guar (sv_prog t)"
      by (simp add: running_inv_def split: prod.splits)
    with step service_step_dev(2) [of L A "fst y" "snd y" "fst z" "snd z"] show ?case
      by (auto intro: same_config_trans)
  qed simp
  with assms(1) show ?thesis
    by (fastforce simp: service_run_def)
qed

end
