(* ===== verification/Service_Progress.thy ===== *)
theory Service_Progress
  imports Service_Runs "HOL-Library.Multiset"
begin

text \<open>
  The running service makes progress: from every state it can reach, the requests that are there and
  the workers can all finish, and permits bound what runs at once as long as no client goes away.
\<close>

subsection \<open>Nothing gets stuck\<close>

lemma run_refl [simp]: "service_run L A x x"
  by (simp add: service_run_def)

lemma run_trans: "service_run L A x y \<Longrightarrow> service_run L A y z \<Longrightarrow> service_run L A x z"
  unfolding service_run_def by (rule rtranclp_trans)

lemma run_step: "service_step L A x y \<Longrightarrow> service_run L A x y"
  unfolding service_run_def by (rule r_into_rtranclp)

text \<open>The actions of requests that are already there.\<close>

abbreviation going_on :: "action set" where
  "going_on \<equiv> range Continue \<union> {a. \<exists>j w. a = WakeUp j w}"

text \<open>A thread on its own.\<close>

inductive alone :: "app_state \<Rightarrow> 'r prog \<Rightarrow> app_state \<Rightarrow> 'r prog \<Rightarrow> bool" where
  stop: "alone st p st p"
| go: "\<lbrakk> moves False p st st1 p1; alone st1 p1 st' p' \<rbrakk> \<Longrightarrow> alone st p st' p'"

lemma same_prog: "sv_prog t = p \<Longrightarrow> t\<lparr>sv_prog := p\<rparr> = t"
  by (cases t) simp

lemma act_move:
  assumes "j < length ts" and "moves False (sv_prog (ts ! j)) st st' p'" and "\<not> sv_gone (ts ! j)"
  shows "service_run L going_on (st, ts) (st', ts[j := (ts ! j)\<lparr>sv_prog := p'\<rparr>])"
proof (cases "sv_prog (ts ! j)")
  case (Return r)
  with assms(2) show ?thesis by (auto elim: moves_ReturnE)
next
  case (Section i pl h f)
  with assms have "act L (Continue j) (st, ts) = Some (st', ts[j := (ts ! j)\<lparr>sv_prog := p'\<rparr>])"
    by (auto simp: put_prog_def elim: moves_SectionE)
  then show ?thesis
    by (intro run_step service_step.action [of "Continue j"]) simp_all
next
  case (WaitLoop f)
  with assms(2) obtain w where "f w st = Some (st', p')"
    by (auto elim: moves_WaitLoopE)
  with WaitLoop assms(1,3) have "act L (WakeUp j w) (st, ts) = Some (st', ts[j := (ts ! j)\<lparr>sv_prog := p'\<rparr>])"
    by (simp add: put_prog_def)
  then show ?thesis
    by (intro run_step service_step.action [of "WakeUp j w"]) auto
qed

lemma alone_run:
  assumes "alone st p st' p'" and "j < length ts" and "sv_prog (ts ! j) = p" and "\<not> sv_gone (ts ! j)"
  shows "service_run L going_on (st, ts) (st', ts[j := (ts ! j)\<lparr>sv_prog := p'\<rparr>])"
  using assms
proof (induction arbitrary: ts)
  case (stop st p)
  then show ?case by (simp add: same_prog)
next
  case (go p st st1 p1 st' p')
  let ?ts = "ts[j := (ts ! j)\<lparr>sv_prog := p1\<rparr>]"
  have "service_run L going_on (st, ts) (st1, ?ts)"
    using go.hyps(1) go.prems by (intro act_move) simp_all
  moreover have "service_run L going_on (st1, ?ts) (st', ?ts[j := (?ts ! j)\<lparr>sv_prog := p'\<rparr>])"
    using go.prems by (intro go.IH) simp_all
  ultimately show ?case
    using go.prems(1) run_trans by fastforce
qed

text \<open>A thread that has not returned can move, unless it waits for a permit.\<close>

lemma section_enabled:
  assumes "guar (Section i pl h f)" and "h \<or> permits (app_kg st) \<noteq> 0"
  obtains st' p' where "f st = Some (st', p')" and "moves False (Section i pl h f) st st' p'"
proof -
  from assms(1) have "f st = None \<longrightarrow> \<not> h \<and> permits (app_kg st) = 0"
    by (rule guar_SectionE) blast
  with assms(2) obtain x where "f st = Some x"
    by (cases "f st") auto
  then have x: "f st = Some (fst x, snd x)"
    by simp
  then show thesis
    by (rule that) (rule moves.step [of f, OF x], simp)
qed

lemma wait_enabled:
  assumes "guar (WaitLoop f)"
  obtains st' p' where "f OnDeadline st = Some (st', p')" and "moves False (WaitLoop f) st st' p'"
proof -
  from assms have "f OnDeadline st \<noteq> None"
    by (rule guar_WaitLoopE) blast
  then obtain x where "f OnDeadline st = Some x"
    by (cases "f OnDeadline st") auto
  then have x: "f OnDeadline st = Some (fst x, snd x)"
    by simp
  then show thesis
    by (rule that) (rule moves.wake [of f, OF x])
qed

text \<open>A thread that owns a permit gives it back.\<close>

lemma gives_back:
  assumes "guar p"
  shows "\<exists>st' p'. alone st p st' p' \<and> permit_of p' = 0"
  using assms
proof (induction p arbitrary: st rule: prog_induct)
  case (Section i pl h f)
  show ?case
  proof (cases h)
    case True
    then obtain st1 p1 where f: "f st = Some (st1, p1)" and m: "moves False (Section i pl h f) st st1 p1"
      using section_enabled [OF Section.prems, of st] by blast
    from Section.IH [OF f] guar_moves [OF Section.prems m]
    obtain st' p' where "alone st1 p1 st' p'" "permit_of p' = 0"
      by blast
    then show ?thesis
      using alone.go [OF m] by blast
  next
    case False
    then show ?thesis
      using alone.stop [of st "Section i pl h f"] by fastforce
  qed
next
  case (WaitLoop f)
  show ?case
    using alone.stop [of st "WaitLoop f"] by fastforce
next
  case (Return r)
  show ?case
    using alone.stop [of st "Return r"] by fastforce
qed

text \<open>With the workers at rest, a thread returns.\<close>

lemma returns_alone:
  assumes "guar p" and "busy (app_kg st) = 0" and "0 < stock (app_kg st) + permit_of p"
  shows "\<exists>st' r. alone st p st' (Return r)"
  using assms
proof (induction p arbitrary: st rule: prog_induct)
  case (Return r)
  show ?case
    using alone.stop [of st "Return r"] by blast
next
  case (Section i pl h f)
  have "h \<or> permits (app_kg st) \<noteq> 0"
    using Section.prems(2,3) by (cases h) (auto simp: stock_def)
  then obtain st1 p1 where f: "f st = Some (st1, p1)" and m: "moves False (Section i pl h f) st st1 p1"
    using section_enabled [OF Section.prems(1)] by blast
  from guar_moves [OF Section.prems(1) m] Section.prems(2,3)
  have "guar p1" "busy (app_kg st1) = 0" "0 < stock (app_kg st1) + permit_of p1"
    by simp_all
  from Section.IH [OF f this] show ?case
    using alone.go [OF m] by blast
next
  case (WaitLoop f)
  obtain st1 p1 where f: "f OnDeadline st = Some (st1, p1)" and m: "moves False (WaitLoop f) st st1 p1"
    using wait_enabled [OF WaitLoop.prems(1)] by blast
  from guar_moves [OF WaitLoop.prems(1) m] WaitLoop.prems(2,3)
  have "guar p1" "busy (app_kg st1) = 0" "0 < stock (app_kg st1) + permit_of p1"
    by simp_all
  from WaitLoop.IH [OF f this] show ?case
    using alone.go [OF m] by blast
qed

lemma alone_guar:
  assumes "alone st p st' p'" and "guar p"
  shows "busy (app_kg st') = busy (app_kg st)"
  using assms by (induction) (auto dest: guar_moves)

lemma tasks_run:
  assumes "(task_step L)\<^sup>*\<^sup>* (app_kg st) s"
  shows "service_run L A (st, ts) (st\<lparr>app_kg := s\<rparr>, ts)"
  using assms
proof (induction rule: rtranclp_induct)
  case base
  show ?case by simp
next
  case (step s1 s2)
  have "service_step L A (st\<lparr>app_kg := s1\<rparr>, ts) (st\<lparr>app_kg := s1, app_kg := s2\<rparr>, ts)"
    using step.hyps(2) by (intro service_step.background) simp
  with step.IH run_trans run_step show ?case by fastforce
qed

lemma map_gone_update: "map sv_gone (ts[j := (ts ! j)\<lparr>sv_prog := p\<rparr>]) = map sv_gone ts"
  by (cases "j < length ts") (auto intro!: nth_equalityI simp: nth_list_update split: if_splits)

text \<open>First every permit is given back, then the workers finish, then the requests.\<close>

lemma permits_come_back:
  assumes "running_inv cap (st, ts)"
  shows "\<exists>st' ts'. service_run L going_on (st, ts) (st', ts') \<and> owned_total ts' = 0 \<and> map sv_gone ts' = map sv_gone ts"
  using assms
proof (induction "owned_total ts" arbitrary: st ts rule: less_induct)
  case less
  show ?case
  proof (cases "owned_total ts = 0")
    case True
    then show ?thesis using run_refl by blast
  next
    case False
    then obtain j where j: "j < length ts" "owned (ts ! j) \<noteq> 0"
      by (auto simp: owned_total_def in_set_conv_nth)
    then have live: "\<not> sv_gone (ts ! j)" and "guar (sv_prog (ts ! j))"
      using less.prems by (auto simp: owned_def running_inv_def)
    then obtain st1 p where a: "alone st (sv_prog (ts ! j)) st1 p" and p: "permit_of p = 0"
      using gives_back by blast
    let ?ts = "ts[j := (ts ! j)\<lparr>sv_prog := p\<rparr>]"
    have run: "service_run L going_on (st, ts) (st1, ?ts)"
      by (rule alone_run [OF a j(1) refl live])
    have "owned_total ?ts < owned_total ts"
      using owned_total_update [OF j(1), of "(ts ! j)\<lparr>sv_prog := p\<rparr>"] j(2) p by (simp add: owned_def split: if_splits)
    from less.hyps [OF this service_run_inv [OF run less.prems]] obtain st' ts' where
      "service_run L going_on (st1, ?ts) (st', ts')" "owned_total ts' = 0" "map sv_gone ts' = map sv_gone ts"
      by (auto simp: map_gone_update)
    then show ?thesis
      using run_trans [OF run] by blast
  qed
qed

lemma workers_finish:
  assumes "running_inv cap (st, ts)" and "owned_total ts = 0" and "0 < cap"
  shows "\<exists>s. service_run L A (st, ts) (st\<lparr>app_kg := s\<rparr>, ts) \<and> all_done s \<and> busy s = 0"
proof -
  have "\<not> closed (app_kg st)" "0 < stock (app_kg st)"
    using assms by (auto simp: running_inv_def server_inv_def good_def kg_inv_def)
  then obtain s where s: "(task_step L)\<^sup>*\<^sup>* (app_kg st) s" "all_done s"
    using tasks_drain by blast
  then have "busy s = 0"
    by (auto simp: busy_def all_done_def running_def filter_empty_conv)
  with s tasks_run show ?thesis by blast
qed

definition answered :: "thread \<Rightarrow> bool" where
  "answered t \<longleftrightarrow> sv_gone t \<or> (\<exists>r. sv_prog t = Return r)"

lemma requests_finish:
  assumes "running_inv cap (st, ts)" and "owned_total ts = 0" and "busy (app_kg st) = 0" and "0 < cap"
  shows "\<exists>st' ts'. service_run L going_on (st, ts) (st', ts') \<and> owned_total ts' = 0 \<and>
    map sv_gone ts' = map sv_gone ts \<and> (\<forall>t \<in> set ts'. answered t)"
  using assms(1-3)
proof (induction "length (filter (\<lambda>t. \<not> answered t) ts)" arbitrary: st ts rule: less_induct)
  case less
  show ?case
  proof (cases "\<forall>t \<in> set ts. answered t")
    case True
    with less.prems(2) show ?thesis using run_refl by blast
  next
    case False
    then obtain j where j: "j < length ts" "\<not> answered (ts ! j)"
      by (auto simp: in_set_conv_nth)
    then have live: "\<not> sv_gone (ts ! j)" and g: "guar (sv_prog (ts ! j))"
      using less.prems(1) by (auto simp: answered_def running_inv_def)
    have "0 < stock (app_kg st)"
      using less.prems(1,2) assms(4) by (simp add: running_inv_def)
    with returns_alone [OF g less.prems(3)] obtain st1 r where a: "alone st (sv_prog (ts ! j)) st1 (Return r)"
      by auto
    let ?t = "(ts ! j)\<lparr>sv_prog := Return r\<rparr>"
    let ?ts = "ts[j := ?t]"
    have run: "service_run L going_on (st, ts) (st1, ?ts)"
      by (rule alone_run [OF a j(1) refl live])
    have fewer: "length (filter (\<lambda>t. \<not> answered t) ?ts) < length (filter (\<lambda>t. \<not> answered t) ts)"
      using length_filter_update [OF j(1), of "\<lambda>t. \<not> answered t" ?t] j(2) by (simp add: answered_def)
    have "owned_total ?ts = 0"
      using owned_total_update [OF j(1), of ?t] less.prems(2) by (simp add: owned_def split: if_splits)
    from less.hyps [OF fewer service_run_inv [OF run less.prems(1)] this] alone_guar [OF a g] less.prems(3)
    obtain st' ts' where "service_run L going_on (st1, ?ts) (st', ts')" "owned_total ts' = 0"
      "map sv_gone ts' = map sv_gone ts" "\<forall>t \<in> set ts'. answered t"
      by (auto simp: map_gone_update)
    then show ?thesis
      using run_trans [OF run] by blast
  qed
qed

lemma service_finishes:
  assumes "running_inv cap (st, ts)" and "0 < cap"
  shows "\<exists>st' ts'. service_run L going_on (st, ts) (st', ts') \<and> map sv_gone ts' = map sv_gone ts \<and>
    (\<forall>t \<in> set ts'. answered t) \<and> all_done (app_kg st')"
proof -
  obtain st1 ts1 where 1: "service_run L going_on (st, ts) (st1, ts1)" "owned_total ts1 = 0"
      "map sv_gone ts1 = map sv_gone ts"
    using permits_come_back [OF assms(1)] by blast
  note inv1 = service_run_inv [OF 1(1) assms(1)]
  obtain s where 2: "service_run L going_on (st1, ts1) (st1\<lparr>app_kg := s\<rparr>, ts1)" "busy s = 0"
    using workers_finish [OF inv1 1(2) assms(2)] by blast
  note inv2 = service_run_inv [OF 2(1) inv1]
  have "busy (app_kg (st1\<lparr>app_kg := s\<rparr>)) = 0"
    using 2(2) by simp
  then obtain st3 ts3 where 3: "service_run L going_on (st1\<lparr>app_kg := s\<rparr>, ts1) (st3, ts3)" "owned_total ts3 = 0"
      "map sv_gone ts3 = map sv_gone ts1" "\<forall>t \<in> set ts3. answered t"
    using requests_finish [OF inv2 1(2) _ assms(2)] by blast
  obtain s' where 4: "service_run L going_on (st3, ts3) (st3\<lparr>app_kg := s'\<rparr>, ts3)" "all_done s'"
    using workers_finish [OF service_run_inv [OF 3(1) inv2] 3(2) assms(2)] by blast
  have "service_run L going_on (st, ts) (st3\<lparr>app_kg := s'\<rparr>, ts3)"
    by (rule run_trans [OF run_trans [OF run_trans [OF 1(1) 2(1)] 3(1)] 4(1)])
  with 1(3) 3(3,4) 4(2) show ?thesis
    by (intro exI [of _ "st3\<lparr>app_kg := s'\<rparr>"] exI [of _ ts3]) simp
qed

subsection \<open>The cap\<close>

text \<open>The rotations that generate a key, whether or not their future is still there.\<close>

fun rotating :: "'r prog \<Rightarrow> bool" where
  "rotating (Section i pl h f) = (pl = Pool \<and> h)"
| "rotating _ = False"

definition rotations :: "thread list \<Rightarrow> nat" where
  "rotations ts = length (filter (\<lambda>t. rotating (sv_prog t)) ts)"

abbreviation connected :: "action set" where
  "connected \<equiv> - range Disconnect"

lemma connected_step:
  assumes "service_step L connected (st, ts) (st', ts')" and "\<forall>t \<in> set ts. \<not> sv_gone t"
  shows "\<forall>t \<in> set ts'. \<not> sv_gone t"
  using assms(1)
proof (cases rule: service_step.cases)
  case (action a)
  from action(2) show ?thesis
  proof (cases rule: act_cases)
    case (moved j p)
    with assms(2) show ?thesis by (auto dest!: set_update_subset_insert [THEN subsetD])
  qed (use assms(2) action(1) in auto)
qed (use assms(2) in simp)

lemma connected_run:
  assumes "service_run L connected x y" and "\<forall>t \<in> set (snd x). \<not> sv_gone t"
  shows "\<forall>t \<in> set (snd y). \<not> sv_gone t"
  using assms(1) unfolding service_run_def
proof (induction rule: rtranclp_induct)
  case base
  show ?case using assms(2) .
next
  case (step y z)
  then show ?case
    using connected_step [of L "fst y" "snd y" "fst z" "snd z"] by simp
qed

lemma rotations_owned:
  assumes "\<forall>t \<in> set ts. \<not> sv_gone t"
  shows "rotations ts \<le> owned_total ts"
  using assms
proof (induction ts)
  case (Cons t ts)
  have "(if rotating (sv_prog t) then 1 else 0) \<le> owned t"
    using Cons.prems by (cases "sv_prog t") (auto simp: owned_def)
  with Cons show ?case by (auto simp: rotations_def owned_total_def)
qed (simp add: rotations_def)

lemma capped:
  assumes "running_inv cap (st, ts)" and "\<forall>t \<in> set ts. \<not> sv_gone t"
  shows "busy (app_kg st) + rotations ts \<le> cap"
  using rotations_owned [OF assms(2)] assms(1) by (auto simp: running_inv_def stock_def)

subsection \<open>Requests served alone\<close>

lemma alone_trans: "alone st p st1 p1 \<Longrightarrow> alone st1 p1 st2 p2 \<Longrightarrow> alone st p st2 p2"
  by (induction rule: alone.induct) (auto intro: alone.go)

lemma alone_move: "moves False p st st' p' \<Longrightarrow> alone st p st' p'"
  by (rule alone.go) (auto intro: alone.stop)

text \<open>A program that returns when nothing happens in its gaps and its waits does so in the service, alone.\<close>

lemma exec_alone:
  assumes "undisturbed E" and "\<forall>w \<in> set (rq_wakes E). \<forall>s. wake_effect w s = s" and "exec E p st = Some (r, st')"
  shows "alone st p st' (Return r)"
  using assms(3)
proof (induction p arbitrary: st rule: prog_induct)
  case (Return x)
  then show ?case by (simp add: alone.stop)
next
  case (Section i pl h f)
  have "gap E i st = st"
    using interfere_undisturbed [OF assms(1)] by (cases i) simp_all
  with Section.prems obtain st1 p1 where f: "f st = Some (st1, p1)" and e: "exec E p1 st1 = Some (r, st')"
    by (auto simp: exec_section split: option.splits)
  show ?case
    using moves.step [where f = f, OF f, of False] Section.IH [OF f e] by (blast intro: alone.go)
next
  case (WaitLoop f)
  have "alone st (WaitLoop f) st' (Return r)"
    if "wait_exec (\<lambda>w st. map_option (map_prod id (exec E)) (f w st)) ws st = Some (r, st')"
      "\<forall>w \<in> set ws. \<forall>s. wake_effect w s = s" for ws
    using that
  proof (induction ws)
    case (Cons w ws)
    show ?case
    proof (cases "f (wake_kind_of w) st")
      case None
      with Cons show ?thesis by simp
    next
      case (Some x)
      then have f: "f (wake_kind_of w) st = Some (fst x, snd x)"
        by simp
      with Cons.prems Some have "exec E (snd x) (fst x) = Some (r, st')"
        by (cases x) simp
      with moves.wake [of f _ st, OF f] WaitLoop.IH [OF f] show ?thesis
        by (blast intro: alone.go)
    qed
  qed simp
  with WaitLoop.prems assms(2) show ?case by simp
qed

lemma run_mono: "service_run L A x y \<Longrightarrow> A \<subseteq> B \<Longrightarrow> service_run L B x y"
  unfolding service_run_def
  by (erule mono_rtranclp [rule_format, rotated]) (auto elim!: service_step.cases intro: service_step.intros)

text \<open>A request that is served with nothing in between.\<close>

lemma served_alone:
  assumes "undisturbed E" and "\<forall>w \<in> set (rq_wakes E). \<forall>s. wake_effect w s = s" and "drawn_refs E"
    and "handle L E st req = Some (r, st')" and "NewRequest E req \<in> A" and "going_on \<subseteq> A"
  shows "service_run L A (st, ts) (st', ts @ [\<lparr>sv_env = E, sv_req = req, sv_prog = Return r, sv_gone = False\<rparr>])"
proof -
  let ?t = "\<lparr>sv_env = E, sv_req = req, sv_prog = handle_prog L E st req, sv_gone = False\<rparr>"
  have "service_run L A (st, ts) (st, ts @ [?t])"
    using assms(3,5) by (intro run_step service_step.action [of "NewRequest E req"]) simp_all
  moreover have "alone st (handle_prog L E st req) st' (Return r)"
    using exec_alone [OF assms(1,2)] exec_handle assms(4) by metis
  from alone_run [OF this, of "length ts" "ts @ [?t]" L] run_mono [OF _ assms(6)]
  have "service_run L A (st, ts @ [?t]) (st', ts @ [?t\<lparr>sv_prog := Return r\<rparr>])"
    by simp
  ultimately show ?thesis
    using run_trans by fastforce
qed

lemma step_length:
  assumes "service_step L A (st, ts) (st', ts')"
  shows "length ts \<le> length ts'"
  using assms by (cases rule: service_step.cases) (auto elim: act_cases)

lemma run_length: "service_run L A x y \<Longrightarrow> length (snd x) \<le> length (snd y)"
  unfolding service_run_def
  by (induction rule: rtranclp_induct) (auto dest: step_length)

subsection \<open>Coming to rest\<close>

text \<open>
  Every step that is not an arrival leaves less to do: a thread goes on to a later program, a future is
  dropped, or a worker gets further. So the service comes to rest when no more requests arrive.
\<close>

text \<open>What a program may go on with.\<close>

definition later_prog :: "('r prog \<times> 'r prog) set" where
  "later_prog = {(p', p). \<exists>gone st st'. moves gone p st st' p'}"

lemma wf_later: "wf later_prog"
proof (rule wfUNIVI)
  fix P p
  assume step: "\<forall>p. (\<forall>q. (q, p) \<in> later_prog \<longrightarrow> P q) \<longrightarrow> P p"
  show "P p"
  proof (induction p rule: prog_induct)
    case (Return r)
    show ?case
      using step by (auto simp: later_prog_def elim: moves_ReturnE)
  next
    case (Section i pl h f)
    then show ?case
      using step [rule_format, of "Section i pl h f"] by (auto simp: later_prog_def elim: moves_SectionE)
  next
    case (WaitLoop f)
    then show ?case
      using step [rule_format, of "WaitLoop f"] by (auto simp: later_prog_def elim!: moves_WaitLoopE)
  qed
qed

abbreviation no_arrivals :: "action set" where
  "no_arrivals \<equiv> - {a. \<exists>E req. a = NewRequest E req}"

definition to_do :: "service \<Rightarrow> reply prog multiset \<times> nat \<times> nat" where
  "to_do x = (mset (map sv_prog (snd x)), length (filter (\<lambda>t. \<not> sv_gone t) (snd x)), work_left (app_kg (fst x)))"

abbreviation less_to_do :: "((reply prog multiset \<times> nat \<times> nat) \<times> (reply prog multiset \<times> nat \<times> nat)) set" where
  "less_to_do \<equiv> mult1 later_prog <*lex*> less_than <*lex*> less_than"

lemma progs_update:
  assumes "j < length ts" and "(p, sv_prog (ts ! j)) \<in> later_prog"
  shows "(mset (map sv_prog (ts[j := (ts ! j)\<lparr>sv_prog := p\<rparr>])), mset (map sv_prog ts)) \<in> mult1 later_prog"
proof -
  have m: "map sv_prog (ts[j := (ts ! j)\<lparr>sv_prog := p\<rparr>]) = (map sv_prog ts)[j := p]"
    by (simp add: map_update)
  have "sv_prog (ts ! j) \<in># mset (map sv_prog ts)"
    using assms(1) by simp
  then obtain M where M: "mset (map sv_prog ts) = add_mset (sv_prog (ts ! j)) M"
    by (blast dest: multi_member_split)
  then have "mset ((map sv_prog ts)[j := p]) = add_mset p M"
    using assms(1) by (simp add: mset_update)
  with assms(2) M m show ?thesis
    unfolding mult1_def m
    by (intro CollectI case_prodI exI [where x = "sv_prog (ts ! j)"] exI [where x = M] exI [where x = "{#p#}"]) simp
qed

lemma step_to_do:
  assumes "service_step L no_arrivals (st, ts) (st', ts')"
  shows "(to_do (st', ts'), to_do (st, ts)) \<in> less_to_do"
  using assms
proof (cases rule: service_step.cases)
  case (background s)
  then show ?thesis
    by (simp add: to_do_def task_step_decreases)
next
  case (action a)
  from action(2) show ?thesis
  proof (cases rule: act_cases)
    case (arrived E req)
    with action show ?thesis
      by (cases a) (auto simp: put_prog_def dest!: arg_cong [of _ _ length] split: if_splits)
  next
    case (moved j p)
    then have "(p, sv_prog (ts ! j)) \<in> later_prog"
      by (auto simp: later_prog_def)
    from progs_update [OF moved(1) this] show ?thesis
      by (simp add: to_do_def moved(3))
  next
    case (dropped j)
    have "map sv_prog ts' = map sv_prog ts"
      using dropped(2,5) by (auto intro!: nth_equalityI simp: nth_list_update split: if_splits)
    moreover have "length (filter (\<lambda>t. \<not> sv_gone t) ts') < length (filter (\<lambda>t. \<not> sv_gone t) ts)"
      using length_filter_update [OF dropped(2), of "\<lambda>t. \<not> sv_gone t" "(ts ! j)\<lparr>sv_gone := True\<rparr>"] dropped(3)
      by (simp add: dropped(5))
    ultimately show ?thesis
      by (simp add: to_do_def)
  qed
qed

lemma no_endless_run: "\<nexists>f. \<forall>m. service_step L no_arrivals (f m) (f (Suc m))"
proof
  assume "\<exists>f. \<forall>m. service_step L no_arrivals (f m) (f (Suc m))"
  then obtain f where f: "\<And>m. service_step L no_arrivals (f m) (f (Suc m))"
    by blast
  have "(to_do (f (Suc m)), to_do (f m)) \<in> less_to_do" for m
    using step_to_do [of L "fst (f m)" "snd (f m)" "fst (f (Suc m))" "snd (f (Suc m))"] f [of m] by simp
  moreover have "wf less_to_do"
    by (intro wf_lex_prod wf_mult1 wf_later wf_less_than)
  ultimately show False
    by (metis wf_no_infinite_down_chainE [of less_to_do "\<lambda>m. to_do (f m)"])
qed

lemma at_rest:
  assumes "running_inv cap (st, ts)" and "0 < cap" and "\<nexists>y. service_step L no_arrivals (st, ts) y"
  shows "(\<forall>t \<in> set ts. answered t) \<and> all_done (app_kg st)"
proof -
  obtain st' ts' where run: "service_run L going_on (st, ts) (st', ts')"
    and fin: "\<forall>t \<in> set ts'. answered t" "all_done (app_kg st')"
    using service_finishes [OF assms(1,2)] by blast
  have "service_run L no_arrivals (st, ts) (st', ts')"
    using run by (rule run_mono) auto
  then have "(st', ts') = (st, ts)"
    using assms(3) unfolding service_run_def by (blast elim: converse_rtranclpE)
  with fin show ?thesis by simp
qed

end
