(* ===== verification/Service_Refinement.thy ===== *)
theory Service_Refinement
  imports Service_Runs
begin

text \<open>
  Every request of the running service, however its sections are interleaved with the other threads
  and the workers, is answered as its handler answers in suitable surroundings: what the others did
  in each gap is the interference there, and it stays within what the service guarantees. So
  whatever is shown of the handlers under such interference holds of the running service.
\<close>

subsection \<open>Gaps\<close>

text \<open>
  What a section after the first one sees of the state: not the windows of the key limiters, which a
  request looks at once, in its first section.
\<close>

definition same_view :: "app_state \<Rightarrow> app_state \<Rightarrow> bool" where
  "same_view st st' \<longleftrightarrow> app_kg st' = app_kg st \<and> same_config st st'"

abbreviation alike :: "(app_state \<times> 'r prog) option \<Rightarrow> (app_state \<times> 'r prog) option \<Rightarrow> bool" where
  "alike \<equiv> rel_option (rel_prod same_view (=))"

text \<open>
  The gaps that a program may still have, each at most once on a path; \<open>None\<close> is the wait for a key. Its
  sections do the same in states with the same view.
\<close>

inductive paced :: "nat option set \<Rightarrow> 'r prog \<Rightarrow> bool" where
  Return: "paced V (Return r)"
| Section: "\<lbrakk> Some i \<in> V; \<And>st st'. same_view st st' \<Longrightarrow> alike (f st) (f st');
     \<And>st st' p. f st = Some (st', p) \<Longrightarrow> paced (V - {Some i}) p \<rbrakk> \<Longrightarrow> paced V (Section (Some i) pl h f)"
| WaitLoop: "\<lbrakk> None \<in> V; \<And>w st st'. same_view st st' \<Longrightarrow> alike (f w st) (f w st');
     \<And>w st st' p. f w st = Some (st', p) \<Longrightarrow> paced (V - {None}) p \<rbrakk> \<Longrightarrow> paced V (WaitLoop f)"

inductive_cases paced_SectionE: "paced V (Section i pl h f)"
inductive_cases paced_WaitLoopE: "paced V (WaitLoop f)"

declare paced.Return [intro, simp]

definition starts :: "nat option set \<Rightarrow> 'r prog \<Rightarrow> bool" where
  "starts V p \<longleftrightarrow> (\<exists>pl h f. p = Section None pl h f \<and> (\<forall>st st' q. f st = Some (st', q) \<longrightarrow> paced V q))"

text \<open>A program of a request returns at once, or starts with a section before which there is no gap.\<close>

definition begins :: "nat option set \<Rightarrow> 'r prog \<Rightarrow> bool" where
  "begins V p \<longleftrightarrow> (\<exists>r. p = Return r) \<or> starts V p"

definition all_gaps :: "nat option set" where
  "all_gaps = insert None (Some ` {0..9})"

lemma begins_Return: "begins V (Return r)"
  by (simp add: begins_def)

lemma same_view_refl [simp]: "same_view st st"
  by (simp add: same_view_def)

lemma same_view_update [simp]:
  "same_view st st' \<Longrightarrow> same_view (set_db d st) (set_db d st')"
  "same_view st st' \<Longrightarrow> same_view (st\<lparr>app_kg := s\<rparr>) (st'\<lparr>app_kg := s\<rparr>)"
  "same_view st st' \<Longrightarrow> same_view (release_permit st) (release_permit st')"
  by (auto simp: same_view_def same_config_def set_db_def release_permit_def)

lemma same_viewD:
  assumes "same_view st st'"
  shows "app_kg st' = app_kg st" and "app_kek st' = app_kek st" and "app_rate_limiter st' = app_rate_limiter st"
    and "auto_create_keys st' = auto_create_keys st" and "app_key_bits st' = app_key_bits st"
  using assms by (simp_all add: same_view_def same_config_def)

lemma paced_mono:
  assumes "paced V p" and "V \<subseteq> W"
  shows "paced W p"
  using assms
proof (induction arbitrary: W)
  case (Section i V f pl h)
  have "paced (W - {Some i}) p" if "f st = Some (st', p)" for st st' p
    using Section.IH [OF that, of "W - {Some i}"] Section.prems by blast
  with Section.hyps Section.prems show ?case
    by (intro paced.Section) auto
next
  case (WaitLoop V f)
  have "paced (W - {None}) p" if "f w st = Some (st', p)" for w st st' p
    using WaitLoop.IH [OF that, of "W - {None}"] WaitLoop.prems by blast
  with WaitLoop.hyps WaitLoop.prems show ?case
    by (intro paced.WaitLoop) auto
qed simp

lemma alike_bind: "alike x y \<Longrightarrow> alike (map_option (map_prod id F) x) (map_option (map_prod id F) y)"
  by (cases x; cases y) (auto simp: rel_prod_conv split: prod.splits)

lemma paced_bind:
  assumes "paced V p" and "\<And>r. paced W (k r)" and "V \<inter> W = {}"
  shows "paced (V \<union> W) (bind_prog p k)"
  using assms(1,3)
proof (induction)
  case (Return V r)
  show ?case using paced_mono [OF assms(2)] by simp
next
  case (Section i V f pl h)
  have "(V \<union> W) - {Some i} = (V - {Some i}) \<union> W" "(V - {Some i}) \<inter> W = {}"
    using Section.hyps(1) Section.prems by blast+
  with Section.IH have "paced ((V \<union> W) - {Some i}) (bind_prog p k)" if "f st = Some (st', p)" for st st' p
    using that by metis
  with Section.hyps show ?case
    unfolding bind_prog.simps by (intro paced.Section) (auto intro!: alike_bind)
next
  case (WaitLoop V f)
  have "(V \<union> W) - {None} = (V - {None}) \<union> W" "(V - {None}) \<inter> W = {}"
    using WaitLoop.hyps(1) WaitLoop.prems by blast+
  with WaitLoop.IH have "paced ((V \<union> W) - {None}) (bind_prog p k)" if "f w st = Some (st', p)" for w st st' p
    using that by metis
  with WaitLoop.hyps show ?case
    unfolding bind_prog.simps by (intro paced.WaitLoop) (auto intro!: alike_bind)
qed

lemma starts_bind:
  assumes "starts V p" and "\<And>r. paced W (k r)" and "V \<inter> W = {}"
  shows "starts (V \<union> W) (bind_prog p k)"
  using assms by (auto simp: starts_def intro!: paced_bind)

lemma starts_mono: "starts V p \<Longrightarrow> V \<subseteq> W \<Longrightarrow> starts W p"
  by (auto simp: starts_def intro!: paced_mono [of V _ W])

text \<open>A section that reads the view only.\<close>

lemma paced_read:
  assumes "Some i \<in> V" and "\<And>st st'. same_view st st' \<Longrightarrow> k st' = k st" and "\<And>st. paced (V - {Some i}) (k st)"
  shows "paced V (Section (Some i) pl h (\<lambda>st. Some (st, k st)))"
  by (rule paced.Section) (use assms in auto)

subsection \<open>The gaps of the programs\<close>

lemma starts_ensure: "starts {Some locked} (ensure_prog None locked engs g)"
  and paced_ensure: "i \<noteq> locked \<Longrightarrow> paced {Some i, Some locked} (ensure_prog (Some i) locked engs g)"
proof -
  have p: "paced V (Section (Some locked) Inline False (\<lambda>st.
      let (r, s) = ensure_locked (engs 1) (app_kg st) g in Some (st\<lparr>app_kg := s\<rparr>, Return r)))"
    if "Some locked \<in> V" for V
    using that by (intro paced.Section) (auto simp: Let_def same_viewD split: prod.splits)
  then show "starts {Some locked} (ensure_prog None locked engs g)"
    by (auto simp: starts_def ensure_prog_def split: sum.split option.split)
  show "paced {Some i, Some locked} (ensure_prog (Some i) locked engs g)" if "i \<noteq> locked"
    unfolding ensure_prog_def using p that
    by (intro paced_read) (auto simp: same_viewD split: sum.split option.split)
qed

lemma paced_status: "Some 2 \<in> V \<Longrightarrow> paced V (snd (status_section eng g st))"
  by (auto simp: status_section_def intro!: paced_read simp: same_viewD split: sum.split option.split)

lemma status_alike:
  assumes "same_view st st'"
  shows "rel_prod same_view (=) (status_section eng g st) (status_section eng g st')"
  using assms by (simp add: status_section_def same_viewD [OF assms])

lemma paced_wait_loop: "paced {None, Some 2} (wait_loop_prog eng g rx)"
  unfolding wait_loop_prog_def
proof (rule paced.WaitLoop)
  fix w st st'
  assume v: "same_view st st'"
  show "alike
     (case w of OnDeadline \<Rightarrow> Some (st, Return (Ok Pending))
      | OnChanged \<Rightarrow> (case channels (app_kg st) rx of Ready \<Rightarrow> Some (st, Return (Ok Ready))
           | Failed e \<Rightarrow> Some (st, Return (Ok (Failed e))) | Pending \<Rightarrow> None)
      | OnDropped \<Rightarrow> Some (status_section eng g st))
     (case w of OnDeadline \<Rightarrow> Some (st', Return (Ok Pending))
      | OnChanged \<Rightarrow> (case channels (app_kg st') rx of Ready \<Rightarrow> Some (st', Return (Ok Ready))
           | Failed e \<Rightarrow> Some (st', Return (Ok (Failed e))) | Pending \<Rightarrow> None)
      | OnDropped \<Rightarrow> Some (status_section eng g st'))"
    using v status_alike [OF v, of eng g]
    by (simp add: same_viewD [OF v] split: wake_kind.split keygen_status.split)
next
  fix w st st' p
  assume "(case w of OnDeadline \<Rightarrow> Some (st, Return (Ok Pending))
     | OnChanged \<Rightarrow> (case channels (app_kg st) rx of Ready \<Rightarrow> Some (st, Return (Ok Ready))
          | Failed e \<Rightarrow> Some (st, Return (Ok (Failed e))) | Pending \<Rightarrow> None)
     | OnDropped \<Rightarrow> Some (status_section eng g st)) = Some (st', p)"
  then have "p = snd (status_section eng g st) \<or> (\<exists>r. p = Return r)"
    by (auto split: wake_kind.splits keygen_status.splits)
  then show "paced ({None, Some 2} - {None}) p"
    using paced_status by auto
qed simp

lemma starts_wait_ready: "starts {Some 0, Some 1, Some 9, None, Some 2} (wait_ready_prog engs g)"
proof -
  let ?status = "Section (Some 9) Inline False (\<lambda>st. Some (status_section (engs 2) g st))"
  have "paced {Some 9, Some 2} ?status"
    by (rule paced.Section) (auto simp: status_alike intro!: paced_status dest!: arg_cong [of _ _ snd])
  note status = paced_mono [OF this]
  note loop = paced_mono [OF paced_wait_loop]
  have "paced {Some 1, Some 9, None, Some 2} (Section (Some 1) Inline False (\<lambda>st. Some (st,
      case inflight (app_kg st) g of
      Some rx \<Rightarrow> (case channels (app_kg st) rx of Ready \<Rightarrow> Return (Ok Ready) | Failed e \<Rightarrow> Return (Ok (Failed e))
          | Pending \<Rightarrow> wait_loop_prog (engs 2) g rx)
      | None \<Rightarrow> ?status)))"
    by (rule paced_read)
      (auto simp: same_viewD intro!: status loop split: option.split keygen_status.split)
  then have "starts ({Some 0} \<union> {Some 1, Some 9, None, Some 2}) (wait_ready_prog engs g)"
    unfolding wait_ready_prog_def
    by (intro starts_bind starts_ensure) (auto split: sum.split keygen_status.split)
  then show ?thesis by (rule starts_mono) blast
qed

lemma paced_await_rotation: "Some 2 \<in> V \<Longrightarrow> paced V (await_rotation r)"
  unfolding await_rotation_def by (rule paced.Section) auto

lemma paced_rotate: "paced {Some 0, Some 1, Some 2} (rotate_prog L K join g)"
proof -
  have "paced ({Some 0, Some 1, Some 2} - {Some 0}) (Section (Some 1) Pool True (\<lambda>st. Some (case join of
      Some e \<Rightarrow> (st, await_rotation (Err (''rotate task join error: '' @ e)))
    | None \<Rightarrow> let (r, d) = rotate_key L K (app_db st) (kg_kek (app_kg st)) g (kg_bits (app_kg st))
        in (set_db d st, await_rotation r))))"
    by (rule paced.Section)
      (auto simp: same_viewD Let_def intro!: paced_await_rotation split: option.splits prod.splits)
  then show ?thesis
    unfolding rotate_prog_def by (intro paced.Section) (auto simp: same_viewD split: if_splits)
qed

fun pc_gaps :: "sign_pc \<Rightarrow> nat option set" where
  "pc_gaps CountGlobal = {Some 3, Some 4, Some 5, Some 6, Some 8, Some 7}"
| "pc_gaps CountParticipant = {Some 4, Some 5, Some 6, Some 8, Some 7}"
| "pc_gaps Reserve = {Some 5, Some 6, Some 8, Some 7}"
| "pc_gaps (Load _) = {Some 6, Some 8, Some 7}"
| "pc_gaps (Create _) = {Some 8, Some 7}"
| "pc_gaps (Undo _ _) = {Some 7}"
| "pc_gaps _ = {}"

lemma pc_gap_in: "pc_result pc = None \<Longrightarrow> Some (pc_gap pc) \<in> pc_gaps pc"
  by (cases pc) simp_all

lemma gaps_after: "pc_gaps (after_sign L i r) \<subseteq> {Some 7}"
  by (cases r) (simp_all add: after_sign_def)

lemma sign_step_gaps:
  assumes "sign_step L E req bl pc st = (pc', st')" and "pc_result pc = None"
  shows "pc_gaps pc' \<subseteq> pc_gaps pc - {Some (pc_gap pc)}"
    and "pc = CountGlobal \<Longrightarrow> pc' = CountParticipant \<or> pc_gaps pc' = {}"
proof -
  show "pc_gaps pc' \<subseteq> pc_gaps pc - {Some (pc_gap pc)}"
    using assms gaps_after [of L]
    by (cases pc) (auto simp: sign_step_def Let_def dest!: subsetD
        split: sum.splits if_splits prod.splits option.splits reservation.splits)
  show "pc' = CountParticipant \<or> pc_gaps pc' = {}" if "pc = CountGlobal"
    using that assms(1) by (auto simp: sign_step_def split: sum.splits if_splits)
qed

lemma sign_step_alike:
  assumes "same_view st st'"
  shows "fst (sign_step L E req bl pc st') = fst (sign_step L E req bl pc st)"
    and "same_view (snd (sign_step L E req bl pc st)) (snd (sign_step L E req bl pc st'))"
  using assms by (cases pc;
      auto simp: sign_step_def sign_since_def roll_back_def Let_def same_viewD [OF assms]
      split: prod.split sum.split reservation.split)+

lemma paced_sign_pool: "paced (pc_gaps pc) (sign_pool L E req bl pc)"
proof (induction pc rule: measure_induct_rule [of pc_rank])
  case (less pc)
  show ?case
  proof (cases "pc_result pc")
    case (Some r)
    then show ?thesis by (subst sign_pool.simps) simp
  next
    case None
    let ?k = "\<lambda>pc'. if pc = CountGlobal \<and> pc' \<noteq> CountParticipant
       then Section (Some 4) Await False (\<lambda>st. Some (st, sign_pool L E req bl pc'))
       else sign_pool L E req bl pc'"
    let ?f = "\<lambda>st. Some (snd (sign_step L E req bl pc st), ?k (fst (sign_step L E req bl pc st)))"
    have next_pc: "paced (pc_gaps pc - {Some (pc_gap pc)}) (?k pc')"
      if s: "sign_step L E req bl pc st = (pc', st')" for st pc' st'
      using sign_step_gaps [OF s None] paced_mono [OF less [OF sign_step_rank [OF s None]]]
      by (auto intro!: paced_read)
    have "paced (pc_gaps pc) (Section (Some (pc_gap pc)) Pool False ?f)"
    proof (rule paced.Section [OF pc_gap_in [OF None]])
      show "alike (?f st) (?f st')" if "same_view st st'" for st st'
        unfolding sign_step_alike(1) [OF that, of L E req bl pc]
        using sign_step_alike(2) [OF that, of L E req bl pc] by (simp del: if_split)
      show "paced (pc_gaps pc - {Some (pc_gap pc)}) p" if "?f st = Some (st', p)" for st st' p
        using next_pc [OF prod.collapse [symmetric], of st] that by (simp del: if_split)
    qed
    then show ?thesis
      by (subst sign_pool.simps) (simp add: None Let_def case_prod_unfold del: if_split)
  qed
qed

lemma begins_sign: "begins all_gaps (sign_prog L E st i req)"
proof -
  have ready: "starts {Some 0, Some 1, Some 9, None, Some 2} (sign_ready_prog E st g)" for g
  proof (cases "auto_create_keys st")
    case True
    have "starts ({Some 0, Some 1, Some 9, None, Some 2} \<union> {}) (bind_prog (wait_ready_prog (rq_engine E) g)
        (\<lambda>r. Return (k r)))" for k
      by (intro starts_bind starts_wait_ready) auto
    with True show ?thesis by (simp add: sign_ready_prog_def)
  qed (auto simp: sign_ready_prog_def starts_def)
  have "starts ({Some 0, Some 1, Some 9, None, Some 2} \<union> pc_gaps CountGlobal)
      (bind_prog (sign_ready_prog E st g) (\<lambda>r. case r of Err e \<Rightarrow> Return (Err e)
        | Ok _ \<Rightarrow> (case rq_join E of
             Some e \<Rightarrow> Section (Some 3) Pool False (\<lambda>st. Some (st, Return (Err (Internal (''join error: '' @ e)))))
           | None \<Rightarrow> sign_pool L E req bl CountGlobal)))" for g bl
    by (intro starts_bind ready)
      (auto intro!: paced_read paced_mono [OF paced_sign_pool] split: sum.split option.split)
  from starts_mono [OF this] show ?thesis
    by (auto simp: sign_prog_def begins_def all_gaps_def split: sum.split)
qed

lemma starts_gate:
  assumes "paced V p"
  shows "starts V (key_gate_prog E i g p)"
  using assms by (auto simp: key_gate_prog_def starts_def split: prod.splits sum.splits)

lemma paced_ensure_answer: "paced {Some 0, Some 1, Some 2} (ensure_answer_prog L E g)"
proof -
  have "paced ({Some 0, Some 1} \<union> {Some 2}) (ensure_answer_prog L E g)"
    unfolding ensure_answer_prog_def
    by (intro paced_bind paced_ensure) (auto intro!: paced_read simp: same_viewD split: sum.split keygen_status.split)
  then show ?thesis by (rule paced_mono) blast
qed

lemma begins_keys: "begins all_gaps (get_key_prog L E i g)" "begins all_gaps (create_key_prog L E i g)"
proof -
  have answer: "paced (all_gaps - {Some 4}) (ensure_answer_prog L E g)"
    by (rule paced_mono [OF paced_ensure_answer]) (auto simp: all_gaps_def)
  moreover have "Some 4 \<in> all_gaps"
    by (simp add: all_gaps_def)
  ultimately have "starts all_gaps (get_key_prog L E i g)"
    unfolding get_key_prog_def
    by (intro starts_gate paced_read) (auto simp: same_viewD split: sum.split option.split)
  then show "begins all_gaps (get_key_prog L E i g)" by (simp add: begins_def)
  have "starts all_gaps (create_key_prog L E i g)"
    unfolding create_key_prog_def
    by (intro starts_gate paced_mono [OF paced_ensure_answer]) (auto simp: all_gaps_def)
  then show "begins all_gaps (create_key_prog L E i g)" by (simp add: begins_def)
qed

lemma begins_rotate: "begins all_gaps (rotate_key_prog L E i g)"
proof -
  let ?k = "\<lambda>r. case r of Err e \<Rightarrow> Return (Err (Internal e))
      | Ok spki \<Rightarrow> Section (Some 3) Inline False (\<lambda>st. Some (st, Return
          (case kg_active_key (rq_engine E 0) (app_kg st) g of Err e \<Rightarrow> Err (Internal e)
           | Ok None \<Rightarrow> Err (Internal ''key vanished after rotate'')
           | Ok (Some (key_id, _)) \<Rightarrow> Ok (key_response_ready L g spki key_id))))"
  have "paced ({Some 0, Some 1, Some 2} \<union> {Some 3}) (bind_prog (rotate_prog L (rq_key E) (rq_join E) g) ?k)"
    by (intro paced_bind paced_rotate) (auto intro!: paced_read simp: same_viewD split: sum.split)
  from paced_mono [OF this, of all_gaps] show ?thesis
    by (auto simp: rotate_key_prog_def begins_def starts_def all_gaps_def split: sum.splits prod.splits)
qed

lemma starts_gated:
  assumes "\<And>prf. paced V (body prf)"
  shows "starts V (gated_prog E i body)"
  using assms by (auto simp: gated_prog_def starts_def split: prod.splits sum.splits)

lemma paced_run_db: "Some 0 \<in> V \<Longrightarrow> paced V (bind_prog (run_db_prog E f) (\<lambda>r. Return (k r)))"
proof -
  assume "Some 0 \<in> V"
  have "paced {Some 0} (run_db_prog E f)"
    unfolding run_db_prog_def
    by (rule paced.Section) (auto simp: same_viewD Let_def split: option.splits prod.splits)
  then have "paced ({Some 0} \<union> {}) (bind_prog (run_db_prog E f) (\<lambda>r. Return (k r)))"
    by (rule paced_bind) auto
  with \<open>Some 0 \<in> V\<close> show ?thesis
    by (auto intro: paced_mono)
qed

lemma starts_prf:
  "starts {Some 0} (one_section h)" "starts {Some 0} (disclose_prog L E i dq)" "starts {Some 0} (register_prog L E i rq)"
  "starts {Some 0} (release_prog L E i lq)" "starts {Some 0} (reassign_prog L E i aq)"
proof -
  show "starts {Some 0} (one_section h)"
    by (auto simp: one_section_def starts_def Let_def split: prod.splits)
qed (auto simp: disclose_prog_def register_prog_def release_prog_def reassign_prog_def
    intro!: starts_gated paced_run_db split: sum.split)

lemma begins_reply: "begins V p \<Longrightarrow> begins V (bind_prog p (\<lambda>r. Return (k r)))"
  using starts_bind [of V p "{}" "\<lambda>r. Return (k r)"] by (auto simp: begins_def)

lemma begins_handle: "begins all_gaps (handle_prog L E st req)"
proof -
  have simple: "begins all_gaps p" if "starts {Some 0} p" for p :: "'a prog"
    using starts_mono [OF that] by (auto simp: begins_def all_gaps_def)
  note programs = begins_sign begins_keys begins_rotate starts_prf [THEN simple]
  have "begins all_gaps (route_prog L E st i r q)" for i r q
    by (cases r; cases q) (auto simp: route_prog_def intro!: begins_reply programs begins_Return)
  then show ?thesis
    by (auto simp: handle_prog_def begins_Return split: sum.split route.split)
qed

subsection \<open>What a program depends on\<close>

text \<open>Surroundings that differ in what happens in the gaps only.\<close>

abbreviation with_gaps :: "req_env \<Rightarrow> (nat \<Rightarrow> kg_state \<Rightarrow> kg_state) \<Rightarrow> wake list \<Rightarrow> req_env" where
  "with_gaps E other wakes \<equiv> E\<lparr>rq_other := other, rq_wakes := wakes\<rparr>"

lemma sign_step_base: "sign_step L (with_gaps E ot w) req bl pc st = sign_step L E req bl pc st"
  by (cases pc) (simp_all add: sign_step_def sign_since_def roll_back_def)

lemma sign_pool_base: "sign_pool L (with_gaps E ot w) req bl pc = sign_pool L E req bl pc"
proof (induction pc rule: measure_induct_rule [of pc_rank])
  case (less pc)
  show ?case
  proof (cases "pc_result pc")
    case None
    have "(let (pc', st') = sign_step L (with_gaps E ot w) req bl pc st in Some (st',
          if pc = CountGlobal \<and> pc' \<noteq> CountParticipant
          then Section (Some 4) Await False (\<lambda>st. Some (st, sign_pool L (with_gaps E ot w) req bl pc'))
          else sign_pool L (with_gaps E ot w) req bl pc')) =
        (let (pc', st') = sign_step L E req bl pc st in Some (st',
          if pc = CountGlobal \<and> pc' \<noteq> CountParticipant
          then Section (Some 4) Await False (\<lambda>st. Some (st, sign_pool L E req bl pc'))
          else sign_pool L E req bl pc'))" for st
    proof (cases "sign_step L E req bl pc st")
      case (Pair pc' st')
      with less [OF sign_step_rank [OF Pair None]] show ?thesis
        by (simp add: sign_step_base)
    qed
    then show ?thesis
      by (subst (1 2) sign_pool.simps) (simp add: None)
  qed (subst (1 2) sign_pool.simps, simp)
qed

lemma with_gaps_sel:
  "rq_engine (with_gaps E ot w) = rq_engine E" "rq_clock (with_gaps E ot w) = rq_clock E"
  "rq_lo (with_gaps E ot w) = rq_lo E" "rq_instant (with_gaps E ot w) = rq_instant E"
  "rq_key (with_gaps E ot w) = rq_key E" "rq_join (with_gaps E ot w) = rq_join E"
  "rq_rng (with_gaps E ot w) = rq_rng E" "rq_voprf (with_gaps E ot w) = rq_voprf E"
  by simp_all

lemma gate_base:
  "key_gate (with_gaps E ot w) = key_gate E" "check_key_rate_limit (with_gaps E ot w) = check_key_rate_limit E"
  "require_prf (with_gaps E ot w) = require_prf E"
  by (unfold key_gate_def check_key_rate_limit_def require_prf_def with_gaps_sel, (rule refl)+)

lemma endpoint_base:
  "sign_prog L (with_gaps E ot w) st i req = sign_prog L E st i req"
  "get_key_prog L (with_gaps E ot w) i g = get_key_prog L E i g"
  "create_key_prog L (with_gaps E ot w) i g = create_key_prog L E i g"
  "rotate_key_prog L (with_gaps E ot w) i g = rotate_key_prog L E i g"
  by (unfold sign_prog_def sign_ready_prog_def sign_pool_base get_key_prog_def create_key_prog_def
      rotate_key_prog_def key_gate_prog_def ensure_answer_prog_def with_gaps_sel gate_base, (rule refl)+)

lemma prf_base:
  "prf_pairwise L (with_gaps E ot w) st i s = prf_pairwise L E st i s"
  "prf_evaluate L (with_gaps E ot w) st i s = prf_evaluate L E st i s"
  "prf_public_key L (with_gaps E ot w) st i u = prf_public_key L E st i u"
  "disclose_prog L (with_gaps E ot w) i dq = disclose_prog L E i dq"
  "register_prog L (with_gaps E ot w) i rq = register_prog L E i rq"
  "release_prog L (with_gaps E ot w) i lq = release_prog L E i lq"
  "reassign_prog L (with_gaps E ot w) i aq = reassign_prog L E i aq"
  by (unfold prf_pairwise_def prf_evaluate_def prf_public_key_def gated_def disclose_prog_def register_prog_def
      release_prog_def reassign_prog_def gated_prog_def run_db_prog_def with_gaps_sel gate_base, (rule refl)+)

lemma handle_prog_base: "handle_prog L (with_gaps E ot w) st req = handle_prog L E st req"
  by (unfold handle_prog_def route_prog_def endpoint_base prf_base, rule refl)

lemma handle_prog_config:
  assumes "same_config st st'"
  shows "handle_prog L E st' req = handle_prog L E st req"
proof -
  have "router st' = router st" "auto_create_keys st' = auto_create_keys st"
    using assms by (auto simp: router_def same_config_def)
  then show ?thesis
    unfolding handle_prog_def route_prog_def sign_prog_def sign_ready_prog_def by (simp only:)
qed

subsection \<open>A request under way\<close>

text \<open>The surroundings agree on the gaps that are behind: all but those in \<open>V\<close>.\<close>

definition agree_off :: "nat option set \<Rightarrow> req_env \<Rightarrow> req_env \<Rightarrow> bool" where
  "agree_off V E E' \<longleftrightarrow> (\<exists>ot w. E' = with_gaps E ot w) \<and>
     (\<forall>i. Some i \<notin> V \<longrightarrow> rq_other E' i = rq_other E i) \<and> (None \<notin> V \<longrightarrow> rq_wakes E' = rq_wakes E)"

text \<open>
  A thread has not started, or there are surroundings in which its handler, started in an earlier state
  of the service, has come as far as the thread has: to the same program, in a state \<open>st1\<close> from
  which the others have led to the present one. \<open>P\<close> is what is known of the states of the run.
\<close>

definition started :: "(app_state \<Rightarrow> bool) \<Rightarrow> libs \<Rightarrow> app_state \<Rightarrow> thread \<Rightarrow> req_env \<Rightarrow> nat option set \<Rightarrow> app_state \<Rightarrow> app_state \<Rightarrow> bool" where
  "started P L st t E V sta st1 \<longleftrightarrow> (\<exists>ot w. E = with_gaps (sv_env t) ot w) \<and> env_within develops E \<and>
     P sta \<and> same_config st1 st \<and> dev st1 st \<and> paced V (sv_prog t) \<and>
     (\<forall>E'. agree_off V E E' \<longrightarrow> exec E' (handle_prog L E' sta (sv_req t)) sta = exec E' (sv_prog t) st1)"

definition under_way :: "(app_state \<Rightarrow> bool) \<Rightarrow> libs \<Rightarrow> app_state \<Rightarrow> thread \<Rightarrow> bool" where
  "under_way P L st t \<longleftrightarrow> sv_prog t = handle_prog L (sv_env t) st (sv_req t) \<or> (\<exists>E V sta st1. started P L st t E V sta st1)"

lemma agree_off_refl: "agree_off V E E"
proof -
  have "E = with_gaps E (rq_other E) (rq_wakes E)"
    by simp
  then show ?thesis
    unfolding agree_off_def by blast
qed

lemma env_within_gaps:
  assumes "\<And>i s. R s (ot i s)" and "\<forall>w \<in> set ws. \<forall>s. R s (wake_effect w s)"
  shows "env_within R (with_gaps E ot ws)"
  using assms by (simp add: env_within_def)

text \<open>The effect in one gap: from the state in which the thread stopped to the one in which it goes on.\<close>

definition jump :: "kg_state \<Rightarrow> kg_state \<Rightarrow> kg_state \<Rightarrow> kg_state" where
  "jump a b s = (if s = a then b else s)"

lemma jump_develops: "develops a b \<Longrightarrow> develops s (jump a b s)"
  by (simp add: jump_def dv.stay)

lemma jump_here [simp]: "jump a b a = b"
  by (simp add: jump_def)

lemma under_way_later:
  assumes "under_way P L st t" and "dev st st'" and "same_config st st'"
  shows "under_way P L st' t"
proof (cases "sv_prog t = handle_prog L (sv_env t) st (sv_req t)")
  case True
  with handle_prog_config [OF assms(3)] show ?thesis by (simp add: under_way_def)
next
  case False
  with assms(1) obtain E V sta st1 where "started P L st t E V sta st1"
    by (auto simp: under_way_def)
  then have "started P L st' t E V sta st1"
    using assms(2,3) by (auto simp: started_def intro: dv.chain same_config_trans)
  then show ?thesis by (auto simp: under_way_def)
qed

lemma first_move:
  assumes "sv_prog t = handle_prog L (sv_env t) st (sv_req t)" and "moves gone (sv_prog t) st st' p" and "P st"
  shows "under_way P L st' (t\<lparr>sv_prog := p\<rparr>)"
proof -
  from assms(2) have "\<nexists>r. sv_prog t = Return r"
    by (auto elim: moves_ReturnE)
  with begins_handle [of L "sv_env t" st "sv_req t"] obtain pl h f where f: "sv_prog t = Section None pl h f"
    and paced: "\<And>st st' q. f st = Some (st', q) \<Longrightarrow> paced all_gaps q"
    by (auto simp: begins_def starts_def assms(1))
  then have step: "f st = Some (st', p)"
    using assms(2) by (auto elim: moves_SectionE)
  let ?E = "with_gaps (sv_env t) (\<lambda>_ s. s) []"
  have "exec E' (handle_prog L E' st (sv_req t)) st = exec E' p st'" if "agree_off all_gaps ?E E'" for E'
  proof -
    have "handle_prog L E' st (sv_req t) = Section None pl h f"
      using that f by (auto simp: agree_off_def handle_prog_base assms(1))
    with step show ?thesis by (simp add: exec_section)
  qed
  then have "started P L st' (t\<lparr>sv_prog := p\<rparr>) ?E all_gaps st st'"
    using assms(3) paced [OF step] by (auto simp: started_def dv.stay intro!: env_within_gaps)
  then show ?thesis
    by (auto simp: under_way_def)
qed

text \<open>A move after a gap, seen from where the thread stopped.\<close>

lemma alike_Some:
  assumes "alike x y" and "x = Some (st, p)"
  obtains st' where "y = Some (st', p)" and "same_view st st'"
  using assms by (cases y) auto

lemma section_again:
  assumes "started P L st t E V sta st1" and "sv_prog t = Section (Some i) pl h f" and "f st = Some (st', p)"
  shows "\<exists>E' V' st2. started P L st' (t\<lparr>sv_prog := p\<rparr>) E' V' sta st2"
proof -
  let ?o = "(rq_other E)(i := jump (app_kg st1) (app_kg st))"
  let ?E = "with_gaps E ?o (rq_wakes E)"
  from assms(1) obtain ot w where E: "E = with_gaps (sv_env t) ot w"
    by (auto simp: started_def)
  from assms(1,2) have i: "Some i \<in> V" and local: "\<And>st st'. same_view st st' \<Longrightarrow> alike (f st) (f st')"
    and paced: "paced (V - {Some i}) p"
    using assms(3) by (auto simp: started_def elim: paced_SectionE)
  let ?st = "st1\<lparr>app_kg := app_kg st\<rparr>"
  have "same_view st ?st"
    using assms(1) by (auto simp: started_def same_view_def same_config_def)
  from alike_Some [OF local [OF this] assms(3)] obtain st2 where st2: "f ?st = Some (st2, p)" "same_view st' st2"
    by blast
  have "exec E' (handle_prog L E' sta (sv_req t)) sta = exec E' p st2" if a: "agree_off (V - {Some i}) ?E E'" for E'
  proof -
    have "agree_off V E E'"
      using a i by (auto simp: agree_off_def)
    then have "exec E' (handle_prog L E' sta (sv_req t)) sta = exec E' (sv_prog t) st1"
      using assms(1) by (simp add: started_def)
    moreover have "rq_other E' i = jump (app_kg st1) (app_kg st)"
      using a by (auto simp: agree_off_def)
    ultimately show ?thesis
      using st2(1) by (simp add: assms(2) exec_section interfere_def)
  qed
  moreover have "env_within develops ?E"
    using assms(1) by (auto simp: started_def env_within_def intro: jump_develops)
  moreover have "\<exists>ot w. ?E = with_gaps (sv_env t) ot w"
    unfolding E by auto
  moreover have "same_config st2 st'" "dev st2 st'"
    using st2(2) by (simp_all add: same_view_def same_config_def dv.stay)
  ultimately have "started P L st' (t\<lparr>sv_prog := p\<rparr>) ?E (V - {Some i}) sta st2"
    using assms(1) paced by (simp add: started_def)
  then show ?thesis by blast
qed

fun wake_of :: "wake_kind \<Rightarrow> (kg_state \<Rightarrow> kg_state) \<Rightarrow> wake" where
  "wake_of OnDeadline = Deadline"
| "wake_of OnChanged = Changed"
| "wake_of OnDropped = SenderDropped"

lemma wake_of_simps [simp]: "wake_kind_of (wake_of w e) = w" "wake_effect (wake_of w e) = e"
  by (cases w; simp)+

lemma wake_again:
  assumes "started P L st t E V sta st1" and "sv_prog t = WaitLoop f" and "f w st = Some (st', p)"
  shows "\<exists>E' V' st2. started P L st' (t\<lparr>sv_prog := p\<rparr>) E' V' sta st2"
proof -
  let ?w = "[wake_of w (jump (app_kg st1) (app_kg st))]"
  let ?E = "with_gaps E (rq_other E) ?w"
  from assms(1) obtain ot w' where E: "E = with_gaps (sv_env t) ot w'"
    by (auto simp: started_def)
  from assms(1,2) have i: "None \<in> V" and local: "\<And>w st st'. same_view st st' \<Longrightarrow> alike (f w st) (f w st')"
    and paced: "paced (V - {None}) p"
    using assms(3) by (auto simp: started_def elim: paced_WaitLoopE)
  let ?st = "st1\<lparr>app_kg := app_kg st\<rparr>"
  have "same_view st ?st"
    using assms(1) by (auto simp: started_def same_view_def same_config_def)
  from alike_Some [OF local [OF this] assms(3)] obtain st2 where st2: "f w ?st = Some (st2, p)" "same_view st' st2"
    by blast
  have "exec E' (handle_prog L E' sta (sv_req t)) sta = exec E' p st2" if a: "agree_off (V - {None}) ?E E'" for E'
  proof -
    have "agree_off V E E'"
      using a i by (auto simp: agree_off_def)
    then have "exec E' (handle_prog L E' sta (sv_req t)) sta = exec E' (sv_prog t) st1"
      using assms(1) by (simp add: started_def)
    moreover have "rq_wakes E' = ?w"
      using a by (auto simp: agree_off_def)
    ultimately show ?thesis
      using st2(1) by (simp add: assms(2) Let_def)
  qed
  moreover have "env_within develops ?E"
    using assms(1) by (auto simp: started_def env_within_def intro: jump_develops)
  moreover have "\<exists>ot w. ?E = with_gaps (sv_env t) ot w"
    unfolding E by auto
  moreover have "same_config st2 st'" "dev st2 st'"
    using st2(2) by (simp_all add: same_view_def same_config_def dv.stay)
  ultimately have "started P L st' (t\<lparr>sv_prog := p\<rparr>) ?E (V - {None}) sta st2"
    using assms(1) paced by (simp add: started_def)
  then show ?thesis by blast
qed

lemma under_way_moves:
  assumes "under_way P L st t" and "moves gone (sv_prog t) st st' p" and "P st"
  shows "under_way P L st' (t\<lparr>sv_prog := p\<rparr>)"
proof (cases "sv_prog t = handle_prog L (sv_env t) st (sv_req t)")
  case True
  then show ?thesis
    using assms(2,3) by (rule first_move)
next
  case False
  with assms(1) obtain E V sta st1 where s: "started P L st t E V sta st1"
    by (auto simp: under_way_def)
  then have "paced V (sv_prog t)"
    by (simp add: started_def)
  with assms(2) have "\<exists>E' V' st2. started P L st' (t\<lparr>sv_prog := p\<rparr>) E' V' sta st2"
  proof (cases "sv_prog t")
    case (Section i pl h f)
    with \<open>paced V (sv_prog t)\<close> obtain n where "i = Some n"
      by (auto elim: paced_SectionE)
    with s Section assms(2) show ?thesis
      by (auto intro: section_again elim: moves_SectionE)
  next
    case (WaitLoop f)
    with s assms(2) show ?thesis
      by (auto intro: wake_again elim!: moves_WaitLoopE)
  qed (auto elim: moves_ReturnE)
  then show ?thesis by (auto simp: under_way_def)
qed

lemma under_way_gone: "under_way P L st (t\<lparr>sv_gone := b\<rparr>) = under_way P L st t"
  by (simp add: under_way_def started_def)

subsection \<open>Every request of a run\<close>

definition all_under_way :: "(app_state \<Rightarrow> bool) \<Rightarrow> libs \<Rightarrow> service \<Rightarrow> bool" where
  "all_under_way P L x = (case x of (st, ts) \<Rightarrow> \<forall>t \<in> set ts. under_way P L st t)"

lemma step_under_way:
  assumes "service_step L A (st, ts) (st', ts')" and "all_under_way P L (st, ts)" and "running_inv cap (st, ts)"
    and "P st"
  shows "all_under_way P L (st', ts')"
proof -
  have inv: "server_inv st" "\<forall>t \<in> set ts. guar (sv_prog t)"
    using assms(3) by (simp_all add: running_inv_def)
  note dev = service_step_dev(1,2) [OF assms(1) inv(2)]
  have old: "under_way P L st' t" if "t \<in> set ts" for t
    using under_way_later [OF _ dev] assms(2) that by (simp add: all_under_way_def)
  show ?thesis
    using assms(1)
  proof (cases rule: service_step.cases)
    case (background s)
    with old show ?thesis by (simp add: all_under_way_def)
  next
    case (action a)
    from action(2) show ?thesis
    proof (cases rule: act_cases)
      case (arrived E req)
      with old show ?thesis by (auto simp: all_under_way_def under_way_def)
    next
      case (moved j p)
      have "under_way P L st (ts ! j)"
        using assms(2) moved(1) by (simp add: all_under_way_def)
      with moved(2) assms(4) have "under_way P L st' ((ts ! j)\<lparr>sv_prog := p\<rparr>)"
        using under_way_moves by blast
      with old show ?thesis
        unfolding moved(3) by (auto simp: all_under_way_def dest!: set_update_subset_insert [THEN subsetD])
    next
      case (dropped j)
      with old [of "ts ! j"] old show ?thesis
        by (auto simp: all_under_way_def under_way_gone dest!: set_update_subset_insert [THEN subsetD])
    qed
  qed
qed

lemma run_under_way:
  assumes "service_run L A x y" and "all_under_way P L x" and "running_inv cap x"
    and "\<And>st ts. service_run L A x (st, ts) \<Longrightarrow> service_run L A (st, ts) y \<Longrightarrow> P st"
  shows "all_under_way P L y"
proof -
  have "service_run L A z y \<Longrightarrow> all_under_way P L z" if "service_run L A x z" for z
    using that unfolding service_run_def
  proof (induction rule: rtranclp_induct)
    case base
    show ?case by (rule assms(2))
  next
    case (step w z)
    have w: "service_run L A x w" "service_run L A w y"
      using step.hyps step.prems by (auto simp: service_run_def)
    then have "running_inv cap w" "P (fst w)"
      using assms(3) service_run_inv assms(4) [of "fst w" "snd w"] by auto
    with step w(2) show ?case
      using step_under_way [of L A "fst w" "snd w" "fst z" "snd z" P cap] by (simp add: service_run_def)
  qed
  with assms(1) show ?thesis
    by (simp add: service_run_def)
qed

text \<open>The answer of a thread is an answer of its handler.\<close>

lemma answer_handled:
  assumes "under_way P L st t" and "sv_prog t = Return r" and "P st"
  shows "\<exists>E ot w sta st'. E = with_gaps (sv_env t) ot w \<and> env_within develops E \<and> P sta \<and>
    handle L E sta (sv_req t) = Some (r, st') \<and> dev st' st"
proof (cases "sv_prog t = handle_prog L (sv_env t) st (sv_req t)")
  case True
  let ?E = "with_gaps (sv_env t) (\<lambda>_ s. s) []"
  have "exec ?E (handle_prog L ?E st (sv_req t)) st = Some (r, st)"
    unfolding handle_prog_base True [symmetric] assms(2) by simp
  then have "handle L ?E st (sv_req t) = Some (r, st)"
    by (simp add: exec_handle)
  moreover have "env_within develops ?E"
    by (intro env_within_gaps) (simp_all add: dv.stay)
  ultimately show ?thesis
    using assms(3) dv.stay by blast
next
  case False
  with assms(1) obtain E V sta st1 where s: "started P L st t E V sta st1"
    by (auto simp: under_way_def)
  then have "exec E (handle_prog L E sta (sv_req t)) sta = Some (r, st1)"
    using agree_off_refl [of V E] assms(2) by (simp add: started_def)
  then have "handle L E sta (sv_req t) = Some (r, st1)"
    by (simp add: exec_handle)
  with s show ?thesis by (auto simp: started_def)
qed

end
