(* ===== verification/Issuance_Ceilings.thy ===== *)
theory Issuance_Ceilings
  imports Issuance_Concurrency
begin

text \<open>
  The ceilings under concurrency. A request is cleared by a count and recorded later, so that requests
  that overlap may exceed a ceiling; but each of them was cleared when fewer than the ceiling were
  recorded. If never more than \<open>K\<close> requests are between their first count and their reservation, a
  window holds fewer than the ceiling plus \<open>K\<close> issuances.
\<close>

fun cleared_pc :: "ceiling \<Rightarrow> sign_request \<Rightarrow> sign_pc \<Rightarrow> bool" where
  "cleared_pc Everyone req pc = (pc = CountParticipant \<or> pc = Reserve)"
| "cleared_pc (Identity p) req pc = (pc = Reserve \<and> sr_participant_id req = p)"

definition cleared :: "ceiling \<Rightarrow> sign_thread \<Rightarrow> bool" where
  "cleared k t \<longleftrightarrow> cleared_pc k (th_req t) (th_pc t)"

definition in_flight :: "sign_thread list \<Rightarrow> nat" where
  "in_flight ts = length (filter (cleared Everyone) ts)"

text \<open>Those that may still be recorded up to \<open>T\<close>.\<close>

definition due :: "ceiling \<Rightarrow> int \<Rightarrow> sign_thread \<Rightarrow> bool" where
  "due k T t \<longleftrightarrow> cleared k t \<and> now_secs (rq_clock (th_env t) 0) \<le> T"

definition pending :: "ceiling \<Rightarrow> int \<Rightarrow> sign_thread list \<Rightarrow> nat" where
  "pending k T ts = length (filter (due k T) ts)"

text \<open>The configured window, and how many issuances it holds.\<close>

definition window_len :: "app_state \<Rightarrow> int" where
  "window_len st = uint (window_secs (app_rate_limiter st)) + 1"

definition recorded :: "ceiling \<Rightarrow> int \<Rightarrow> app_state \<Rightarrow> nat" where
  "recorded k T st = in_window (window_len st) T (issue_times st k)"

definition clock_forward :: "req_env \<Rightarrow> bool" where
  "clock_forward E \<longleftrightarrow> rq_clock E 0 \<le> rq_clock E 1"

lemma now_secs_mono: "a \<le> b \<Longrightarrow> now_secs a \<le> now_secs b"
  by (auto simp: now_secs_def i64_max_def)

lemma cleared_flight: "cleared k t \<Longrightarrow> cleared Everyone t"
  by (cases k) (auto simp: cleared_def)

lemma pending_flight: "pending k T ts \<le> in_flight ts"
  unfolding pending_def in_flight_def
  by (induction ts) (auto simp: due_def dest: cleared_flight)

text \<open>Everything in a window that ends at the time of a count or later is counted.\<close>

lemma counted:
  assumes "uint (window_secs (app_rate_limiter st)) < 2 ^ 63" and "now_secs (rq_clock E 0) \<le> T"
  shows "in_window (window_len st) T (map is_issued_at rows) \<le>
    length (filter (\<lambda>r. sign_since E st \<le> is_issued_at r) rows)"
  using assms(2) unfolding in_window_def
  by (induction rows) (auto simp: sign_since_def window_start_exact [OF assms(1)] window_len_def)

lemma due_count:
  assumes "uint (window_secs (app_rate_limiter st)) < 2 ^ 63" and "now_secs (rq_clock E 0) \<le> T"
  shows "count_global_since eng (app_db st) (sign_since E st) = Ok n \<Longrightarrow>
      \<not> global_max (app_rate_limiter st) \<le> n \<Longrightarrow> recorded Everyone T st < issue_limit (app_rate_limiter st) Everyone"
    and "count_participant_since eng (app_db st) p (sign_since E st) = Ok n \<Longrightarrow>
      \<not> participant_max (app_rate_limiter st) \<le> n \<Longrightarrow>
      recorded (Identity p) T st < issue_limit (app_rate_limiter st) (Identity p)"
  using counted [OF assms, of "issuances (app_db st)"]
    counted [OF assms, of "filter (\<lambda>r. is_participant_id r = p) (issuances (app_db st))"]
  by (auto simp: count_global_since_def count_participant_since_def run_stmt_def rows_since_def recorded_def
      count_ge_iff conj_commute split: option.splits)

lemma recorded_cong:
  "issuances (app_db st') = issuances (app_db st) \<Longrightarrow> app_rate_limiter st' = app_rate_limiter st \<Longrightarrow>
     recorded k T st' = recorded k T st"
  by (cases k) (simp_all add: recorded_def window_len_def)

lemma in_window_filter: "in_window w T (map f (filter P rows)) \<le> in_window w T (map f rows)"
  unfolding in_window_def by (induction rows) auto

lemma recorded_less:
  assumes "issuances (app_db st') = filter P (issuances (app_db st))" and "app_rate_limiter st' = app_rate_limiter st"
  shows "recorded k T st' \<le> recorded k T st"
proof (cases k)
  case (Identity p)
  have "filter (\<lambda>r. is_participant_id r = p) (filter P rows) = filter P (filter (\<lambda>r. is_participant_id r = p) rows)" for rows
    by (induction rows) auto
  with assms Identity show ?thesis
    by (simp add: recorded_def window_len_def in_window_filter del: filter_filter)
qed (use assms in \<open>simp add: recorded_def window_len_def in_window_filter\<close>)

text \<open>
  One step of one thread: either what it holds and what is recorded does not grow in sum, or it has
  just been cleared, with room below the ceiling.
\<close>

definition holds :: "ceiling \<Rightarrow> int \<Rightarrow> req_env \<Rightarrow> sign_request \<Rightarrow> sign_pc \<Rightarrow> nat" where
  "holds k T E req pc = (if cleared_pc k req pc \<and> now_secs (rq_clock E 0) \<le> T then 1 else 0)"

lemma recorded_more:
  assumes "issuances (app_db st') = issuances (app_db st) @ [row]" and "app_rate_limiter st' = app_rate_limiter st"
    and "is_participant_id row = sr_participant_id req" and "is_issued_at row = now_secs (rq_clock E 1)"
    and "clock_forward E"
  shows "recorded k T st' \<le> recorded k T st + holds k T E req Reserve"
proof -
  have "now_secs (rq_clock E 0) \<le> now_secs (rq_clock E 1)"
    using assms(5) now_secs_mono by (simp add: clock_forward_def)
  then show ?thesis
    using assms(1-4) by (cases k) (auto simp: recorded_def window_len_def in_window_def holds_def)
qed

lemma sign_step_limiter:
  "sign_step L E req bl pc st = (pc', st') \<Longrightarrow> app_rate_limiter st' = app_rate_limiter st"
  by (cases pc) (auto simp: sign_step_def roll_back_def split: sum.splits prod.splits reservation.splits)

lemma holds_done [simp]:
  "holds k T E req (after_sign L i r) = 0"
  "holds k T E req (Create i) = 0"
  "holds k T E req (Denied e) = 0"
  by (cases r; cases k; simp add: holds_def after_sign_def) (cases k; simp add: holds_def)+

lemma roll_back_rows: "\<exists>P. issuances (app_db (roll_back E st i)) = filter P (issuances (app_db st))"
  by (cases "stmt_fault (rq_engine E 7) 0")
    (auto simp: roll_back_def delete_issuance_def run_stmt_def intro: exI [of _ "\<lambda>_. True"])

lemma count_global_room:
  assumes "sign_step L E req bl CountGlobal st = (pc', st')"
    and "uint (window_secs (app_rate_limiter st)) < 2 ^ 63"
  shows "recorded k T st' + holds k T E req pc' \<le> recorded k T st + holds k T E req CountGlobal \<or>
    recorded k T st' < issue_limit (app_rate_limiter st) k"
proof -
  from assms(1) have st': "st' = st"
    and pc: "pc' = CountParticipant \<and> (\<exists>n. count_global_since (rq_engine E 3) (app_db st) (sign_since E st) = Ok n \<and>
        \<not> global_max (app_rate_limiter st) \<le> n) \<or> (\<exists>e. pc' = Denied e)"
    by (auto simp: sign_step_def split: sum.splits if_splits)
  show ?thesis
    using pc due_count(1) [OF assms(2)] by (cases k) (auto simp: st' holds_def)
qed

lemma count_participant_room:
  assumes "sign_step L E req bl CountParticipant st = (pc', st')"
    and "uint (window_secs (app_rate_limiter st)) < 2 ^ 63"
  shows "recorded k T st' + holds k T E req pc' \<le> recorded k T st + holds k T E req CountParticipant \<or>
    recorded k T st' < issue_limit (app_rate_limiter st) k"
proof -
  from assms(1) have st': "st' = st"
    and pc: "pc' = Reserve \<and> (\<exists>n. count_participant_since (rq_engine E 4) (app_db st) (sr_participant_id req)
        (sign_since E st) = Ok n \<and> \<not> participant_max (app_rate_limiter st) \<le> n) \<or> (\<exists>e. pc' = Denied e)"
    by (auto simp: sign_step_def split: sum.splits if_splits)
  show ?thesis
    using pc due_count(2) [OF assms(2)] by (cases k) (auto simp: st' holds_def)
qed

lemma reserve_room:
  assumes "sign_step L E req bl Reserve st = (pc', st')" and "clock_forward E"
  shows "recorded k T st' + holds k T E req pc' \<le> recorded k T st + holds k T E req Reserve \<or>
    recorded k T st' < issue_limit (app_rate_limiter st) k"
proof -
  obtain r d where r: "reserve_issuance (rq_engine E 5) (rq_clock E 1) (app_db st) (sr_group_id req)
      (sr_participant_id req) (sr_version_id req) = (r, d)" (is "?c = _")
    by (cases ?c)
  show ?thesis
  proof (cases "\<exists>i. r = Ok (Reserved i)")
    case True
    then obtain i where i: "r = Ok (Reserved i)" by blast
    with assms(1) r have "pc' = Load i" "st' = set_db d st"
      by (simp_all add: sign_step_def)
    moreover have "recorded k T (set_db d st) \<le> recorded k T st + holds k T E req Reserve"
      using r unfolding i reserve_Reserved_iff
      by (intro recorded_more [OF _ _ _ _ assms(2)]) auto
    moreover have "holds k T E req (Load i) = 0"
      by (cases k) (simp_all add: holds_def)
    ultimately show ?thesis
      by simp
  next
    case False
    then have "d = app_db st"
      by (rule reserve_refused [OF r])
    with assms(1) r False have "st' = st \<and> (\<exists>e. pc' = Denied e)"
      by (auto simp: sign_step_def split: sum.splits reservation.splits)
    moreover have "holds k T E req (Denied e) = 0" for e
      by (cases k) (simp_all add: holds_def)
    ultimately show ?thesis by auto
  qed
qed

lemma sign_step_room:
  assumes "sign_step L E req bl pc st = (pc', st')" and "clock_forward E"
    and "uint (window_secs (app_rate_limiter st)) < 2 ^ 63"
  shows "recorded k T st' + holds k T E req pc' \<le> recorded k T st + holds k T E req pc \<or>
    recorded k T st' < issue_limit (app_rate_limiter st) k"
proof (cases pc)
  case CountGlobal
  with assms(1,3) show ?thesis by (simp add: count_global_room)
next
  case CountParticipant
  with assms(1,3) show ?thesis by (simp add: count_participant_room)
next
  case Reserve
  with assms(1,2) show ?thesis by (simp add: reserve_room)
next
  case (Load i)
  with assms(1) have "st' = st"
    by (auto simp: sign_step_def)
  moreover have "pc' = Create i \<or> (\<exists>r. pc' = after_sign L i r)"
    using assms(1) Load
    by (cases "load_key L (rq_engine E 6) (app_db st) (app_kek st) (sr_group_id req) (auto_create_keys st)")
      (auto simp: sign_step_def split: option.splits)
  ultimately show ?thesis by auto
next
  case (Create i)
  obtain c d where c: "create_key L (rq_key E) (app_db st) (app_kek st) (sr_group_id req) (app_key_bits st) = (c, d)"
    (is "?c = _")
    by (cases ?c)
  with assms(1) Create have "pc' = after_sign L i (sign_loaded L req bl c)" and "st' = set_db d st"
    by (simp_all add: sign_step_def)
  moreover have "recorded k T (set_db d st) = recorded k T st"
    using create_key_frame(1) [OF c] by (intro recorded_cong) simp_all
  ultimately show ?thesis by simp
next
  case (Undo i e)
  with assms(1) have pc: "pc' = Denied e" "st' = roll_back E st i"
    by simp_all
  obtain P where "issuances (app_db st') = filter P (issuances (app_db st))"
    using pc(2) roll_back_rows by metis
  from recorded_less [OF this sign_step_limiter [OF assms(1)]] pc(1) show ?thesis
    by (simp add: trans_le_add1)
qed (use assms in auto)

subsection \<open>Many threads\<close>

definition room :: "nat \<Rightarrow> ceiling \<Rightarrow> int \<Rightarrow> system \<Rightarrow> bool" where
  "room K k T s = (case s of (st, ts) \<Rightarrow> recorded k T st + pending k T ts < issue_limit (app_rate_limiter st) k + K)"

lemma due_holds: "(if due k T t then 1 else 0) = holds k T (th_env t) (th_req t) (th_pc t)"
  by (simp add: due_def cleared_def holds_def)

lemma pending_update:
  assumes "j < length ts"
  shows "pending k T (ts[j := t]) + holds k T (th_env (ts ! j)) (th_req (ts ! j)) (th_pc (ts ! j)) =
    pending k T ts + holds k T (th_env t) (th_req t) (th_pc t)"
proof -
  have split: "ts = take j ts @ ts ! j # drop (Suc j) ts"
    using assms by (rule id_take_nth_drop)
  have "ts[j := t] = take j ts @ t # drop (Suc j) ts"
    using assms by (rule upd_conv_take_nth_drop)
  then have "pending k T (ts[j := t]) = pending k T (take j ts) + pending k T [t] + pending k T (drop (Suc j) ts)"
    by (simp add: pending_def)
  moreover have "pending k T ts = pending k T (take j ts) + pending k T [ts ! j] + pending k T (drop (Suc j) ts)"
    by (subst (1) split) (simp add: pending_def)
  moreover have "pending k T [x] = holds k T (th_env x) (th_req x) (th_pc x)" for x
    using due_holds [of k T x] by (simp add: pending_def split: if_splits)
  ultimately show ?thesis by simp
qed

lemma sys_step_room:
  assumes "room K k T (st, ts)" and "sys_step L e (st, ts) = (st', ts')" and "in_flight ts' \<le> K"
    and "\<forall>t \<in> set ts. clock_forward (th_env t)" and "uint (window_secs (app_rate_limiter st)) < 2 ^ 63"
  shows "room K k T (st', ts') \<and> app_rate_limiter st' = app_rate_limiter st"
proof (cases e)
  case (Run j)
  show ?thesis
  proof (cases "j < length ts")
    case True
    let ?t = "ts ! j"
    obtain pc s where step: "sign_step L (th_env ?t) (th_req ?t) (th_blinded ?t) (th_pc ?t) st = (pc, s)" (is "?c = _")
      by (cases ?c)
    with assms(2) Run True have st': "st' = s" and ts': "ts' = ts[j := ?t\<lparr>th_pc := pc\<rparr>]"
      by simp_all
    have "clock_forward (th_env ?t)"
      using assms(4) True by simp
    from sign_step_room [OF step this assms(5), of k T] show ?thesis
      using assms(1) pending_update [OF True, of k T "?t\<lparr>th_pc := pc\<rparr>"] pending_flight [of k T ts'] assms(3)
        sign_step_limiter [OF step] unfolding st' ts' room_def by auto
  qed (use assms Run in \<open>simp add: room_def\<close>)
next
  case (Arrive E req bl)
  have "\<not> due k T \<lparr>th_env = E, th_req = req, th_blinded = bl, th_pc = CountGlobal\<rparr>"
    by (cases k) (simp_all add: due_def cleared_def)
  with assms(1,2) Arrive show ?thesis
    by (auto simp: room_def pending_def)
next
  case (Elsewhere d)
  with assms(1,2) recorded_cong [of "set_db d st" st k T] show ?thesis
    by (auto simp: room_def split: if_splits)
qed

text \<open>Schedules under which never more than \<open>K\<close> are past their count.\<close>

fun calm :: "nat \<Rightarrow> libs \<Rightarrow> event list \<Rightarrow> system \<Rightarrow> bool" where
  "calm K L [] s = True"
| "calm K L (e # es) s \<longleftrightarrow> in_flight (snd (sys_step L e s)) \<le> K \<and> calm K L es (sys_step L e s)"

lemma calm_append: "calm K L (es @ es') s \<longleftrightarrow> calm K L es s \<and> calm K L es' (run_schedule L es s)"
  by (induction es arbitrary: s) auto

definition forward_event :: "event \<Rightarrow> bool" where
  "forward_event e \<longleftrightarrow> (\<forall>E req bl. e = Arrive E req bl \<longrightarrow> clock_forward E)"

lemma sys_step_forward:
  assumes "\<forall>t \<in> set (snd s). clock_forward (th_env t)" and "forward_event e"
  shows "\<forall>t \<in> set (snd (sys_step L e s)). clock_forward (th_env t)"
proof (cases e)
  case (Run j)
  obtain st ts where s: "s = (st, ts)" by (cases s)
  show ?thesis
    using assms(1) unfolding Run s
    by (cases "j < length ts") (auto simp: Let_def case_prod_unfold dest!: set_update_subset_insert [THEN subsetD])
qed (use assms in \<open>cases s; auto simp: forward_event_def\<close>)+

lemma run_room:
  assumes "room K k T s" and "calm K L es s" and "\<forall>t \<in> set (snd s). clock_forward (th_env t)"
    and "\<forall>e \<in> set es. forward_event e" and "uint (window_secs (app_rate_limiter (fst s))) < 2 ^ 63"
  shows "room K k T (run_schedule L es s)"
  using assms
proof (induction es arbitrary: s)
  case (Cons e es)
  have "room K k T (sys_step L e s) \<and> app_rate_limiter (fst (sys_step L e s)) = app_rate_limiter (fst s)"
    using sys_step_room [of K k T "fst s" "snd s" L e "fst (sys_step L e s)" "snd (sys_step L e s)"] Cons.prems
    by simp
  moreover have "\<forall>t \<in> set (snd (sys_step L e s)). clock_forward (th_env t)"
    using Cons.prems(3,4) by (intro sys_step_forward) simp_all
  ultimately show ?case
    using Cons.IH [of "sys_step L e s"] Cons.prems(2,4,5) by simp
qed simp

end
