(* ===== verification/Service_Issuance.thy ===== *)
theory Service_Issuance
  imports Service_Runs Issuance_Ceilings
begin

text \<open>
  Issuance in the running service. Of all that requests and workers do, only the blocking part of \<open>/sign\<close>
  touches the issuance table, so that every run of the service is, for that table, a schedule of
  \<open>Issuance_Concurrency\<close>: what the schedules show holds of the service.
\<close>

subsection \<open>Programs that leave the issuance table alone\<close>

text \<open>Up to the points \<open>Q\<close>.\<close>

inductive quiet_to :: "('r prog \<Rightarrow> bool) \<Rightarrow> 'r prog \<Rightarrow> bool" for Q :: "'r prog \<Rightarrow> bool" where
  there: "Q p \<Longrightarrow> quiet_to Q p"
| Section: "(\<And>st st' p. f st = Some (st', p) \<Longrightarrow> same_rows st st' \<and> quiet_to Q p) \<Longrightarrow> quiet_to Q (Section i pl h f)"
| WaitLoop: "(\<And>w st st' p. f w st = Some (st', p) \<Longrightarrow> same_rows st st' \<and> quiet_to Q p) \<Longrightarrow> quiet_to Q (WaitLoop f)"

abbreviation silent :: "'r prog \<Rightarrow> bool" where
  "silent \<equiv> quiet_to (\<lambda>p. \<exists>r. p = Return r)"

lemma silent_Return [simp]: "silent (Return r)"
  by (rule quiet_to.there) blast

lemma quiet_bind:
  assumes "quiet_to Q p" and "\<And>q. Q q \<Longrightarrow> quiet_to Q' (bind_prog q k)"
  shows "quiet_to Q' (bind_prog p k)"
  using assms(1)
proof induction
  case (there p)
  then show ?case by (rule assms(2))
next
  case (Section f i pl h)
  then show ?case
    unfolding bind_prog.simps by (intro quiet_to.Section) auto
next
  case (WaitLoop f)
  then show ?case
    unfolding bind_prog.simps by (intro quiet_to.WaitLoop) auto
qed

lemma silent_bind: "silent p \<Longrightarrow> (\<And>r. quiet_to Q (k r)) \<Longrightarrow> quiet_to Q (bind_prog p k)"
  by (rule quiet_bind [of "\<lambda>p. \<exists>r. p = Return r"]) auto

lemma quiet_section:
  assumes "\<And>st. same_rows st (fst (F st)) \<and> quiet_to Q (snd (F st))"
  shows "quiet_to Q (Section i pl h (\<lambda>st. Some (F st)))"
proof (rule quiet_to.Section)
  fix st st' p
  assume "Some (F st) = Some (st', p)"
  then show "same_rows st st' \<and> quiet_to Q p"
    using assms [of st] by simp
qed

lemma quiet_read:
  assumes "\<And>st. quiet_to Q (k st)"
  shows "quiet_to Q (Section i pl h (\<lambda>st. Some (st, k st)))"
  by (rule quiet_section) (simp add: si.stay assms)

lemma same_rows_set_db:
  "issuances d = issuances (app_db st) \<Longrightarrow> issuances_seq d = issuances_seq (app_db st) \<Longrightarrow> same_rows st (set_db d st)"
  by (simp add: same_issuances_def)

lemma same_rows_kg: "app_kg st' = app_kg st \<Longrightarrow> same_rows st st'"
  by (simp add: same_issuances_def)

lemma silent_ensure: "silent (ensure_prog first locked engs g)"
proof -
  have "silent (Section (Some locked) Inline False (\<lambda>st.
      let (r, s) = ensure_locked (engs 1) (app_kg st) g in Some (st\<lparr>app_kg := s\<rparr>, Return r)))"
    by (rule quiet_to.Section) (auto simp: Let_def si.locked split: prod.splits)
  then show ?thesis
    unfolding ensure_prog_def by (intro quiet_read) (auto split: sum.split option.split)
qed

lemma silent_status: "silent (snd (status_section eng g st))"
  by (auto simp: status_section_def intro!: quiet_read split: sum.split option.split)

lemma silent_wait_loop: "silent (wait_loop_prog eng g rx)"
  unfolding wait_loop_prog_def
proof (rule quiet_to.WaitLoop)
  fix w st st' p
  assume "(case w of OnDeadline \<Rightarrow> Some (st, Return (Ok Pending))
     | OnChanged \<Rightarrow> (case channels (app_kg st) rx of Ready \<Rightarrow> Some (st, Return (Ok Ready))
          | Failed e \<Rightarrow> Some (st, Return (Ok (Failed e))) | Pending \<Rightarrow> None)
     | OnDropped \<Rightarrow> Some (status_section eng g st)) = Some (st', p)"
  moreover have "status_section eng g st = (st, snd (status_section eng g st))"
    by (simp add: status_section_def)
  ultimately have "st' = st \<and> (p = snd (status_section eng g st) \<or> (\<exists>r. p = Return r))"
    by (auto split: wake_kind.splits keygen_status.splits)
  then show "same_rows st st' \<and> silent p"
    using silent_status [of eng g st] by (auto simp: si.stay)
qed

lemma silent_wait_ready: "silent (wait_ready_prog engs g)"
  unfolding wait_ready_prog_def
  by (intro silent_bind silent_ensure)
    (auto intro!: quiet_read quiet_section simp: silent_status silent_wait_loop si.stay
      split: sum.split keygen_status.split option.split)

lemma silent_rotate: "silent (rotate_prog L K join g)"
proof -
  have await: "silent (await_rotation r)" for r
    unfolding await_rotation_def by (rule quiet_section) (simp add: release_permit_def same_issuances_def)
  have "silent (Section (Some 1) Pool True (\<lambda>st. Some (case join of
      Some e \<Rightarrow> (st, await_rotation (Err (''rotate task join error: '' @ e)))
    | None \<Rightarrow> let (r, d) = rotate_key L K (app_db st) (kg_kek (app_kg st)) g (kg_bits (app_kg st))
        in (set_db d st, await_rotation r))))"
    by (rule quiet_section) (auto simp: await si.stay Let_def dest: rotate_key_frame(1,2)
        intro: same_rows_set_db split: option.split prod.split)
  then show ?thesis
    unfolding rotate_prog_def
    by (intro quiet_to.Section) (auto simp: same_issuances_def split: if_splits)
qed

lemma silent_key_programs:
  "silent (get_key_prog L E i g)" "silent (create_key_prog L E i g)" "silent (rotate_key_prog L E i g)"
proof -
  have answer: "silent (ensure_answer_prog L E g)"
    unfolding ensure_answer_prog_def
    by (intro silent_bind silent_ensure) (auto intro!: quiet_read split: sum.split keygen_status.split)
  have gate: "silent (key_gate_prog E i g p)" if "silent p" for p :: "(app_error + 'x) prog"
    unfolding key_gate_prog_def
    by (rule quiet_to.Section) (auto simp: that dest!: key_gate_kg intro!: same_rows_kg split: prod.splits sum.splits)
  show "silent (get_key_prog L E i g)" "silent (create_key_prog L E i g)"
    unfolding get_key_prog_def create_key_prog_def
    by (auto intro!: gate quiet_read simp: answer split: sum.split option.split)
  have limit: "same_rows st st'" if "check_key_rate_limit E st i = (r, st')" for st st' r
    using that by (intro same_rows_kg) (auto simp: check_key_rate_limit_def split: prod.splits)
  show "silent (rotate_key_prog L E i g)"
    unfolding rotate_key_prog_def
    by (auto intro!: quiet_to.Section silent_bind silent_rotate quiet_read dest: limit
        split: sum.splits prod.splits)
qed

lemma silent_gated:
  assumes "\<And>prf. silent (body prf)"
  shows "silent (gated_prog E i body)"
  unfolding gated_prog_def
  by (rule quiet_to.Section) (auto simp: assms dest!: require_prf_db intro!: same_rows_kg split: prod.splits sum.splits)

lemma silent_run_db:
  assumes "\<And>d. issuances (snd (f d)) = issuances d \<and> issuances_seq (snd (f d)) = issuances_seq d"
  shows "silent (run_db_prog E f)"
  unfolding run_db_prog_def using assms
  by (intro quiet_section) (auto simp: si.stay case_prod_unfold Let_def intro!: same_rows_set_db split: option.split)

lemma silent_one_section:
  assumes "\<And>st. app_kg (snd (h st)) = app_kg st"
  shows "silent (one_section h)"
  unfolding one_section_def Let_def case_prod_unfold
  by (rule quiet_section) (simp add: same_rows_kg assms)

lemma ledger_rows:
  "issuances (snd (register_dedup L eng clk d ref v own b)) = issuances d \<and>
     issuances_seq (snd (register_dedup L eng clk d ref v own b)) = issuances_seq d"
  "issuances (snd (release_dedup L eng d ref own)) = issuances d \<and>
     issuances_seq (snd (release_dedup L eng d ref own)) = issuances_seq d"
  "issuances (snd (reassign_dedup L eng d refs from to)) = issuances d \<and>
     issuances_seq (snd (reassign_dedup L eng d refs from to)) = issuances_seq d"
  using register_frame [OF prod.collapse [symmetric]] release_frame [OF prod.collapse [symmetric]]
    reassign_frame [OF prod.collapse [symmetric]]
  by auto

subsection \<open>Where a request starts to issue\<close>

abbreviation sign_reply :: "(app_error + sign_response) prog \<Rightarrow> reply prog" where
  "sign_reply p \<equiv> reply_with p (\<lambda>x. (200, [(''blind_signature'', JStr (blind_signature x))]))"

definition signature_reply :: "reply \<Rightarrow> bool" where
  "signature_reply r \<longleftrightarrow> (\<exists>sig. r = Reply \<lparr>status_code = 200, resp_body = [(''blind_signature'', JStr sig)]\<rparr>)"

definition entry :: "libs \<Rightarrow> req_env \<Rightarrow> http_data request \<Rightarrow> reply prog \<Rightarrow> bool" where
  "entry L E req p \<longleftrightarrow> (\<exists>r. p = Return r \<and> \<not> signature_reply r) \<or>
     (\<exists>q bl. h_data (payload req) = Ok (DSign q) \<and> p = sign_reply (sign_pool L E q bl CountGlobal))"

lemma bind_assoc: "bind_prog (bind_prog p k) k' = bind_prog p (\<lambda>r. bind_prog (k r) k')"
proof (induction p rule: prog_induct)
  case (Section i pl h f)
  have "map_option (map_prod id (\<lambda>p. bind_prog p k')) (map_option (map_prod id (\<lambda>p. bind_prog p k)) (f st)) =
      map_option (map_prod id (\<lambda>p. bind_prog p (\<lambda>r. bind_prog (k r) k'))) (f st)" for st
    using Section by (cases "f st") auto
  then show ?case by simp
next
  case (WaitLoop f)
  have "map_option (map_prod id (\<lambda>p. bind_prog p k')) (map_option (map_prod id (\<lambda>p. bind_prog p k)) (f w st)) =
      map_option (map_prod id (\<lambda>p. bind_prog p (\<lambda>r. bind_prog (k r) k'))) (f w st)" for w st
    using WaitLoop by (cases "f w st") auto
  then show ?case by simp
qed simp

lemma quiet_Return: "\<not> signature_reply r \<Longrightarrow> quiet_to (entry L E req) (Return r)"
  by (rule quiet_to.there) (simp add: entry_def)

lemma error_reply [simp]: "\<not> signature_reply (Reply (into_response e))"
  by (cases "error_status e") (simp add: signature_reply_def into_response_def Let_def)

lemma other_replies [simp]: "\<not> signature_reply (plain c)" "\<not> signature_reply Aborted"
  "\<not> signature_reply (Reply \<lparr>status_code = 200, resp_body = [([], JStr healthz)]\<rparr>)"
  by (simp_all add: signature_reply_def plain_def)

text \<open>An answer whose body starts with another field.\<close>

lemma render_reply:
  assumes "\<And>x. map fst (snd (f x)) \<noteq> [''blind_signature'']"
  shows "\<not> signature_reply (render f r)"
proof (cases r)
  case (Inr x)
  with assms [of x] show ?thesis by (auto simp: signature_reply_def render_def)
qed simp

lemma quiet_sign:
  assumes "h_data (payload req) = Ok (DSign q)"
  shows "quiet_to (entry L E req) (sign_reply (sign_prog L E st i q))"
proof -
  have ready: "silent (sign_ready_prog E st g)" for g
    by (auto simp: sign_ready_prog_def intro!: silent_bind silent_wait_ready quiet_read)
  have pool: "quiet_to (entry L E req) (sign_reply (sign_pool L E q bl CountGlobal))" for bl
    using assms by (intro quiet_to.there) (auto simp: entry_def)
  show ?thesis
  proof (cases "sign_validate L i q")
    case (Inl e)
    then show ?thesis by (simp add: sign_prog_def quiet_Return)
  next
    case (Inr bl)
    let ?k = "\<lambda>r. case r of Err e \<Rightarrow> Return (Err e)
      | Ok _ \<Rightarrow> (case rq_join E of
           Some e \<Rightarrow> Section (Some 3) Pool False (\<lambda>st. Some (st, Return (Err (Internal (''join error: '' @ e)))))
         | None \<Rightarrow> sign_pool L E q bl CountGlobal)"
    have "quiet_to (entry L E req) (sign_reply (?k r))" for r
      using pool [of bl] by (auto intro!: quiet_read simp: quiet_Return split: sum.split option.split)
    then have "quiet_to (entry L E req) (bind_prog (sign_ready_prog E st (sr_group_id q)) (\<lambda>r. sign_reply (?k r)))"
      by (rule silent_bind [OF ready])
    then show ?thesis
      by (simp add: sign_prog_def Inr bind_assoc)
  qed
qed

lemma quiet_reply:
  assumes "silent p" and "\<And>r. \<not> signature_reply (k r)"
  shows "quiet_to (entry L E req) (bind_prog p (\<lambda>r. Return (k r)))"
  using assms by (intro silent_bind) (auto intro: quiet_to.there simp: entry_def)

lemma quiet_handle: "quiet_to (entry L E req) (handle_prog L E st req)"
proof -
  note prf_defs = prf_pairwise_def prf_evaluate_def prf_public_key_def
  have gate: "app_kg (snd (gated E st i (\<lambda>prf st. (b prf, st)))) = app_kg st"
    for st i and b :: "prf_state \<Rightarrow> app_error + 'x"
    using require_prf_db [of E st i] by (cases "require_prf E st i") (auto simp: gated_def split: sum.split)
  note programs = silent_key_programs silent_one_section silent_gated silent_bind silent_run_db
  have disclosed: "\<not> signature_reply (if r = Ok None then Aborted else render (\<lambda>x. (200, [(''nullifier'', JStr (the x))])) r)"
    for r
    by (simp add: render_reply)
  have "quiet_to (entry L E req) (route_prog L E st i r q)" if "h_data (payload req) = Ok q" for i r q
  proof (cases "\<exists>sq. r = Sign \<and> q = DSign sq")
    case True
    with that show ?thesis by (auto simp: route_prog_def intro: quiet_sign)
  next
    case False
    then show ?thesis
      by (cases r; cases q) (auto simp: route_prog_def key_json_def prf_defs disclose_prog_def register_prog_def
          release_prog_def reassign_prog_def ledger_rows gate disclosed intro!: quiet_reply quiet_Return programs render_reply
          split: sum.split)
  qed
  then show ?thesis
    by (auto simp: handle_prog_def intro!: quiet_Return split: sum.split route.split)
qed

subsection \<open>The schedule behind a run\<close>

text \<open>A thread of the service at the point of a thread of the schedule.\<close>

definition at_pc :: "libs \<Rightarrow> thread \<Rightarrow> sign_thread \<Rightarrow> bool" where
  "at_pc L t s \<longleftrightarrow> th_env s = sv_env t \<and> h_data (payload (sv_req t)) = Ok (DSign (th_req s)) \<and>
     (sv_prog t = sign_reply (sign_pool L (th_env s) (th_req s) (th_blinded s) (th_pc s)) \<or>
      (\<exists>e. th_pc s = Denied e \<and>
        sv_prog t = sign_reply (Section (Some 4) Await False (\<lambda>st. Some (st, Return (Err e))))))"

text \<open>\<open>m\<close> takes the threads that issue to their counterparts; the others are quiet.\<close>

definition tracks :: "libs \<Rightarrow> thread list \<Rightarrow> sign_thread list \<Rightarrow> (nat \<rightharpoonup> nat) \<Rightarrow> bool" where
  "tracks L ts ss m \<longleftrightarrow>
     (\<forall>j k. m j = Some k \<longrightarrow> j < length ts \<and> k < length ss \<and> at_pc L (ts ! j) (ss ! k)) \<and>
     (\<forall>j j' k. m j = Some k \<longrightarrow> m j' = Some k \<longrightarrow> j = j') \<and>
     (\<forall>k < length ss. \<exists>j. m j = Some k) \<and>
     (\<forall>j < length ts. m j = None \<longrightarrow> quiet_to (entry L (sv_env (ts ! j)) (sv_req (ts ! j))) (sv_prog (ts ! j)))"

definition same_db :: "app_state \<Rightarrow> app_state \<Rightarrow> bool" where
  "same_db st st' \<longleftrightarrow> app_db st' = app_db st \<and> same_config st st'"

text \<open>
  The events behind one step: of threads that the service has, and with never more of them past their
  count than before or after the step.
\<close>

definition behind :: "libs \<Rightarrow> thread list \<Rightarrow> system \<Rightarrow> event list \<Rightarrow> bool" where
  "behind L ts y events \<longleftrightarrow>
     (\<forall>E req bl. Arrive E req bl \<in> set events \<longrightarrow> (\<exists>t \<in> set ts. sv_env t = E)) \<and>
     (\<forall>K. in_flight (snd y) \<le> K \<longrightarrow> in_flight (snd (run_schedule L events y)) \<le> K \<longrightarrow> calm K L events y)"

lemma behind_few [simp]:
  "behind L ts y []" "behind L ts y [Run k]" "behind L ts y [Elsewhere d]"
  by (simp_all add: behind_def)

lemma behind_enter:
  assumes "t \<in> set ts"
  shows "behind L ts y [Arrive (sv_env t) req bl, Run k]"
proof -
  have "in_flight (snd (sys_step L (Arrive (sv_env t) req bl) y)) = in_flight (snd y)"
    by (cases y) (simp add: in_flight_def cleared_def)
  with assms show ?thesis
    by (auto simp: behind_def)
qed

definition mirrors :: "libs \<Rightarrow> service \<Rightarrow> system \<Rightarrow> bool" where
  "mirrors L x y \<longleftrightarrow> same_db (fst x) (fst y) \<and> (\<exists>m. tracks L (snd x) (snd y) m)"

lemma sign_step_same_db:
  assumes "same_db st st'"
  shows "fst (sign_step L E req bl pc st') = fst (sign_step L E req bl pc st)"
    and "same_db (snd (sign_step L E req bl pc st)) (snd (sign_step L E req bl pc st'))"
proof -
  have d: "app_db st' = app_db st" "app_kek st' = app_kek st" "app_rate_limiter st' = app_rate_limiter st"
    "auto_create_keys st' = auto_create_keys st" "app_key_bits st' = app_key_bits st"
    using assms by (simp_all add: same_db_def same_config_def)
  have db: "same_db (set_db d st) (set_db d st')" for d
    using assms by (simp add: same_db_def same_config_def)
  show "fst (sign_step L E req bl pc st') = fst (sign_step L E req bl pc st)"
    and "same_db (snd (sign_step L E req bl pc st)) (snd (sign_step L E req bl pc st'))"
    using assms db by (cases pc; auto simp: sign_step_def sign_since_def roll_back_def Let_def d
        split: prod.split sum.split reservation.split)+
qed

lemma pool_moves:
  assumes "moves gone (sign_reply (sign_pool L E req bl pc)) st st' p"
  obtains pc' where "sign_step L E req bl pc st = (pc', st')"
    and "p = sign_reply (sign_pool L E req bl pc') \<or>
      (\<exists>e. pc' = Denied e \<and> p = sign_reply (Section (Some 4) Await False (\<lambda>st. Some (st, Return (Err e)))))"
proof -
  have None: "pc_result pc = None"
    using assms by (subst (asm) sign_pool.simps) (auto elim: moves_ReturnE split: option.splits)
  obtain pc' st1 where s: "sign_step L E req bl pc st = (pc', st1)"
    by (cases "sign_step L E req bl pc st")
  have denied: "\<exists>e. pc' = Denied e" if "pc = CountGlobal" "pc' \<noteq> CountParticipant"
    using s that by (auto simp: sign_step_def split: sum.splits if_splits)
  from assms None s have "st' = st1" and
    "p = sign_reply (if pc = CountGlobal \<and> pc' \<noteq> CountParticipant
      then Section (Some 4) Await False (\<lambda>st. Some (st, sign_pool L E req bl pc'))
      else sign_pool L E req bl pc')"
    by (subst (asm) sign_pool.simps, auto elim!: moves_SectionE simp: Let_def)+
  with s denied that show thesis
    by (cases "pc = CountGlobal \<and> pc' \<noteq> CountParticipant") auto
qed

lemma run_schedule_append: "run_schedule L (xs @ ys) s = run_schedule L ys (run_schedule L xs s)"
  by (induction xs arbitrary: s) simp_all

text \<open>Work elsewhere in the service.\<close>

lemma elsewhere:
  assumes "same_db st sst" and "same_rows st st'" and "same_config st st'"
  shows "same_db st' (fst (run_schedule L [Elsewhere (app_db st')] (sst, ss)))"
    and "snd (run_schedule L [Elsewhere (app_db st')] (sst, ss)) = ss"
  using assms by (auto simp: same_db_def same_issuances_def same_config_def)

lemma task_step_rows: "task_step L s s' \<Longrightarrow> same_issuances s s'"
  by (erule task_stepE) (auto simp: same_issuances_def worker_create_def dest: create_key_frame(1,2) split: prod.splits)

lemma tracks_quiet:
  assumes "tracks L ts ss m" and "j < length ts" and "m j = None"
    and "quiet_to (entry L (sv_env (ts ! j)) (sv_req (ts ! j))) p"
  shows "tracks L (ts[j := (ts ! j)\<lparr>sv_prog := p\<rparr>]) ss m"
  using assms by (auto simp: tracks_def nth_list_update)

lemma tracks_run:
  assumes "tracks L ts ss m" and "m j = Some k" and "at_pc L ((ts ! j)\<lparr>sv_prog := p\<rparr>) ((ss ! k)\<lparr>th_pc := pc\<rparr>)"
  shows "tracks L (ts[j := (ts ! j)\<lparr>sv_prog := p\<rparr>]) (ss[k := (ss ! k)\<lparr>th_pc := pc\<rparr>]) m"
  using assms unfolding tracks_def by (auto simp: nth_list_update)

lemma tracks_enter:
  assumes "tracks L ts ss m" and "j < length ts" and "m j = None" and "at_pc L ((ts ! j)\<lparr>sv_prog := p\<rparr>) x"
  shows "tracks L (ts[j := (ts ! j)\<lparr>sv_prog := p\<rparr>]) (ss @ [x]) (m(j \<mapsto> length ss))"
proof -
  have old: "j' < length ts \<and> k < length ss \<and> at_pc L (ts ! j') (ss ! k)" if "m j' = Some k" for j' k
    using assms(1) that by (simp add: tracks_def)
  have uniq: "j' = j''" if "m j' = Some k" "m j'' = Some k" for j' j'' k
    using assms(1) that unfolding tracks_def by blast
  have fresh: "m j' \<noteq> Some (length ss)" for j'
    using old by blast
  have onto: "\<exists>j'. m j' = Some k" if "k < length ss" for k
    using assms(1) that by (simp add: tracks_def)
  show ?thesis
    unfolding tracks_def
  proof (intro conjI allI impI)
    fix j' k
    assume "(m(j \<mapsto> length ss)) j' = Some k"
    then show "j' < length (ts[j := (ts ! j)\<lparr>sv_prog := p\<rparr>])" "k < length (ss @ [x])"
      "at_pc L (ts[j := (ts ! j)\<lparr>sv_prog := p\<rparr>] ! j') ((ss @ [x]) ! k)"
      using assms(2,4) old [of j' k] by (auto simp: nth_append split: if_splits)
    show "j' = j''" if "(m(j \<mapsto> length ss)) j'' = Some k" for j''
      using \<open>(m(j \<mapsto> length ss)) j' = Some k\<close> that uniq fresh by (auto split: if_splits)
  next
    fix k
    assume "k < length (ss @ [x])"
    then show "\<exists>j'. (m(j \<mapsto> length ss)) j' = Some k"
      using onto [of k] assms(3) by (cases "k = length ss") (auto, metis option.distinct(1))
  next
    fix j'
    assume "j' < length (ts[j := (ts ! j)\<lparr>sv_prog := p\<rparr>])" and "(m(j \<mapsto> length ss)) j' = None"
    then show "quiet_to (entry L (sv_env (ts[j := (ts ! j)\<lparr>sv_prog := p\<rparr>] ! j'))
        (sv_req (ts[j := (ts ! j)\<lparr>sv_prog := p\<rparr>] ! j'))) (sv_prog (ts[j := (ts ! j)\<lparr>sv_prog := p\<rparr>] ! j'))"
      using assms(1) by (auto simp: tracks_def split: if_splits)
  qed
qed

text \<open>A move of a thread that does not issue yet.\<close>

lemma quiet_moves:
  assumes "quiet_to (entry L E req) p" and "moves gone p st st' p'"
  obtains (quiet) "same_rows st st'" and "quiet_to (entry L E req) p'"
  | (enters) q bl where "h_data (payload req) = Ok (DSign q)" and "p = sign_reply (sign_pool L E q bl CountGlobal)"
  using assms(1)
proof cases
  case there
  with assms(2) enters show thesis by (auto simp: entry_def elim: moves_ReturnE)
next
  case (Section f i pl h)
  with assms(2) quiet show thesis by (auto elim!: moves_SectionE)
next
  case (WaitLoop f)
  with assms(2) quiet show thesis by (auto elim!: moves_WaitLoopE)
qed

text \<open>The first step of the blocking part, and the later ones.\<close>

lemma enter_mirrors:
  assumes "same_db st sst" and "tracks L ts ss m" and "j < length ts"
    and "moves gone (sv_prog (ts ! j)) st st' p"
    and "m j = None" and "h_data (payload (sv_req (ts ! j))) = Ok (DSign q)"
    and "sv_prog (ts ! j) = sign_reply (sign_pool L (sv_env (ts ! j)) q bl CountGlobal)"
  shows "\<exists>events. mirrors L (st', ts[j := (ts ! j)\<lparr>sv_prog := p\<rparr>]) (run_schedule L events (sst, ss)) \<and>
    behind L ts (sst, ss) events"
proof -
  let ?x = "\<lparr>th_env = sv_env (ts ! j), th_req = q, th_blinded = bl, th_pc = CountGlobal\<rparr>"
  from assms(4) [unfolded assms(7)] obtain pc' where s: "sign_step L (sv_env (ts ! j)) q bl CountGlobal st = (pc', st')"
    and p: "p = sign_reply (sign_pool L (sv_env (ts ! j)) q bl pc') \<or>
      (\<exists>e. pc' = Denied e \<and> p = sign_reply (Section (Some 4) Await False (\<lambda>st. Some (st, Return (Err e)))))"
    by (rule pool_moves)
  obtain sst' where s': "sign_step L (sv_env (ts ! j)) q bl CountGlobal sst = (pc', sst')" "same_db st' sst'"
    using sign_step_same_db [OF assms(1), of L "sv_env (ts ! j)" q bl CountGlobal] s
    by (cases "sign_step L (sv_env (ts ! j)) q bl CountGlobal sst") simp
  have "at_pc L ((ts ! j)\<lparr>sv_prog := p\<rparr>) (?x\<lparr>th_pc := pc'\<rparr>)"
    using p assms(6) by (auto simp: at_pc_def)
  from tracks_enter [OF assms(2,3) assms(5) this] s' behind_enter [OF nth_mem [OF assms(3)]] show ?thesis
    unfolding mirrors_def
    by (intro exI [of _ "[Arrive (sv_env (ts ! j)) q bl, Run (length ss)]"]) auto
qed

lemma pool_mirrors:
  assumes "same_db st sst" and "tracks L ts ss m" and "j < length ts"
    and "moves gone (sv_prog (ts ! j)) st st' p" and "m j = Some k"
  shows "\<exists>events. mirrors L (st', ts[j := (ts ! j)\<lparr>sv_prog := p\<rparr>]) (run_schedule L events (sst, ss)) \<and>
    behind L ts (sst, ss) events"
proof -
  from assms(2,5) have k: "k < length ss" and at: "at_pc L (ts ! j) (ss ! k)"
    by (auto simp: tracks_def)
  let ?x = "ss ! k"
  show ?thesis
  proof (cases "sv_prog (ts ! j) = sign_reply (sign_pool L (th_env ?x) (th_req ?x) (th_blinded ?x) (th_pc ?x))")
    case True
    from assms(4) [unfolded True] obtain pc' where s: "sign_step L (th_env ?x) (th_req ?x) (th_blinded ?x) (th_pc ?x) st = (pc', st')"
      and p: "p = sign_reply (sign_pool L (th_env ?x) (th_req ?x) (th_blinded ?x) pc') \<or>
        (\<exists>e. pc' = Denied e \<and> p = sign_reply (Section (Some 4) Await False (\<lambda>st. Some (st, Return (Err e)))))"
      by (rule pool_moves)
    obtain sst' where s': "sign_step L (th_env ?x) (th_req ?x) (th_blinded ?x) (th_pc ?x) sst = (pc', sst')" "same_db st' sst'"
      using sign_step_same_db [OF assms(1), of L "th_env ?x" "th_req ?x" "th_blinded ?x" "th_pc ?x"] s
      by (cases "sign_step L (th_env ?x) (th_req ?x) (th_blinded ?x) (th_pc ?x) sst") simp
    have "at_pc L ((ts ! j)\<lparr>sv_prog := p\<rparr>) (?x\<lparr>th_pc := pc'\<rparr>)"
      using p at by (auto simp: at_pc_def)
    from tracks_run [OF assms(2) assms(5) this] s' k show ?thesis
      unfolding mirrors_def by (intro exI [of _ "[Run k]"]) auto
  next
    case False
    with at obtain e where e: "th_pc ?x = Denied e"
      and prog: "sv_prog (ts ! j) = sign_reply (Section (Some 4) Await False (\<lambda>st. Some (st, Return (Err e))))"
      by (auto simp: at_pc_def)
    with assms(4) have "st' = st" and "p = sign_reply (Return (Err e))"
      by (auto elim!: moves_SectionE)
    with at e have "at_pc L ((ts ! j)\<lparr>sv_prog := p\<rparr>) (?x\<lparr>th_pc := Denied e\<rparr>)"
      by (simp add: at_pc_def)
    moreover have "?x\<lparr>th_pc := Denied e\<rparr> = ?x"
      using e by (cases ?x) simp
    ultimately have "tracks L (ts[j := (ts ! j)\<lparr>sv_prog := p\<rparr>]) ss m"
      using tracks_run [OF assms(2,5), of p "Denied e"] by simp
    with assms(1) \<open>st' = st\<close> show ?thesis
      unfolding mirrors_def by (intro exI [of _ "[]"]) auto
  qed
qed

lemma move_mirrors:
  assumes "same_db st sst" and "tracks L ts ss m" and "j < length ts"
    and "moves gone (sv_prog (ts ! j)) st st' p" and "same_config st st'"
  shows "\<exists>events. mirrors L (st', ts[j := (ts ! j)\<lparr>sv_prog := p\<rparr>]) (run_schedule L events (sst, ss)) \<and>
    behind L ts (sst, ss) events"
proof (cases "m j")
  case None
  with assms(2,3) have "quiet_to (entry L (sv_env (ts ! j)) (sv_req (ts ! j))) (sv_prog (ts ! j))"
    by (simp add: tracks_def)
  then show ?thesis
    using assms(4)
  proof (cases rule: quiet_moves)
    case quiet
    from elsewhere [OF assms(1) quiet(1) assms(5), of L ss] tracks_quiet [OF assms(2,3) None quiet(2)]
    show ?thesis
      unfolding mirrors_def by (intro exI [of _ "[Elsewhere (app_db st')]"]) auto
  next
    case (enters q bl)
    with assms(1-4) None show ?thesis by (intro enter_mirrors)
  qed
next
  case (Some k)
  with assms(1-4) show ?thesis by (intro pool_mirrors)
qed

lemma at_pc_gone: "at_pc L (t\<lparr>sv_gone := b\<rparr>) s = at_pc L t s"
  by (simp add: at_pc_def)

lemma step_mirrors:
  assumes "service_step L A (st, ts) (st', ts')" and "\<forall>t \<in> set ts. guar (sv_prog t)" and "mirrors L (st, ts) y"
  shows "\<exists>events. mirrors L (st', ts') (run_schedule L events y) \<and> behind L ts y events"
proof -
  obtain sst ss m where y: "y = (sst, ss)" and db: "same_db st sst" and m: "tracks L ts ss m"
    using assms(3) by (cases y) (auto simp: mirrors_def)
  note config = service_step_dev(2) [OF assms(1,2)]
  have kept: "\<exists>events. mirrors L (st', ts'') (run_schedule L events y) \<and> behind L ts y events"
    if "same_rows st st'" "tracks L ts'' ss m" for ts''
    using elsewhere [OF db that(1) config, of L ss] that(2) unfolding mirrors_def y
    by (intro exI [of _ "[Elsewhere (app_db st')]"]) auto
  show ?thesis
    using assms(1)
  proof (cases rule: service_step.cases)
    case (background s)
    with m show ?thesis by (intro kept) (auto dest: task_step_rows)
  next
    case (action a)
    from action(2) show ?thesis
    proof (cases rule: act_cases)
      case (arrived E req)
      then have "tracks L ts' ss m"
        using m quiet_handle [of L E req st] unfolding tracks_def
        by (auto simp: nth_append less_Suc_eq)
      with arrived(2) show ?thesis by (intro kept) (simp_all add: si.stay)
    next
      case (moved j p)
      from move_mirrors [OF db m moved(1,2) config] show ?thesis
        by (simp add: moved(3) y)
    next
      case (dropped j)
      have "tracks L ts' ss m"
        using m dropped(2) unfolding dropped(5) tracks_def by (auto simp: nth_list_update at_pc_gone)
      moreover have "same_rows st st'"
        by (simp add: dropped(4) same_issuances_def release_permit_def)
      ultimately show ?thesis by (rule kept [rotated])
    qed
  qed
qed

lemma run_mirrors:
  assumes "service_run L A (st0, []) x" and "server_inv st0"
  shows "\<exists>events. mirrors L x (run_schedule L events (st0, []))"
  using assms(1) unfolding service_run_def
proof (induction rule: rtranclp_induct)
  case base
  have "mirrors L (st0, []) (st0, [])"
    by (auto simp: mirrors_def same_db_def tracks_def)
  then show ?case
    by (intro exI [of _ "[]"]) simp
next
  case (step y z)
  have "service_run L A (st0, []) y"
    using step.hyps(1) by (simp add: service_run_def)
  from service_run_inv [OF this running_inv_start [OF assms(2)]]
  have "\<forall>t \<in> set (snd y). guar (sv_prog t)"
    by (simp add: running_inv_def split: prod.splits)
  moreover from step.IH obtain events where "mirrors L y (run_schedule L events (st0, []))"
    by blast
  ultimately obtain more where "mirrors L z (run_schedule L more (run_schedule L events (st0, [])))"
    using step_mirrors [of L A "fst y" "snd y" "fst z" "snd z" "run_schedule L events (st0, [])"] step.hyps(2)
    by auto
  then show ?case
    by (metis run_schedule_append)
qed

subsection \<open>Signatures of the service\<close>

definition signed_for :: "thread \<Rightarrow> string \<times> string \<times> string \<Rightarrow> bool" where
  "signed_for t tuple \<longleftrightarrow> (\<exists>q r. h_data (payload (sv_req t)) = Ok (DSign q) \<and> req_tuple q = tuple \<and>
     sv_prog t = Return r \<and> signature_reply r)"

lemma pool_not_Return:
  "sign_reply (sign_pool L E q bl pc) = Return r \<Longrightarrow> signature_reply r \<Longrightarrow> \<exists>i x. pc = Signed i x"
  by (cases pc) (auto simp: sign_pool.simps)

lemma signed_at:
  assumes "tracks L ts ss m" and "j < length ts" and "signed_for (ts ! j) tuple"
  obtains k i x where "m j = Some k" and "k < length ss" and "th_pc (ss ! k) = Signed i x"
    and "req_tuple (th_req (ss ! k)) = tuple"
proof (cases "m j")
  case None
  with assms(1,2) have "quiet_to (entry L (sv_env (ts ! j)) (sv_req (ts ! j))) (sv_prog (ts ! j))"
    by (simp add: tracks_def)
  then show thesis
  proof cases
    case there
    with assms(3) show thesis
      by (auto simp: entry_def signed_for_def dest: pool_not_Return)
  qed (use assms(3) in \<open>auto simp: signed_for_def\<close>)
next
  case (Some k)
  with assms(1) have k: "k < length ss" "at_pc L (ts ! j) (ss ! k)"
    by (auto simp: tracks_def)
  with assms(3) have "\<exists>i x. th_pc (ss ! k) = Signed i x"
    by (auto simp: at_pc_def signed_for_def dest: pool_not_Return)
  then obtain i x where "th_pc (ss ! k) = Signed i x"
    by blast
  moreover have "req_tuple (th_req (ss ! k)) = tuple"
    using k(2) assms(3) by (auto simp: at_pc_def signed_for_def)
  ultimately show thesis
    using that Some k(1) by blast
qed

lemma run_issuances:
  assumes "service_run L A (st0, []) (st, ts)" and "server_inv st0"
  obtains events sst ss m where "run_schedule L events (st0, []) = (sst, ss)" and "app_db sst = app_db st"
    and "tracks L ts ss m" and "sys_inv (sst, ss)"
proof -
  obtain events where e: "mirrors L (st, ts) (run_schedule L events (st0, []))"
    using run_mirrors [OF assms] by blast
  obtain sst ss where r: "run_schedule L events (st0, []) = (sst, ss)"
    by (cases "run_schedule L events (st0, [])")
  have "issuance_inv (app_db st0)"
    using assms(2) by (simp add: server_inv_def db_inv_def)
  then have "sys_inv (sst, ss)"
    using run_schedule_inv [OF sys_inv_init, of st0 L events] r by simp
  with e r that show thesis
    by (auto simp: mirrors_def same_db_def)
qed

lemma service_signs_once:
  assumes "service_run L A (st0, []) (st, ts)" and "server_inv st0" and "j < length ts" and "k < length ts"
    and "signed_for (ts ! j) tuple" and "signed_for (ts ! k) tuple"
  shows "j = k"
proof -
  obtain events sst ss m where t: "tracks L ts ss m" and inv: "sys_inv (sst, ss)"
    using run_issuances [OF assms(1,2)] by blast
  obtain j' i x where j: "m j = Some j'" "j' < length ss" "th_pc (ss ! j') = Signed i x" "req_tuple (th_req (ss ! j')) = tuple"
    using signed_at [OF t assms(3,5)] .
  obtain k' i' x' where k: "m k = Some k'" "k' < length ss" "th_pc (ss ! k') = Signed i' x'" "req_tuple (th_req (ss ! k')) = tuple"
    using signed_at [OF t assms(4,6)] .
  have "j' = k'"
    using signed_once [OF inv j(2) k(2) j(3) k(3)] j(4) k(4) by simp
  with t j(1) k(1) show ?thesis
    unfolding tracks_def by blast
qed

text \<open>A signature that was given is recorded, and what was recorded before the run stays.\<close>

lemma service_records:
  assumes "service_run L A (st0, []) (st, ts)" and "server_inv st0" and "j < length ts" and "signed_for (ts ! j) tuple"
  shows "tuple \<in> ran (slot (app_db st))"
proof -
  obtain events sst ss m where t: "tracks L ts ss m" and inv: "sys_inv (sst, ss)" and db: "app_db sst = app_db st"
    using run_issuances [OF assms(1,2)] by metis
  obtain k i x where "k < length ss" "th_pc (ss ! k) = Signed i x" "req_tuple (th_req (ss ! k)) = tuple"
    using signed_at [OF t assms(3,4)] .
  with signed_slot(1) [OF inv this(1,2)] db show ?thesis
    by (metis ranI)
qed

lemma service_keeps:
  assumes "service_run L A (st0, []) (st, ts)" and "server_inv st0" and "slot (app_db st0) i = Some tuple"
  shows "slot (app_db st) i = Some tuple" and "t \<in> set ts \<Longrightarrow> \<not> signed_for t tuple"
proof -
  obtain events sst ss m where r: "run_schedule L events (st0, []) = (sst, ss)" and t: "tracks L ts ss m"
    and inv: "sys_inv (sst, ss)" and db: "app_db sst = app_db st"
    using run_issuances [OF assms(1,2)] .
  have "issuance_inv (app_db st0)"
    using assms(2) by (simp add: server_inv_def db_inv_def)
  from recorded_stays [OF sys_inv_init [OF this], of i tuple L events] assms(3) r
  have stays: "slot (app_db sst) i = Some tuple" "\<forall>j. \<not> owns ss j i"
    by (simp_all add: owns_def)
  then show "slot (app_db st) i = Some tuple"
    by (simp add: db)
  show "\<not> signed_for t tuple" if mem: "t \<in> set ts"
  proof
    assume "signed_for t tuple"
    with mem obtain j where j: "j < length ts" "signed_for (ts ! j) tuple"
      by (auto simp: in_set_conv_nth)
    obtain k i' x where k: "k < length ss" "th_pc (ss ! k) = Signed i' x" "req_tuple (th_req (ss ! k)) = tuple"
      using signed_at [OF t j] .
    note s = signed_slot [OF inv k(1,2)]
    have "issuance_inv (app_db sst)"
      using inv by (simp add: sys_inv_def)
    then have "i' = i"
      using il.holds_unique s(1) stays(1) k(3) by metis
    with s(2) stays(2) show False by blast
  qed
qed

end
