(* ===== verification/Service_Ceilings.thy ===== *)
theory Service_Ceilings
  imports Service_Issuance
begin

text \<open>
  The ceilings of the running service. Only the requests that have passed a count and have not yet
  reserved can push a window above its ceiling, and by no more than their number.
\<close>

text \<open>A \<open>/sign\<close> request on the pool, after its first count and before its reservation.\<close>

fun at_count :: "'r prog \<Rightarrow> bool" where
  "at_count (Section i pl h f) = ((i = Some 4 \<or> i = Some 5) \<and> pl = Pool)"
| "at_count _ = False"

definition past_count :: "thread \<Rightarrow> bool" where
  "past_count t \<longleftrightarrow> (\<exists>q. h_data (payload (sv_req t)) = Ok (DSign q)) \<and> at_count (sv_prog t)"

definition overlap :: "thread list \<Rightarrow> nat" where
  "overlap ts = length (filter past_count ts)"

lemma cleared_past: "at_pc L t s \<Longrightarrow> cleared Everyone s \<Longrightarrow> past_count t"
  by (auto simp: at_pc_def cleared_def past_count_def sign_pool.simps)

lemma flight_overlap:
  assumes "tracks L ts ss m"
  shows "in_flight ss \<le> overlap ts"
proof -
  have "\<forall>k. k < length ss \<longrightarrow> (\<exists>j. m j = Some k)"
    using assms by (simp add: tracks_def)
  then obtain from_k where m: "\<And>k. k < length ss \<Longrightarrow> m (from_k k) = Some k"
    by metis
  have "in_flight ss = card {k. k < length ss \<and> cleared Everyone (ss ! k)}"
    by (simp add: in_flight_def length_filter_conv_card)
  also have "\<dots> \<le> card {j. j < length ts \<and> past_count (ts ! j)}"
  proof (rule card_inj_on_le)
    show "inj_on from_k {k. k < length ss \<and> cleared Everyone (ss ! k)}"
    proof (rule inj_onI)
      fix k k'
      assume k: "k \<in> {k. k < length ss \<and> cleared Everyone (ss ! k)}" "k' \<in> {k. k < length ss \<and> cleared Everyone (ss ! k)}"
        and eq: "from_k k = from_k k'"
      have "Some k = m (from_k k)" "m (from_k k') = Some k'"
        using m k by simp_all
      then show "k = k'"
        unfolding eq by simp
    qed
    show "from_k ` {k. k < length ss \<and> cleared Everyone (ss ! k)} \<subseteq> {j. j < length ts \<and> past_count (ts ! j)}"
    proof
      fix j
      assume "j \<in> from_k ` {k. k < length ss \<and> cleared Everyone (ss ! k)}"
      then obtain k where k: "j = from_k k" "k < length ss" "cleared Everyone (ss ! k)"
        by blast
      with m [of k] have "m j = Some k"
        by simp
      with assms have "j < length ts" "at_pc L (ts ! j) (ss ! k)"
        by (simp_all add: tracks_def)
      with cleared_past k(3) show "j \<in> {j. j < length ts \<and> past_count (ts ! j)}"
        by blast
    qed
  qed simp
  also have "\<dots> = overlap ts"
    by (simp add: overlap_def length_filter_conv_card)
  finally show ?thesis .
qed

text \<open>Runs in which the clock of a request never goes back, and never more than \<open>K\<close> requests overlap.\<close>

definition forward_actions :: "action set" where
  "forward_actions = {a. \<forall>E req. a = NewRequest E req \<longrightarrow> clock_forward E}"

definition overlapping_run :: "nat \<Rightarrow> libs \<Rightarrow> service \<Rightarrow> service \<Rightarrow> bool" where
  "overlapping_run K L = (\<lambda>x y. service_step L forward_actions x y \<and> overlap (snd y) \<le> K)\<^sup>*\<^sup>*"

lemma overlapping_service_run: "overlapping_run K L x y \<Longrightarrow> service_run L forward_actions x y"
  unfolding overlapping_run_def service_run_def by (erule mono_rtranclp [rule_format, rotated]) simp

lemma service_step_forward:
  assumes "service_step L forward_actions (st, ts) (st', ts')" and "\<forall>t \<in> set ts. clock_forward (sv_env t)"
  shows "\<forall>t \<in> set ts'. clock_forward (sv_env t)"
  using assms(1)
proof (cases rule: service_step.cases)
  case (action a)
  have "clock_forward (sv_env t)" if "t \<in> set (ts[j := (ts ! j)\<lparr>sv_prog := p\<rparr>])" "j < length ts" for t j p
    using that assms(2) by (auto dest!: set_update_subset_insert [THEN subsetD])
  moreover have "clock_forward (sv_env t)" if "t \<in> set (ts[j := (ts ! j)\<lparr>sv_gone := b\<rparr>])" "j < length ts" for t j b
    using that assms(2) by (auto dest!: set_update_subset_insert [THEN subsetD])
  ultimately show ?thesis
    using action assms(2) by (cases a) (auto simp: forward_actions_def put_prog_def split: if_splits)
qed (use assms(2) in simp)

lemma overlapping_forward:
  assumes "overlapping_run K L (st0, []) x"
  shows "\<forall>t \<in> set (snd x). clock_forward (sv_env t)"
  using assms unfolding overlapping_run_def
proof (induction rule: rtranclp_induct)
  case (step y z)
  then show ?case
    using service_step_forward [of L "fst y" "snd y" "fst z" "snd z"] by simp
qed simp

text \<open>The schedule behind such a run keeps its overlap small too.\<close>

lemma overlapping_mirrors:
  assumes "overlapping_run K L (st0, []) x" and "server_inv st0"
  shows "\<exists>events. mirrors L x (run_schedule L events (st0, [])) \<and> calm K L events (st0, []) \<and>
    (\<forall>e \<in> set events. forward_event e)"
  using assms(1) unfolding overlapping_run_def
proof (induction rule: rtranclp_induct)
  case base
  have "mirrors L (st0, []) (st0, [])"
    by (auto simp: mirrors_def same_db_def tracks_def)
  then show ?case
    by (intro exI [of _ "[]"]) simp
next
  case (step y z)
  have y: "overlapping_run K L (st0, []) y"
    using step.hyps(1) by (simp add: overlapping_run_def)
  have guar: "\<forall>t \<in> set (snd y). guar (sv_prog t)"
    using service_run_inv [OF overlapping_service_run [OF y] running_inv_start [OF assms(2)]]
    by (simp add: running_inv_def split: prod.splits)
  have few: "overlap (snd y) \<le> K"
    using step.hyps(1) by (cases rule: rtranclp.cases) (auto simp: overlap_def)
  from step.IH obtain events where e: "mirrors L y (run_schedule L events (st0, []))" "calm K L events (st0, [])"
    "\<forall>e \<in> set events. forward_event e"
    by blast
  obtain more where more: "mirrors L z (run_schedule L more (run_schedule L events (st0, [])))"
    "behind L (snd y) (run_schedule L events (st0, [])) more"
    using step_mirrors [of L forward_actions "fst y" "snd y" "fst z" "snd z" "run_schedule L events (st0, [])"]
      step.hyps(2) guar e(1) by auto
  have flight: "in_flight (snd w) \<le> K" if "mirrors L v w" "overlap (snd v) \<le> K" for v w
    using that flight_overlap unfolding mirrors_def by (metis order_trans)
  have "calm K L more (run_schedule L events (st0, []))"
    using more flight [OF e(1) few] flight [OF more(1)] step.hyps(2) unfolding behind_def by blast
  moreover have "\<forall>e \<in> set more. forward_event e"
    using more(2) overlapping_forward [OF y] by (auto simp: behind_def forward_event_def)
  ultimately show ?case
    using more(1) e(2,3) by (intro exI [of _ "events @ more"]) (auto simp: run_schedule_append calm_append)
qed

lemma service_ceilings:
  assumes "overlapping_run K L (st0, []) (st, ts)" and "server_inv st0"
    and "uint (window_secs (app_rate_limiter st0)) < 2 ^ 63"
    and "recorded k T st0 < issue_limit (app_rate_limiter st0) k + K"
  shows "recorded k T st < issue_limit (app_rate_limiter st) k + K"
proof -
  obtain events where e: "mirrors L (st, ts) (run_schedule L events (st0, []))" "calm K L events (st0, [])"
    "\<forall>e \<in> set events. forward_event e"
    using overlapping_mirrors [OF assms(1,2)] by blast
  have "room K k T (st0, [])"
    using assms(4) by (simp add: room_def pending_def)
  then have "room K k T (run_schedule L events (st0, []))"
    using e(2,3) assms(3) by (intro run_room) simp_all
  moreover obtain sst ss where "run_schedule L events (st0, []) = (sst, ss)"
    by (cases "run_schedule L events (st0, [])")
  ultimately have r: "recorded k T sst + pending k T ss < issue_limit (app_rate_limiter sst) k + K"
    and s: "same_db st sst"
    using e(1) by (simp_all add: room_def mirrors_def)
  have "app_rate_limiter sst = app_rate_limiter st" "recorded k T sst = recorded k T st"
    using s by (auto simp: same_db_def same_config_def intro: recorded_cong)
  with r show ?thesis by simp
qed

end
