(* ===== verification/Concurrency_Theorems.thy ===== *)
theory Concurrency_Theorems
  imports Key_Theorems Service_Progress Service_Refinement Service_Ceilings
begin

text \<open>
  The main theorems on the running service: requests of all clients and background workers, interleaved
  section by section, with clients that may go away at any await.
\<close>

subsection \<open>Reference runs\<close>

abbreviation sign_http :: "sign_request \<Rightarrow> http_data request" where
  "sign_http q \<equiv> \<lparr>extension = Some ref_client, payload = \<lparr>h_method = POST, h_path = ''/sign'', h_data = Ok (DSign q)\<rparr>\<rparr>"

lemma sign_handled:
  assumes "sign L E st ref_client q = Some (r, st')"
  shows "handle L E st (sign_http q) = Some (render (\<lambda>x. (200, [(''blind_signature'', JStr (blind_signature x))])) r, st')"
  using assms by (simp add: handle_def find_route_def router_def base_routes_def from_request_parts_def handle_route_def)

lemma ref_served:
  assumes "sign ref_libs ref_env st ref_client q = Some (r, st')" and "NewRequest ref_env (sign_http q) \<in> A" and "going_on \<subseteq> A"
  shows "service_run ref_libs A (st, ts) (st', ts @ [\<lparr>sv_env = ref_env, sv_req = sign_http q,
    sv_prog = Return (render (\<lambda>x. (200, [(''blind_signature'', JStr (blind_signature x))])) r), sv_gone = False\<rparr>])"
  by (rule served_alone [OF _ _ _ sign_handled [OF assms(1)] assms(2,3)]) simp_all

lemma render_Ok: "signature_reply (render (\<lambda>x. (200, [(''blind_signature'', JStr (blind_signature x))])) (Ok x))"
  by (simp add: render_def signature_reply_def)

subsection \<open>One signature per participation\<close>

text \<open>
  C2. Whatever requests arrive and however the sections of their handlers are interleaved with each
  other and with the background workers, also when clients go away in the middle, no two requests are
  answered with a signature for the same group, participant and version, and the tuple of every
  signature is recorded.
\<close>

theorem one_signature_per_tuple:
  assumes "server_inv st0" and "service_run L UNIV (st0, []) (st, ts)"
    and "j < length ts" and "signed_for (ts ! j) tuple"
  shows "tuple \<in> ran (slot (app_db st)) \<and> (\<forall>k < length ts. signed_for (ts ! k) tuple \<longrightarrow> k = j)"
  using service_records [OF assms(2,1,3,4)] service_signs_once [OF assms(2,1) _ assms(3) _ assms(4)] by blast

theorem one_signature_per_tuple_witness:
  "\<exists>st ts. service_run ref_libs UNIV (ref_app, []) (st, ts) \<and> length ts = 2 \<and>
     (\<forall>t \<in> set ts. sv_req t = sign_http ref_req) \<and>
     {k. k < length ts \<and> signed_for (ts ! k) (''g'', ''p'', ''v'')} = {0}"
proof -
  obtain x st1 where s1: "sign ref_libs ref_env ref_app ref_client ref_req = Some (Ok x, st1)"
    using ref_sign by blast
  obtain y st2 where s2: "sign ref_libs ref_env st1 ref_client ref_req = Some (y, st2)"
    using sign_returns [of "\<lambda>s. s" ref_env] by fastforce
  note run = run_trans [OF ref_served [OF s1, of UNIV "[]"] ref_served [OF s2, of UNIV]]
  obtain ts where ts: "service_run ref_libs UNIV (ref_app, []) (st2, ts)" "length ts = 2"
    "\<forall>t \<in> set ts. sv_req t = sign_http ref_req" "signed_for (ts ! 0) (''g'', ''p'', ''v'')"
    using run by (auto simp: signed_for_def render_Ok)
  then have "\<forall>k < length ts. signed_for (ts ! k) (''g'', ''p'', ''v'') \<longrightarrow> k = 0"
    using one_signature_per_tuple [OF ref_app_inv ts(1), of 0] by simp
  with ts have "{k. k < length ts \<and> signed_for (ts ! k) (''g'', ''p'', ''v'')} = {0}"
    by auto
  with ts show ?thesis by blast
qed

text \<open>
  C9. A participation recorded before stays recorded under its id while the service runs, and none of its
  requests is signed for it: a handler that fails takes back its own reservation only.
\<close>

theorem recorded_issuances_stay:
  assumes "server_inv st0" and "service_run L UNIV (st0, []) (st, ts)" and "slot (app_db st0) i = Some tuple"
  shows "slot (app_db st) i = Some tuple \<and> (\<forall>t \<in> set ts. \<not> signed_for t tuple)"
  using service_keeps [OF assms(2,1,3)] by blast

lemma ref_issued_inv: "server_inv ref_app_issued"
proof -
  let ?d = "app_db ref_app_issued"
  have "db_inv ?d" "ledger_wf ?d" "active_pub ?d = active_pub ref_db"
    using ref_db_inv by (simp_all add: ref_app_issued_def db_inv_def table_inv_defs ledger_wf_def unique_on_def
        is_tuple_def i64_max_def active_pub_def active_row_def fun_eq_iff)
  then show ?thesis
    using ref_app_inv
    by (simp add: ref_app_issued_def server_inv_def good_def kg_inv_def channels_fresh_def live_worker_def has_key_def
        db_inv_def set_db_def ref_app_def keygen_new_def)
qed

theorem recorded_issuances_stay_witness:
  "\<exists>st t. service_run ref_libs UNIV (ref_app_issued, []) (st, [t]) \<and> sv_req t = sign_http ref_req \<and>
     slot (app_db st) 1 = Some (''g'', ''p'', ''v'') \<and> \<not> signed_for t (''g'', ''p'', ''v'')"
proof -
  obtain y st where s: "sign ref_libs ref_env ref_app_issued ref_client ref_req = Some (y, st)"
    using sign_returns [of "\<lambda>s. s" ref_env] by fastforce
  note run = ref_served [OF s, of UNIV "[]"]
  show ?thesis
    using run recorded_issuances_stay [OF ref_issued_inv, of ref_libs st _ 1 "(''g'', ''p'', ''v'')"]
    by fastforce
qed

subsection \<open>The ceilings\<close>

text \<open>
  C7. Under three conditions a running service keeps every window of the configured length below its ceiling
  plus \<open>K\<close> issuances, of all participants together and of each one, when it starts below that number: the
  configured window is shorter than \<open>2 ^ 63\<close> seconds (C40 shows what happens otherwise), the clock does not
  go back between the check and the reservation of one request, and never more than \<open>K\<close> requests are
  between their first count and their reservation. With requests that do not overlap (\<open>K = 1\<close>) that is
  at most the ceiling.
\<close>

theorem ceilings_under_overlap:
  assumes "server_inv st0" and "uint (window_secs (app_rate_limiter st0)) < 2 ^ 63"
    and "overlapping_run K L (st0, []) (st, ts)"
    and "recorded k T st0 < issue_limit (app_rate_limiter st0) k + K"
  shows "recorded k T st < issue_limit (app_rate_limiter st0) k + K"
proof -
  have "app_rate_limiter st = app_rate_limiter st0"
    using service_run_config [OF overlapping_service_run [OF assms(3)] assms(1)] by (simp add: same_config_def)
  then show ?thesis
    using service_ceilings [OF assms(3,1,2,4)] by simp
qed

lemma few_requests:
  assumes "service_run L forward_actions x y" and "length (snd y) \<le> K"
  shows "overlapping_run K L x y"
  using assms unfolding service_run_def overlapping_run_def
proof (induction rule: rtranclp_induct)
  case (step y z)
  have len: "length (snd y) \<le> length (snd z)"
    using step_length [of L forward_actions "fst y" "snd y" "fst z" "snd z"] step.hyps(2) by simp
  have "overlap (snd z) \<le> length (snd z)"
    by (simp add: overlap_def)
  with step len show ?case
    by (auto intro: rtranclp.rtrancl_into_rtrancl)
qed simp

theorem ceilings_under_overlap_witness:
  "\<exists>st ts. overlapping_run 1 ref_libs (ref_app, []) (st, ts) \<and> ran (slot (app_db st)) \<noteq> {} \<and>
     recorded (Identity ''p'') 1000 st \<le> 5"
proof -
  obtain x st where s: "sign ref_libs ref_env ref_app ref_client ref_req = Some (Ok x, st)"
    using ref_sign by blast
  have acts: "NewRequest ref_env (sign_http ref_req) \<in> forward_actions" "going_on \<subseteq> forward_actions"
    by (auto simp: forward_actions_def clock_forward_def)
  obtain t where run: "service_run ref_libs forward_actions (ref_app, []) (st, [t])"
    and t: "signed_for t (''g'', ''p'', ''v'')"
    using ref_served [OF s acts, of "[]"] by (auto simp: signed_for_def render_Ok)
  have over: "overlapping_run 1 ref_libs (ref_app, []) (st, [t])"
    using run by (rule few_requests) simp
  have "recorded (Identity ''p'') 1000 ref_app = 0"
    by (simp add: recorded_def in_window_def)
  then have "recorded (Identity ''p'') 1000 st \<le> 5"
    using ceilings_under_overlap [OF ref_app_inv _ over, of "Identity ''p''" 1000] by simp
  moreover have "ran (slot (app_db st)) \<noteq> {}"
    using service_records [OF run ref_app_inv, of 0] t by auto
  ultimately show ?thesis
    using over by blast
qed

subsection \<open>Requests\<close>

text \<open>
  C8. Interleaving adds nothing to what the handlers allow: the answer of every request in a run of the
  service is the answer of its handler as a whole, started in a state that the run passes through and with
  surroundings that, where it waits or gives up a lock, change the shared state only as the service may
  (\<open>develops\<close>, which says nothing of the issuance rows: they are the subject of C2, C7 and C9). The state in
  which the handler ends develops into the present one.
\<close>

theorem interleaved_requests_are_handled:
  assumes "server_inv st0" and "service_run L UNIV (st0, []) (st, ts)" and "t \<in> set ts" and "sv_prog t = Return r"
  shows "\<exists>ot w sta tsa st'. env_within develops (with_gaps (sv_env t) ot w) \<and>
    service_run L UNIV (st0, []) (sta, tsa) \<and> service_run L UNIV (sta, tsa) (st, ts) \<and>
    handle L (with_gaps (sv_env t) ot w) sta (sv_req t) = Some (r, st') \<and> develops (app_kg st') (app_kg st)"
proof -
  let ?P = "\<lambda>s. \<exists>tsa. service_run L UNIV (st0, []) (s, tsa) \<and> service_run L UNIV (s, tsa) (st, ts)"
  have "all_under_way ?P L (st, ts)"
    by (rule run_under_way [OF assms(2) _ running_inv_start [OF assms(1)]]) (auto simp: all_under_way_def)
  then have "under_way ?P L st t"
    using assms(3) by (simp add: all_under_way_def)
  moreover have "?P st"
    using assms(2) run_refl by blast
  ultimately show ?thesis
    using answer_handled [OF _ assms(4)] by blast
qed

theorem interleaved_requests_are_handled_witness:
  "\<exists>st t r ot w sta st'. service_run ref_libs UNIV (ref_app, []) (st, [t]) \<and> sv_prog t = Return r \<and> signature_reply r \<and>
     handle ref_libs (with_gaps ref_env ot w) sta (sign_http ref_req) = Some (r, st')"
proof -
  obtain x st where s: "sign ref_libs ref_env ref_app ref_client ref_req = Some (Ok x, st)"
    using ref_sign by blast
  obtain t r where t: "service_run ref_libs UNIV (ref_app, []) (st, [t])" "sv_prog t = Return r" "signature_reply r"
    "sv_env t = ref_env" "sv_req t = sign_http ref_req"
    using ref_served [OF s, of UNIV "[]"] render_Ok [of x] by fastforce
  with interleaved_requests_are_handled [OF ref_app_inv t(1) _ t(2)] show ?thesis
    by fastforce
qed

subsection \<open>The key-generation service\<close>

text \<open>
  C11. As long as no client goes away, at most as many key generations run at once as there were permits
  at the start, rotations included, and a group has at most one worker that has not finished.
\<close>

theorem keygen_cap_and_single_worker:
  assumes "server_inv st0" and "service_run L connected (st0, []) (st, ts)"
  shows "busy (app_kg st) + rotations ts \<le> stock (app_kg st0) \<and>
    (\<forall>i j g. live_worker (app_kg st) i g \<and> live_worker (app_kg st) j g \<longrightarrow> i = j)"
proof -
  have inv: "running_inv (stock (app_kg st0)) (st, ts)"
    by (rule service_run_inv [OF assms(2) running_inv_start [OF assms(1)]])
  then have "\<forall>g i. inflight (app_kg st) g = Some i \<longleftrightarrow> live_worker (app_kg st) i g"
    by (simp add: running_inv_def server_inv_def good_def kg_inv_def)
  then have "\<forall>i j g. live_worker (app_kg st) i g \<and> live_worker (app_kg st) j g \<longrightarrow> i = j"
    by (metis option.inject)
  moreover have "\<forall>t \<in> set ts. \<not> sv_gone t"
    using connected_run [OF assms(2)] by simp
  ultimately show ?thesis
    using capped [OF inv] by blast
qed

lemma ref_pending:
  "sign ref_libs ref_env ref_app ref_client (ref_req\<lparr>sr_group_id := ''h''\<rparr>) =
     Some (Err KeyPending, ref_app\<lparr>app_kg := register_worker ''h'' (app_kg ref_app)\<rparr>)"
proof -
  have "active_row ref_db ''h'' = None"
    by (simp add: active_row_def ref_db_def with_new_key_def empty_tables_def Let_def fresh_key_row_def)
  then have "sign_ready ref_env ref_app ''h'' = Some (Err KeyPending, ref_app\<lparr>app_kg := register_worker ''h'' (app_kg ref_app)\<rparr>)"
    by (simp add: sign_ready_def wait_ready_def ensure_def ensure_locked_def active_key_def run_stmt_def
        wait_loop.simps register_worker_def ref_app_def keygen_new_def spawn_worker_def)
  moreover have "sign_validate ref_libs ref_client (ref_req\<lparr>sr_group_id := ''h''\<rparr>) = Ok (str_bytes ''blinded'')"
    by (simp add: sign_validate_def require_sign_surface_def validate_id_def MAX_ID_LEN_def
        MAX_BLINDED_B64_def ref_libs_def)
  ultimately show ?thesis
    by (simp add: sign_def)
qed

lemma ref_stock [simp]: "stock (app_kg ref_app) = 2"
  by (simp add: ref_app_def keygen_new_def stock_def busy_def)

theorem keygen_cap_and_single_worker_witness:
  "\<exists>st ts. service_run ref_libs connected (ref_app, []) (st, ts) \<and> live_worker (app_kg st) 0 ''h'' \<and>
     busy (app_kg st) + rotations ts \<le> 2 \<and> (\<forall>j. live_worker (app_kg st) j ''h'' \<longrightarrow> j = 0)"
proof -
  let ?st = "ref_app\<lparr>app_kg := register_worker ''h'' (app_kg ref_app)\<rparr>"
  obtain ts where run: "service_run ref_libs connected (ref_app, []) (?st, ts)"
    using ref_served [OF ref_pending, of connected "[]"] by auto
  have "live_worker (app_kg ?st) 0 ''h''"
    by (simp add: live_worker_def register_worker_def spawn_worker_def ref_app_def keygen_new_def)
  with keygen_cap_and_single_worker [OF ref_app_inv run] run show ?thesis
    by (metis ref_stock)
qed

text \<open>
  C12. Once no more requests arrive the service comes to rest: no run of requests, workers and clients going
  away is infinite, and when nothing can go on any more, every request whose client stayed is
  answered and every worker has finished.
\<close>

theorem service_comes_to_rest:
  assumes "server_inv st0" and "0 < stock (app_kg st0)" and "service_run L UNIV (st0, []) x"
  shows "(\<nexists>f. f 0 = x \<and> (\<forall>m. service_step L no_arrivals (f m) (f (Suc m)))) \<and>
    (\<forall>st ts. service_run L no_arrivals x (st, ts) \<and> (\<nexists>y. service_step L no_arrivals (st, ts) y) \<longrightarrow>
      (\<forall>t \<in> set ts. answered t) \<and> all_done (app_kg st))"
proof (intro conjI allI impI)
  show "\<nexists>f. f 0 = x \<and> (\<forall>m. service_step L no_arrivals (f m) (f (Suc m)))"
    using no_endless_run by blast
next
  fix st ts
  assume run: "service_run L no_arrivals x (st, ts) \<and> (\<nexists>y. service_step L no_arrivals (st, ts) y)"
  have "running_inv (stock (app_kg st0)) (st, ts)"
    using run service_run_inv running_inv_start assms(1,3) by blast
  with at_rest [OF this assms(2)] run show "(\<forall>t \<in> set ts. answered t)" "all_done (app_kg st)"
    by blast+
qed

theorem service_comes_to_rest_witness:
  "\<exists>st ts. service_run ref_libs UNIV (ref_app, []) (st, ts) \<and> live_worker (app_kg st) 0 ''h'' \<and>
     (\<nexists>f. f 0 = (st, ts) \<and> (\<forall>m. service_step ref_libs no_arrivals (f m) (f (Suc m))))"
proof -
  let ?st = "ref_app\<lparr>app_kg := register_worker ''h'' (app_kg ref_app)\<rparr>"
  obtain ts where run: "service_run ref_libs UNIV (ref_app, []) (?st, ts)"
    using ref_served [OF ref_pending, of UNIV "[]"] by auto
  have live: "live_worker (app_kg ?st) 0 ''h''"
    by (simp add: live_worker_def register_worker_def spawn_worker_def ref_app_def keygen_new_def)
  have "0 < stock (app_kg ref_app)"
    by simp
  note rest = service_comes_to_rest [OF ref_app_inv this run, THEN conjunct1]
  show ?thesis
    by (intro exI [of _ ?st] exI [of _ ts] conjI run live rest)
qed

text \<open>An administrator's rotation, up to the blocking pool.\<close>

definition ref_admin :: client_identity where
  "ref_admin = \<lparr>id_name = ''a'', id_role = Admin, prf_allowed = False\<rparr>"

abbreviation rotate_http :: "http_data request" where
  "rotate_http \<equiv> \<lparr>extension = Some ref_admin, payload = \<lparr>h_method = POST, h_path = ''/key/rotate'', h_data = Ok (DGroup ''g'')\<rparr>\<rparr>"

abbreviation take_permit :: "app_state \<Rightarrow> app_state" where
  "take_permit st \<equiv> st\<lparr>app_kg := (app_kg st)\<lparr>permits := permits (app_kg st) - 1\<rparr>\<rparr>"

text \<open>A thread that moves alone, behind any others.\<close>

lemma alone_last:
  assumes "alone st p st' p'" and "going_on \<subseteq> A"
  shows "service_run L A (st, ts @ \<lparr>sv_env = E, sv_req = req, sv_prog = p, sv_gone = False\<rparr> # us)
    (st', ts @ \<lparr>sv_env = E, sv_req = req, sv_prog = p', sv_gone = False\<rparr> # us)"
  using run_mono [OF alone_run [OF assms(1), of "length ts" "ts @ \<lparr>sv_env = E, sv_req = req, sv_prog = p, sv_gone = False\<rparr> # us" L]
      assms(2)]
  by simp

text \<open>A rotation on its own, up to the read of the key id.\<close>

abbreviation key_reply :: "(app_error + key_response) prog \<Rightarrow> reply prog" where
  "key_reply p \<equiv> reply_with p (\<lambda>k. (200, key_json k))"

definition read_back :: "libs \<Rightarrow> req_env \<Rightarrow> bytes \<Rightarrow> (app_error + key_response) prog" where
  "read_back L E spki = Section (Some 3) Inline False (\<lambda>st. Some (st, Return
     (case kg_active_key (rq_engine E 0) (app_kg st) ''g'' of
        Err e \<Rightarrow> Err (Internal e)
      | Ok None \<Rightarrow> Err (Internal ''key vanished after rotate'')
      | Ok (Some (key_id, _)) \<Rightarrow> Ok (key_response_ready L ''g'' spki key_id))))"

lemma rotate_http_prog:
  "handle_prog L E st rotate_http = key_reply (Section None Inline False (\<lambda>st.
     case check_key_rate_limit E st ref_admin of
       (Err e, st) \<Rightarrow> Some (st, Return (Err e))
     | (Ok _, st) \<Rightarrow> Some (st, bind_prog (rotate_prog L (rq_key E) (rq_join E) ''g'') (\<lambda>r.
         case r of Err e \<Rightarrow> Return (Err (Internal e)) | Ok spki \<Rightarrow> read_back L E spki))))"
proof -
  have valid: "bind_res (require_sign_surface ref_admin) (\<lambda>_. validate_id ''g'' ''group_id'') = Ok ()" "is_admin ref_admin"
    by (simp_all add: require_sign_surface_def ref_admin_def may_sign_def is_admin_def validate_id_def MAX_ID_LEN_def)
  have "handle_prog L E st rotate_http = key_reply (rotate_key_prog L E ref_admin ''g'')"
    by (simp add: handle_prog_def find_route_def router_def base_routes_def from_request_parts_def route_prog_def)
  then show ?thesis
    unfolding rotate_key_prog_def read_back_def by (simp only: valid sum.case not_True_eq_False if_False)
qed

lemma going_on_connected: "going_on \<subseteq> connected"
  by auto

lemma alone_section: "f st = Some (st1, p1) \<Longrightarrow> alone st1 p1 st2 p2 \<Longrightarrow> alone st (Section i pl h f) st2 p2"
  by (rule alone.go [OF moves.step]) simp_all

lemma rotate_to_pool:
  assumes "check_key_rate_limit E st ref_admin = (Ok (), st1)" and "\<not> closed (app_kg st1)" and "permits (app_kg st1) \<noteq> 0"
  shows "\<exists>f. alone st (handle_prog L E st rotate_http) (take_permit st1) (Section (Some 1) Pool True f)"
  unfolding rotate_http_prog rotate_prog_def bind_prog.simps
  by (insert assms, rule exI, rule alone_section, simp del: One_nat_def, rule alone_section, simp del: One_nat_def,
      rule alone.stop)

lemma start_rotation:
  assumes "check_key_rate_limit ref_env st ref_admin = (Ok (), st1)" and "\<not> closed (app_kg st1)" and "permits (app_kg st1) \<noteq> 0"
  shows "\<exists>f. service_run ref_libs UNIV (st, ts) (take_permit st1, ts @ [\<lparr>sv_env = ref_env, sv_req = rotate_http,
    sv_prog = Section (Some 1) Pool True f, sv_gone = False\<rparr>])"
proof -
  obtain f where f: "alone st (handle_prog ref_libs ref_env st rotate_http) (take_permit st1) (Section (Some 1) Pool True f)"
    using rotate_to_pool [OF assms] by blast
  have "service_run ref_libs UNIV (st, ts) (st, ts @ [\<lparr>sv_env = ref_env, sv_req = rotate_http,
      sv_prog = handle_prog ref_libs ref_env st rotate_http, sv_gone = False\<rparr>])"
    by (intro run_step service_step.action [of "NewRequest ref_env rotate_http"]) simp_all
  from run_trans [OF this alone_last [OF f subset_UNIV, of ref_libs ts ref_env _ "[]"]] show ?thesis
    by blast
qed

text \<open>
  C13. The cap bounds rotations only while clients stay. The permit of a rotation belongs to the future of its
  request, which is dropped when the client goes away, while the rotation goes on in the blocking
  pool: a service with a single permit can be made to run two rotations at once.
\<close>

theorem cancelled_rotation_exceeds_cap:
  "\<exists>L st0 st ts. server_inv st0 \<and> stock (app_kg st0) = 1 \<and> service_run L UNIV (st0, []) (st, ts) \<and> rotations ts = 2"
proof -
  let ?st0 = "ref_app\<lparr>app_kg := keygen_new ref_db ref_kek 2048 1\<rparr>"
  let ?rl = "\<lambda>l. \<lparr>per_identity = [''a'' \<mapsto> l], krl_global = l\<rparr>"
  let ?st1 = "?st0\<lparr>app_key_rl := ?rl [5]\<rparr>" and ?st2 = "?st0\<lparr>app_key_rl := ?rl [5, 5]\<rparr>"
  have limit: "check_key_rate_limit ref_env ?st0 ref_admin = (Ok (), ?st1)"
    "check_key_rate_limit ref_env ?st1 ref_admin = (Ok (), ?st2)"
    by (simp_all add: check_key_rate_limit_def check_at_def checked_sub_def prune_def bucket_of_def ref_limiter_def
        krl_new_def krl_state0_def ref_admin_def Let_def)
  have open_: "\<not> closed (app_kg ?st1)" "permits (app_kg ?st1) = 1"
    by (simp_all add: keygen_new_def)
  obtain f where 1: "service_run ref_libs UNIV (?st0, []) (take_permit ?st1, [\<lparr>sv_env = ref_env, sv_req = rotate_http,
      sv_prog = Section (Some 1) Pool True f, sv_gone = False\<rparr>])"
    using start_rotation [OF limit(1) open_(1), of "[]"] open_(2) by auto
  let ?gone = "[\<lparr>sv_env = ref_env, sv_req = rotate_http, sv_prog = Section (Some 1) Pool True f, sv_gone = True\<rparr>]"
  have 2: "service_run ref_libs UNIV (take_permit ?st1, [\<lparr>sv_env = ref_env, sv_req = rotate_http,
      sv_prog = Section (Some 1) Pool True f, sv_gone = False\<rparr>]) (?st1, ?gone)"
    by (intro run_step service_step.action [of "Disconnect 0"]) (simp_all add: owned_def release_permit_def keygen_new_def)
  obtain f' where 3: "service_run ref_libs UNIV (?st1, ?gone) (take_permit ?st2, ?gone @ [\<lparr>sv_env = ref_env, sv_req = rotate_http,
      sv_prog = Section (Some 1) Pool True f', sv_gone = False\<rparr>])"
    using start_rotation [OF limit(2), of ?gone] by (auto simp: keygen_new_def)
  have inv: "server_inv ?st0" "stock (app_kg ?st0) = 1"
    using ref_app_inv by (simp_all add: server_inv_def good_def kg_inv_def channels_fresh_def live_worker_def ref_app_def
        keygen_new_def stock_def busy_def)
  show ?thesis
    by (rule exI [of _ ref_libs], rule exI [of _ ?st0], intro exI conjI, rule inv(1), rule inv(2),
        rule run_trans [OF 1 run_trans [OF 2 3]]) (simp add: rotations_def)
qed

subsection \<open>Racing rotations\<close>

lemma rotation_alone:
  assumes "check_key_rate_limit E st ref_admin = (Ok (), st1)" and "\<not> closed (app_kg st1)" and "permits (app_kg st1) \<noteq> 0"
    and "rq_join E = None"
    and "rotate_key L (rq_key E) (app_db st1) (kg_kek (app_kg st1)) ''g'' (kg_bits (app_kg st1)) = (Ok spki, d)"
  shows "alone st (handle_prog L E st rotate_http) (set_db d st1) (key_reply (read_back L E spki))"
proof -
  have "set_db d st1 = release_permit (set_db d (take_permit st1))"
    using assms(3) by (simp add: release_permit_def set_db_def)
  then show ?thesis
    using assms unfolding rotate_http_prog rotate_prog_def await_rotation_def
    by (auto intro!: alone.go [OF moves.step] alone.stop)
qed

lemma read_back_alone:
  assumes "kg_active_key (rq_engine E 0) (app_kg st) ''g'' = Ok (Some (i, pk))"
  shows "alone st (key_reply (read_back L E spki)) st
    (Return (Reply \<lparr>status_code = 200, resp_body = key_json (key_response_ready L ''g'' spki i)\<rparr>))"
  using assms by (auto simp: read_back_def render_def intro!: alone_move moves.step)

text \<open>Rotations in the reference service.\<close>

abbreviation key_env_of :: "bytes \<Rightarrow> key_env" where
  "key_env_of kp \<equiv> ref_key_env\<lparr>env_gen := (\<lambda>_. Ok kp)\<rparr>"

lemma ref_rotate_any:
  assumes "keys_inv d" and "group_keys_seq d < i64_max"
  shows "\<exists>d'. rotate_key ref_libs (key_env_of [a, b, c]) d ref_kek ''g'' 2048 = (Ok [a + 1, b + 1, c + 1], d') \<and>
    keys_inv d' \<and> group_keys_seq d' = group_keys_seq d + 1 \<and> active_pub d' ''g'' = Some (group_keys_seq d', [a + 1, b + 1, c + 1])"
proof -
  have gen: "generate_group_key ref_libs (env_gen (key_env_of [a, b, c])) 2048 =
      Ok \<lparr>pkcs8_der = [a, b, c], spki_der = [a + 1, b + 1, c + 1]\<rparr>"
    by (simp add: generate_group_key_def MAX_ATTEMPTS_def numeral_eq_Suc export_key_def ref_libs_def)
  have "\<exists>d'. rotate_key_sealed ok_engine (env_clock ref_key_env) d ''g'' [a + 1, b + 1, c + 1]
      (\<lambda>key_id. seal ref_libs ref_nonce ref_kek ''g'' key_id [a, b, c]) = (Ok (group_keys_seq d + 1), d')"
    using assms(2) by (simp add: rotate_sealed_Ok_iff [OF assms(1)] ref_seal)
  then obtain d' where r: "rotate_key ref_libs (key_env_of [a, b, c]) d ref_kek ''g'' 2048 = (Ok [a + 1, b + 1, c + 1], d')"
    using gen by (auto simp: rotate_key_def)
  moreover have "group_keys_seq d' = group_keys_seq d + 1"
    using assms(1) r by (rule rotate_key_Ok) (simp add: with_new_key_def Let_def retire_active_def)
  ultimately show ?thesis
    using rotate_key_inv [OF assms(1) r] ks.rotate_done [OF assms(1) r] by auto
qed

lemma rotation_run:
  assumes "check_key_rate_limit E st ref_admin = (Ok (), st1)" and "\<not> closed (app_kg st1)" and "permits (app_kg st1) \<noteq> 0"
    and "rq_join E = None" and "drawn_refs E"
    and "rotate_key L (rq_key E) (app_db st1) (kg_kek (app_kg st1)) ''g'' (kg_bits (app_kg st1)) = (Ok spki, d)"
  shows "service_run L connected (st, ts) (set_db d st1, ts @ [\<lparr>sv_env = E, sv_req = rotate_http,
    sv_prog = key_reply (read_back L E spki), sv_gone = False\<rparr>])"
proof -
  have "service_run L connected (st, ts) (st, ts @ [\<lparr>sv_env = E, sv_req = rotate_http,
      sv_prog = handle_prog L E st rotate_http, sv_gone = False\<rparr>])"
    using assms(5) by (intro run_step service_step.action [of "NewRequest E rotate_http"]) auto
  from run_trans [OF this alone_last [OF rotation_alone [OF assms(1-4,6)] going_on_connected, of L ts E _ "[]"]]
  show ?thesis .
qed

text \<open>Two rotations by the reference administrator, the second one rotating before the first one reads back.\<close>

abbreviation env_of :: "bytes \<Rightarrow> req_env" where
  "env_of kp \<equiv> ref_env\<lparr>rq_key := key_env_of kp\<rparr>"

abbreviation rotation_thread :: "bytes \<Rightarrow> reply prog \<Rightarrow> thread" where
  "rotation_thread kp p \<equiv> \<lparr>sv_env = env_of kp, sv_req = rotate_http, sv_prog = p, sv_gone = False\<rparr>"

abbreviation reading_back :: "bytes \<Rightarrow> bytes \<Rightarrow> reply prog" where
  "reading_back kp pk \<equiv> key_reply (read_back ref_libs (env_of kp) pk)"

lemma ref_two_rotations:
  "\<exists>st i. service_run ref_libs connected (ref_app, [])
      (st, [rotation_thread [1, 2, 3] (reading_back [1, 2, 3] [2, 3, 4]), rotation_thread [7, 8, 9] (reading_back [7, 8, 9] [8, 9, 10])]) \<and>
    active_pub (app_db st) ''g'' = Some (i, [8, 9, 10])"
proof -
  let ?rl = "\<lambda>l. \<lparr>per_identity = [''a'' \<mapsto> l], krl_global = l\<rparr>"
  have limit: "check_key_rate_limit (env_of kp) ref_app ref_admin = (Ok (), ref_app\<lparr>app_key_rl := ?rl [5]\<rparr>)"
    "check_key_rate_limit (env_of kp) (set_db d (ref_app\<lparr>app_key_rl := ?rl [5]\<rparr>)) ref_admin =
       (Ok (), set_db d (ref_app\<lparr>app_key_rl := ?rl [5, 5]\<rparr>))" for kp d
    by (simp_all add: check_key_rate_limit_def check_at_def checked_sub_def prune_def bucket_of_def ref_limiter_def
        krl_new_def krl_state0_def ref_admin_def Let_def set_db_def)
  have kg: "kg_kek (app_kg ref_app) = ref_kek" "kg_bits (app_kg ref_app) = 2048" "\<not> closed (app_kg ref_app)"
    "permits (app_kg ref_app) = 2"
    by (simp_all add: ref_app_def keygen_new_def)
  have inv: "keys_inv ref_db" "group_keys_seq ref_db < i64_max"
    using ref_db_inv by (simp_all add: db_inv_def i64_max_def)
  obtain d1 where d1: "rotate_key ref_libs (key_env_of [1, 2, 3]) ref_db ref_kek ''g'' 2048 = (Ok [2, 3, 4], d1)"
    "keys_inv d1" "group_keys_seq d1 = 2"
    using ref_rotate_any [OF inv, of 1 2 3] by auto
  obtain d2 where d2: "rotate_key ref_libs (key_env_of [7, 8, 9]) d1 ref_kek ''g'' 2048 = (Ok [8, 9, 10], d2)"
    "active_pub d2 ''g'' = Some (group_keys_seq d2, [8, 9, 10])"
    using ref_rotate_any [OF d1(2), of 7 8 9] d1(3) by (auto simp: i64_max_def)
  let ?st1 = "ref_app\<lparr>app_key_rl := ?rl [5]\<rparr>" and ?st2 = "set_db d1 (ref_app\<lparr>app_key_rl := ?rl [5, 5]\<rparr>)"
  have drawn: "drawn_refs (env_of kp)" "rq_join (env_of kp) = None" for kp
    using ref_env_ok(4) by (simp_all add: drawn_refs_def)
  have 1: "service_run ref_libs connected (ref_app, []) (set_db d1 ?st1,
      [] @ [rotation_thread [1, 2, 3] (key_reply (read_back ref_libs (env_of [1, 2, 3]) [2, 3, 4]))])"
    using d1(1) kg drawn by (intro rotation_run [OF limit(1)]) simp_all
  have 2: "service_run ref_libs connected (set_db d1 ?st1, ts) (set_db d2 ?st2,
      ts @ [rotation_thread [7, 8, 9] (key_reply (read_back ref_libs (env_of [7, 8, 9]) [8, 9, 10]))])" for ts
    using d2(1) kg drawn by (intro rotation_run [OF limit(2)]) (simp_all add: set_db_def)
  have "service_run ref_libs connected (ref_app, []) (set_db d2 ?st2,
      [rotation_thread [1, 2, 3] (reading_back [1, 2, 3] [2, 3, 4]), rotation_thread [7, 8, 9] (reading_back [7, 8, 9] [8, 9, 10])])"
    by (rule run_trans [OF 1 [unfolded append_Nil] 2 [of "[_]", unfolded append_Nil append_Cons]])
  moreover have "active_pub (app_db (set_db d2 ?st2)) ''g'' = Some (group_keys_seq d2, [8, 9, 10])"
    using d2(2) by simp
  ultimately show ?thesis
    by blast
qed

text \<open>
  C15. A rotation answers its own new public key with the key id that is active when it reads it back. There is a
  run of the service, with an encoding of public keys that tells them apart and with no client going away, in
  which two administrators' requests rotate the same group and both are answered with the same key id,
  but with different public keys; the database has the key of the second under that id.
\<close>

theorem racing_rotations_mix_up_ids:
  "\<exists>L st0 st t t' pk pk' i. server_inv st0 \<and> inj (b64_encode L) \<and> service_run L connected (st0, []) (st, [t, t']) \<and>
     sv_req t = rotate_http \<and> sv_req t' = rotate_http \<and>
     sv_prog t = Return (Reply \<lparr>status_code = 200, resp_body = key_json (key_response_ready L ''g'' pk i)\<rparr>) \<and>
     sv_prog t' = Return (Reply \<lparr>status_code = 200, resp_body = key_json (key_response_ready L ''g'' pk' i)\<rparr>) \<and>
     pk \<noteq> pk' \<and> active_pub (app_db st) ''g'' = Some (i, pk')"
proof -
  obtain st i where run: "service_run ref_libs connected (ref_app, [])
      (st, [rotation_thread [1, 2, 3] (reading_back [1, 2, 3] [2, 3, 4]), rotation_thread [7, 8, 9] (reading_back [7, 8, 9] [8, 9, 10])])"
    and active: "active_pub (app_db st) ''g'' = Some (i, [8, 9, 10])"
    using ref_two_rotations by blast
  have act: "kg_active_key (rq_engine (env_of kp) 0) (app_kg st) ''g'' = Ok (Some (i, [8, 9, 10]))" for kp
    using active by (auto simp: kg_active_key_def active_key_def active_pub_def run_stmt_def split: option.splits)
  let ?answer = "\<lambda>pk. Return (Reply \<lparr>status_code = 200, resp_body = key_json (key_response_ready ref_libs ''g'' pk i)\<rparr>)"
  have read: "service_run ref_libs connected
      (st, ts @ rotation_thread kp (reading_back kp pk) # us) (st, ts @ rotation_thread kp (?answer pk) # us)" for kp pk ts us
    by (rule alone_last [OF read_back_alone [OF act] going_on_connected])
  note answered = run_trans [OF run run_trans [OF read [of "[]" _ _ "[_]", unfolded append_Nil]
      read [of "[_]" _ _ "[]", unfolded append_Nil append_Cons]]]
  have "inj (b64_encode ref_libs)"
    by (rule inj_on_inverseI [of _ str_bytes]) (simp add: ref_libs_def)
  moreover have "[2, 3, 4 :: 8 word] \<noteq> [8, 9, 10]"
    by simp
  ultimately show ?thesis
    using active by (intro exI conjI) (rule ref_app_inv, assumption, rule answered, simp, simp, simp, simp, assumption+)
qed

subsection \<open>Overlapping requests\<close>

text \<open>A \<open>/sign\<close> request up to the blocking pool, and its steps there.\<close>

lemma pool_alone:
  assumes "sign_step L E req bl pc st = (pc', st')" and "pc_result pc = None" and "pc = CountGlobal \<longrightarrow> pc' = CountParticipant"
  shows "alone st (sign_reply (sign_pool L E req bl pc)) st' (sign_reply (sign_pool L E req bl pc'))"
proof (rule alone_move)
  show "moves False (sign_reply (sign_pool L E req bl pc)) st st' (sign_reply (sign_pool L E req bl pc'))"
    using assms by (subst sign_pool.simps) (auto intro!: moves.step)
qed

lemma enter_pool:
  assumes "sign_validate L ref_client q = Ok bl" and "active_key (rq_engine E 0) (app_db st) (sr_group_id q) = Ok (Some k)"
    and "auto_create_keys st" and "rq_join E = None"
  shows "alone st (handle_prog L E st (sign_http q)) st (sign_reply (sign_pool L E q bl CountGlobal))"
proof -
  have "handle_prog L E st (sign_http q) = sign_reply (sign_prog L E st ref_client q)"
    by (simp add: handle_prog_def find_route_def router_def base_routes_def from_request_parts_def route_prog_def)
  then show ?thesis
    using assms by (auto simp: sign_prog_def sign_ready_prog_def wait_ready_prog_def ensure_prog_def
        intro!: alone_move moves.step)
qed

abbreviation ref_app_tight :: app_state where
  "ref_app_tight \<equiv> ref_app\<lparr>app_rate_limiter := rl_new 1 1 60\<rparr>"

abbreviation ref_row :: "int \<Rightarrow> string \<Rightarrow> issuance_row" where
  "ref_row i v \<equiv> \<lparr>is_id = i, is_group_id = ''g'', is_participant_id = ''p'', is_version_id = v, is_issued_at = 1000\<rparr>"

abbreviation with_rows :: "issuance_row list \<Rightarrow> app_state" where
  "with_rows rows \<equiv> set_db (ref_db\<lparr>issuances := rows, issuances_seq := int (length rows)\<rparr>) ref_app_tight"

abbreviation req_version :: "string \<Rightarrow> sign_request" where
  "req_version v \<equiv> ref_req\<lparr>sr_version_id := v\<rparr>"

abbreviation sign_thread_at :: "string \<Rightarrow> sign_pc \<Rightarrow> thread" where
  "sign_thread_at v pc \<equiv> \<lparr>sv_env = ref_env, sv_req = sign_http (req_version v),
     sv_prog = sign_reply (sign_pool ref_libs ref_env (req_version v) (str_bytes ''blinded'') pc), sv_gone = False\<rparr>"

lemma counted_alone:
  assumes "v \<in> {''v'', ''w''}"
  shows "alone (with_rows []) (handle_prog ref_libs ref_env (with_rows []) (sign_http (req_version v))) (with_rows [])
    (sign_reply (sign_pool ref_libs ref_env (req_version v) (str_bytes ''blinded'') Reserve))"
proof -
  let ?p = "sign_pool ref_libs ref_env (req_version v) (str_bytes ''blinded'')"
  have "alone (with_rows []) (handle_prog ref_libs ref_env (with_rows []) (sign_http (req_version v))) (with_rows [])
      (sign_reply (?p CountGlobal))"
  proof (rule enter_pool)
    show "sign_validate ref_libs ref_client (req_version v) = Ok (str_bytes ''blinded'')"
      using assms by (auto simp: sign_validate_def require_sign_surface_def validate_id_def MAX_ID_LEN_def
          MAX_BLINDED_B64_def ref_libs_def)
  qed (simp_all add: active_key_def ref_active run_stmt_def)
  moreover have "alone (with_rows []) (sign_reply (?p CountGlobal)) (with_rows []) (sign_reply (?p CountParticipant))"
    by (rule pool_alone) (simp_all add: sign_step_def ref_eval)
  moreover have "alone (with_rows []) (sign_reply (?p CountParticipant)) (with_rows []) (sign_reply (?p Reserve))"
    by (rule pool_alone) (simp_all add: sign_step_def ref_eval)
  ultimately show ?thesis
    by (blast intro: alone_trans)
qed

lemma issued_alone:
  assumes "(rows, v) = ([], ''v'') \<or> (rows, v) = ([ref_row 1 ''v''], ''w'')"
  shows "\<exists>r. alone (with_rows rows) (sign_reply (sign_pool ref_libs ref_env (req_version v) (str_bytes ''blinded'') Reserve))
    (with_rows (rows @ [ref_row (int (length rows) + 1) v])) (Return r) \<and> signature_reply r"
proof -
  let ?p = "sign_pool ref_libs ref_env (req_version v) (str_bytes ''blinded'')"
  let ?st = "with_rows (rows @ [ref_row (int (length rows) + 1) v])"
  have "alone (with_rows rows) (sign_reply (?p Reserve)) ?st (sign_reply (?p (Load (int (length rows) + 1))))"
    using assms by (intro pool_alone) (auto simp: sign_step_def ref_eval now_secs_def)
  moreover obtain x where "sign_step ref_libs ref_env (req_version v) (str_bytes ''blinded'') (Load (int (length rows) + 1)) ?st =
      (Signed (int (length rows) + 1) x, ?st)"
    by (simp add: sign_step_def ref_eval after_sign_def)
  from pool_alone [OF this] have "alone ?st (sign_reply (?p (Load (int (length rows) + 1)))) ?st
      (sign_reply (?p (Signed (int (length rows) + 1) x)))"
    by simp
  moreover have "\<exists>r. sign_reply (?p (Signed (int (length rows) + 1) x)) = Return r \<and> signature_reply r"
    by (subst sign_pool.simps) (simp add: render_Ok)
  ultimately show ?thesis
    by (elim exE conjE) (auto intro: alone_trans)
qed

lemma ref_forward: "NewRequest ref_env req \<in> forward_actions" "going_on \<subseteq> forward_actions"
  by (auto simp: forward_actions_def clock_forward_def)

lemma tight_inv: "server_inv (with_rows [])"
proof -
  have "ref_db\<lparr>issuances := [], issuances_seq := 0\<rparr> = ref_db"
    using ref_db_rows by (cases ref_db) simp
  then have "app_kg (with_rows []) = app_kg ref_app"
    by (simp add: set_db_def ref_app_def keygen_new_def)
  then show ?thesis
    using ref_app_inv by (simp add: server_inv_def)
qed

text \<open>
  C39. The bound of C7 is reached. With both ceilings at 1 there is a run of the service, under the conditions
  of C7 with \<open>K = 2\<close>, that reaches a state in which two requests have both been checked and nothing is
  recorded, and in which both are then signed, in the same second: the check and the reservation are
  separate, so that overlapping requests exceed the ceilings.
\<close>

theorem concurrent_requests_exceed_ceiling:
  "\<exists>L st0 sta ta ta' st t t'. server_inv st0 \<and> issuances (app_db st0) = [] \<and> app_rate_limiter st0 = rl_new 1 1 60 \<and>
     overlapping_run 2 L (st0, []) (sta, [ta, ta']) \<and> issuances (app_db sta) = [] \<and> overlap [ta, ta'] = 2 \<and>
     overlapping_run 2 L (sta, [ta, ta']) (st, [t, t']) \<and>
     signed_for t (''g'', ''p'', ''v'') \<and> signed_for t' (''g'', ''p'', ''w'') \<and>
     map is_issued_at (issuances (app_db st)) = [1000, 1000]"
proof -
  let ?t = "\<lambda>v p. \<lparr>sv_env = ref_env, sv_req = sign_http (req_version v), sv_prog = p, sv_gone = False\<rparr>"
  let ?h = "\<lambda>v. handle_prog ref_libs ref_env (with_rows []) (sign_http (req_version v))"
  let ?p = "\<lambda>v. sign_reply (sign_pool ref_libs ref_env (req_version v) (str_bytes ''blinded'') Reserve)"
  let ?run = "service_run ref_libs forward_actions"
  have arrive: "?run (with_rows [], ts) (with_rows [], ts @ [?t v (?h v)])" for v ts
    by (intro run_step service_step.action [of "NewRequest ref_env (sign_http (req_version v))"]) (simp_all add: ref_forward)
  have step: "?run (with_rows [], ts) (with_rows [], ts @ [?t v (?p v)])" if "v \<in> {''v'', ''w''}" for v ts
    by (rule run_trans [OF arrive alone_last [OF counted_alone [OF that] ref_forward(2), of ref_libs ts ref_env _ "[]"]])
  from run_trans [OF step [of "''v''" "[]"] step [of "''w''" "[] @ [?t ''v'' (?p ''v'')]"]]
  have counted: "?run (with_rows [], []) (with_rows [], [?t ''v'' (?p ''v''), ?t ''w'' (?p ''w'')])"
    by simp
  obtain r where r: "alone (with_rows []) (?p ''v'') (with_rows [ref_row 1 ''v'']) (Return r)" "signature_reply r"
    using issued_alone [of "[]" "''v''"] by auto
  obtain r' where r': "alone (with_rows [ref_row 1 ''v'']) (?p ''w'') (with_rows [ref_row 1 ''v'', ref_row 2 ''w'']) (Return r')"
      "signature_reply r'"
    using issued_alone [of "[ref_row 1 ''v'']" "''w''"] by auto
  note issued = run_trans [OF alone_last [OF r(1) ref_forward(2), of ref_libs "[]" ref_env _ "[?t ''w'' (?p ''w'')]", unfolded append_Nil append_Cons]
      alone_last [OF r'(1) ref_forward(2), of ref_libs "[?t ''v'' (Return r)]" ref_env _ "[]", unfolded append_Nil append_Cons]]
  have signed: "signed_for (?t ''v'' (Return r)) (''g'', ''p'', ''v'')" "signed_for (?t ''w'' (Return r')) (''g'', ''p'', ''w'')"
    by (simp_all add: signed_for_def r(2) r'(2))
  have "overlap [?t ''v'' (?p ''v''), ?t ''w'' (?p ''w'')] = 2"
    by (simp add: overlap_def past_count_def sign_pool.simps)
  then show ?thesis
    by (intro exI conjI) (rule tight_inv, simp, simp, rule few_requests [OF counted], simp, simp, assumption,
        rule few_requests [OF issued], simp, rule signed(1), rule signed(2), simp)
qed

end
