(* ===== verification/Access_Theorems.thy ===== *)
theory Access_Theorems
  imports Reference_Libs
begin

text \<open>
  The main theorems on who may do what and how often: the key-endpoint limiter, the
  classification of certificates, the identity a connection is pinned to, and the gates in front
  of the two surfaces.
\<close>

subsection \<open>The key-endpoint limiter\<close>

text \<open>
  C22. For requests that are checked in the order of their instants, none before the start of the clock, the
  limiter answers exactly as the reference does that keeps the whole history of allowed requests and
  counts those in the window, although it prunes its lists and, near the start of the clock, cannot
  compute a cutoff. The code reads the instant before it takes the lock, so that a request may overtake
  another one; such runs are not covered.
\<close>

theorem key_limiter_refines_history:
  assumes "sorted (lo # map snd rs)"
  shows "fst (krl_run cfg lo rs krl_state0) = fst (spec_run cfg rs [])"
  by (rule krl_run_refines [OF krl_rel_init assms]) simp

theorem key_limiter_refines_history_witness:
  "fst (krl_run (krl_new 1 2 1) 0 [(''a'', 5), (''a'', 6), (''b'', 7), (''c'', 8), (''a'', 1000000006)] krl_state0) =
     [KAllow, KDenyIdentity, KAllow, KDenyGlobal, KAllow]"
  using key_limiter_refines_history [of 0 "[(''a'', 5), (''a'', 6), (''b'', 7), (''c'', 8), (''a'', 1000000006)]"
      "krl_new 1 2 1"]
  by (simp add: window_spec_def recent_def krl_new_def del: krl_run.simps)

text \<open>
  C23. Over any run of requests that are checked in the order of their instants, in any window of the
  configured length at most \<open>global_max\<close> were allowed, and at most \<open>identity_max\<close> of one identity. Runs in which
  a request overtakes another one between its instant and the lock are not covered; the lemma
  \<open>overtaking_exceeds_ceiling\<close> below shows one that exceeds the ceiling.
\<close>

theorem key_limiter_within_ceilings:
  assumes "sorted (lo # map snd rs)"
  shows "in_window (key_window cfg) T (map snd (allowed rs (fst (krl_run cfg lo rs krl_state0)))) \<le>
      unat (key_global_max cfg) \<and>
    in_window (key_window cfg) T
      (map snd (filter (\<lambda>(j, _). j = i) (allowed rs (fst (krl_run cfg lo rs krl_state0))))) \<le> unat (identity_max cfg)"
  using key_limiter_bounded [OF assms, of cfg T Everyone] key_limiter_bounded [OF assms, of cfg T "Identity i"]
  by simp

theorem key_limiter_within_ceilings_witness:
  "in_window 1000000000 9 (map snd (allowed [(''a'', 5), (''b'', 7), (''c'', 8)]
     (fst (krl_run (krl_new 1 2 1) 0 [(''a'', 5), (''b'', 7), (''c'', 8)] krl_state0)))) \<le> 2"
  using key_limiter_within_ceilings [of 0 "[(''a'', 5), (''b'', 7), (''c'', 8)]" "krl_new 1 2 1" 9 "''a''"]
  by (simp add: krl_new_def del: krl_run.simps)

text \<open>
  The order matters: with both ceilings at 2, a third request checked before one whose instant is two nanoseconds
  earlier has the older entries pruned, and a window of one second then holds three.
\<close>

lemma overtaking_exceeds_ceiling:
  "let rs = [(''a'', 5), (''b'', 5), (''c'', 1000000006), (''d'', 1000000004)];
       times = map snd (allowed rs (fst (krl_run (krl_new 2 2 1) 0 rs krl_state0)))
   in in_window 1000000000 1000000004 times = 3"
  by (simp add: krl_new_def krl_state0_def check_at_def checked_sub_def prune_def bucket_of_def Let_def in_window_def
      allowed_def)

subsection \<open>Identities\<close>

text \<open>
  C24. The rights of a peer are decided by the lists its certificate names are on: it is rejected
  exactly when the client list is closed and no name is on any list; the PRF right, the admin
  right and the signing right each follow from their own lists, whatever else a name is on.
\<close>

theorem classify_decides:
  "(classify P cs = None \<longleftrightarrow> allowed_clients P \<noteq> {} \<and>
      set cs \<inter> (admins P \<union> allowed_clients P \<union> prf_clients P) = {}) \<and>
   (\<forall>i. classify P cs = Some i \<longrightarrow>
      (may_prf i \<longleftrightarrow> set cs \<inter> prf_clients P \<noteq> {}) \<and>
      (is_admin i \<longleftrightarrow> set cs \<inter> admins P \<noteq> {}) \<and>
      (may_sign i \<longleftrightarrow> set cs \<inter> admins P \<noteq> {} \<or> allowed_clients P = {} \<or> set cs \<inter> allowed_clients P \<noteq> {}) \<and>
      (id_name i \<in> set cs \<or> cs = [] \<and> id_name i = ''<unnamed-client>''))"
proof -
  have l: "listed cs S \<longleftrightarrow> set cs \<inter> S \<noteq> {}" for S
    by (auto simp: listed_def)
  have "classify P cs = None \<longleftrightarrow> allowed_clients P \<noteq> {} \<and>
      set cs \<inter> (admins P \<union> allowed_clients P \<union> prf_clients P) = {}"
    by (auto simp: classify_None_iff listed_def)
  moreover have "(may_prf i \<longleftrightarrow> set cs \<inter> prf_clients P \<noteq> {}) \<and> (is_admin i \<longleftrightarrow> set cs \<inter> admins P \<noteq> {}) \<and>
      (may_sign i \<longleftrightarrow> set cs \<inter> admins P \<noteq> {} \<or> allowed_clients P = {} \<or> set cs \<inter> allowed_clients P \<noteq> {}) \<and>
      (id_name i \<in> set cs \<or> cs = [] \<and> id_name i = ''<unnamed-client>'')"
    if "classify P cs = Some i" for i
    using classify_rights [OF that] classify_name [OF that] unfolding l by blast
  ultimately show ?thesis by blast
qed

theorem classify_decides_witness:
  "\<exists>i. classify \<lparr>allowed_clients = {''a''}, admins = {''b''}, prf_clients = {''m''}\<rparr> [''m''] = Some i \<and>
     may_prf i \<and> \<not> may_sign i \<and> id_name i = ''m''"
  using classify_decides [of "\<lparr>allowed_clients = {''a''}, admins = {''b''}, prf_clients = {''m''}\<rparr>" "[''m'']"]
  by (cases "classify \<lparr>allowed_clients = {''a''}, admins = {''b''}, prf_clients = {''m''}\<rparr> [''m'']") auto

text \<open>
  C25. A request on a TLS connection is answered exactly when the handshake completed in time with a
  certificate whose names the policy admits, and it is then handled under the identity of that
  certificate, whatever identity the request itself carries.
\<close>

theorem request_handled_under_certificate_identity:
  "serve L P hs E st req = Some (Ok (rep, st')) \<longleftrightarrow>
     (\<exists>t leaf rest i. hs = Some (t, Ok (Some (leaf # rest))) \<and> t \<le> 10000 \<and>
        classify P (identity_names_from_leaf L leaf) = Some i \<and>
        handle L E st (req\<lparr>extension := Some i\<rparr>) = Some (rep, st'))"
proof -
  have "serve L P hs E st req = Some (Ok (rep, st')) \<longleftrightarrow>
      (\<exists>i. accept L (acceptor_new P) hs = Ok i \<and> handle L E st (req\<lparr>extension := Some i\<rparr>) = Some (rep, st'))"
    by (cases "accept L (acceptor_new P) hs")
      (auto simp: serve_def connection_request_def identity_service_call_def)
  then show ?thesis
    unfolding accept_Ok_iff by (auto simp: acceptor_new_def DEFAULT_HANDSHAKE_TIMEOUT_def)
qed

subsection \<open>The two surfaces\<close>

text \<open>How a request with an identity is dispatched.\<close>

lemma handle_dispatch:
  assumes "handle L E st req = Some (rep, st')" and "extension req = Some i"
    and "h_path (payload req) \<noteq> ''/healthz''"
  obtains (unrouted) code where "rep = plain code" and "st' = st" and "code \<in> {404, 405}"
  | (rejected) code where "h_data (payload req) = Err code" and "rep = plain code" and "st' = st"
  | (routed) r q where "find_route (router st) (h_method (payload req)) (h_path (payload req)) = Ok r"
      and "h_data (payload req) = Ok q" and "handle_route L E st i r q = Some (rep, st')"
proof (cases "find_route (router st) (h_method (payload req)) (h_path (payload req))")
  case (Inl code)
  then have "code \<in> {404, 405}"
    by (auto simp: find_route_def ok_or_def split: option.splits if_splits)
  with Inl assms show thesis by (intro unrouted) (auto simp: handle_def)
next
  case (Inr r)
  have r: "r \<noteq> Healthz"
    using find_route_healthz Inr assms(3) by blast
  show thesis
  proof (cases "h_data (payload req)")
    case (Inl code)
    with Inr r assms show thesis
      by (intro rejected) (cases r; simp add: handle_def from_request_parts_def)+
  next
    case q: (Inr q)
    with Inr r assms(1,2) have "handle_route L E st i r q = Some (rep, st')"
      by (cases r) (simp_all add: handle_def from_request_parts_def)
    with Inr q show thesis by (rule routed)
  qed
qed

text \<open>
  C26. Whoever is not authorized for the PRF surface (the surface is off, the certificate is not on its
  list, or the pinned name is not) gets nothing from it: on its paths the answer is the fixed
  403, or a 404, 405, 422 or extraction error, and the state is unchanged, so that not even the
  rate budget of an authorized client is spent.
\<close>

theorem prf_surface_gated:
  assumes "h_path (payload req) \<in> set (map fst prf_routes)" and "extension req = Some i"
    and "\<not> prf_authorized st i" and "handle L E st req = Some (rep, st')"
  shows "st' = st \<and> (rep = Reply (into_response prf_forbidden) \<or> rep \<in> {plain 404, plain 405, plain 422} \<or>
    (\<exists>code. h_data (payload req) = Err code \<and> rep = plain code))"
proof -
  have path: "h_path (payload req) \<noteq> ''/healthz''"
    using assms(1) by (auto simp: prf_routes_def)
  from assms(4,2) path show ?thesis
  proof (cases rule: handle_dispatch)
    case (routed r q)
    have "app_prf st \<noteq> None"
      using routed(1) assms(1) prf_unmounted by force
    moreover have "r \<in> {Pairwise, Evaluate, PublicKey, Disclose, DedupRegister, DedupRelease, DedupReassign}"
      using find_route_prf [OF routed(1) assms(1)] .
    ultimately have "st' = st \<and> rep \<in> {Reply (into_response prf_forbidden), plain 422}"
      using handle_route_unauthorized [OF assms(3) _ _ routed(3)] by blast
    then show ?thesis by blast
  qed auto
qed

theorem prf_surface_gated_witness:
  "\<exists>rep. handle ref_libs ref_env ref_app \<lparr>extension = Some ref_client,
       payload = \<lparr>h_method = GET, h_path = ''/prf/public-key'', h_data = Ok DNone\<rparr>\<rparr> = Some (rep, ref_app) \<and>
     rep \<in> {Reply (into_response prf_forbidden), plain 404, plain 405, plain 422}"
proof -
  let ?req = "\<lparr>extension = Some ref_client,
       payload = \<lparr>h_method = GET, h_path = ''/prf/public-key'', h_data = Ok DNone\<rparr>\<rparr>"
  have no: "\<not> prf_authorized ref_app ref_client"
    by (simp add: prf_authorized_def)
  have "find_route (router ref_app) GET ''/prf/public-key'' = Ok PublicKey"
    by (simp add: find_route_def router_def base_routes_def prf_routes_def)
  then have "\<exists>rep st'. handle ref_libs ref_env ref_app ?req = Some (rep, st')"
    by (simp add: handle_def from_request_parts_def handle_route_def case_prod_unfold Let_def)
  then obtain rep st' where h: "handle ref_libs ref_env ref_app ?req = Some (rep, st')"
    by blast
  show ?thesis
    using prf_surface_gated [OF _ _ no h] h by (auto simp: prf_routes_def)
qed

text \<open>
  C27. A PRF-only identity has no access to the signing surface: on \<open>/sign\<close>, \<open>/key\<close> and
  \<open>/key/rotate\<close> it gets the fixed 403 (or a routing or extraction error), the state is unchanged,
  and in particular no key generation starts and no rate budget is spent.
\<close>

theorem sign_surface_gated:
  assumes "h_path (payload req) \<in> {''/sign'', ''/key'', ''/key/rotate''}" and "extension req = Some i"
    and "\<not> may_sign i" and "handle L E st req = Some (rep, st')"
  shows "st' = st \<and> (rep = Reply (into_response
      (Forbidden ''this identity is authorized only for the PRF surface'')) \<or>
    rep \<in> {plain 404, plain 405, plain 422} \<or> (\<exists>code. h_data (payload req) = Err code \<and> rep = plain code))"
proof -
  have path: "h_path (payload req) \<noteq> ''/healthz''"
    using assms(1) by auto
  from assms(4,2) path show ?thesis
  proof (cases rule: handle_dispatch)
    case (routed r q)
    have "r \<in> {Sign, GetKey, CreateKey, RotateKey}"
      using find_route_base [OF routed(1) assms(1)] .
    then show ?thesis
      using handle_route_no_sign [OF assms(3) _ routed(3)] by blast
  qed auto
qed

theorem sign_surface_gated_witness:
  "\<exists>rep. handle ref_libs ref_env ref_app \<lparr>extension = Some (ref_client\<lparr>id_role := Prf\<rparr>),
       payload = \<lparr>h_method = POST, h_path = ''/sign'', h_data = Ok (DSign ref_req)\<rparr>\<rparr> = Some (rep, ref_app) \<and>
     rep \<noteq> plain 200"
proof -
  let ?req = "\<lparr>extension = Some (ref_client\<lparr>id_role := Prf\<rparr>),
       payload = \<lparr>h_method = POST, h_path = ''/sign'', h_data = Ok (DSign ref_req)\<rparr>\<rparr>"
  have no: "\<not> may_sign (ref_client\<lparr>id_role := Prf\<rparr>)"
    by (simp add: may_sign_def)
  have "find_route (router ref_app) POST ''/sign'' = Ok Sign"
    by (simp add: find_route_def router_def base_routes_def)
  then have "\<exists>rep st'. handle ref_libs ref_env ref_app ?req = Some (rep, st')"
    using no by (simp add: handle_def from_request_parts_def handle_route_def sign_def sign_validate_def
        require_sign_surface_def)
  then obtain rep st' where h: "handle ref_libs ref_env ref_app ?req = Some (rep, st')"
    by blast
  show ?thesis
    using sign_surface_gated [OF _ _ no h] h by (auto simp: plain_def into_response_def)
qed

text \<open>
  C28. Only an admin identity rotates keys: a well-formed rotation request of any other identity is
  answered with 403 or 400 and changes nothing.
\<close>

theorem rotate_needs_admin:
  assumes "\<not> is_admin i" and "rotate_key_handler L E st i g = Some (res, st')"
  shows "st' = st \<and> (\<exists>e. res = Err e \<and> status_code (into_response e) \<in> {400, 403})"
  using assms by (auto simp: rotate_key_handler_def require_sign_surface_def validate_id_def
      into_response_def split: if_splits)

theorem rotate_needs_admin_witness:
  "\<exists>res. rotate_key_handler ref_libs ref_env ref_app ref_client ''g'' = Some (res, ref_app) \<and>
     (\<exists>e. res = Err e \<and> status_code (into_response e) \<in> {400, 403})"
proof -
  have "rotate_key_handler ref_libs ref_env ref_app ref_client ''g'' =
      Some (Err (Forbidden ''key rotation requires an admin client identity''), ref_app)"
    by (simp add: rotate_key_handler_def require_sign_surface_def validate_id_def MAX_ID_LEN_def)
  then show ?thesis
    using rotate_needs_admin [of ref_client ref_libs ref_env ref_app "''g''"] by auto
qed

end
