(* ===== verification/Ledger_Theorems.thy ===== *)
theory Ledger_Theorems
  imports Reference_Libs
begin

text \<open>
  The main theorems on the PRF surface: the inputs of its keyed functions are unambiguous, a disclosure
  never panics, an entry lives from its registration to its owner's release, and a reassignment
  moves all of its entries or none.
\<close>

subsection \<open>Framing\<close>

text \<open>
  C29. The inputs of the keyed functions are unambiguous: the dedup input determines the identity and
  badge type it was built from, the disclosure message determines the value and client, the
  disclosure key's info string determines the client, and a dedup input is never a disclosure
  message.
\<close>

theorem prf_inputs_unambiguous:
  "(dedup_input s b = Some m \<and> dedup_input s' b' = Some m \<longrightarrow> s = s' \<and> b = b') \<and>
   (disclose_msg n c = Some m \<and> disclose_msg n' c' = Some m \<longrightarrow> n = n' \<and> c = c') \<and>
   (disclose_info c = Some j \<and> disclose_info c' = Some j \<longrightarrow> c = c') \<and>
   (dedup_input s b = Some m \<longrightarrow> disclose_msg n c \<noteq> Some m)"
proof -
  have tags: "str_bytes TAG_DEDUP \<noteq> str_bytes TAG_RP"
    by (simp add: TAG_DEDUP_def TAG_RP_def)
  have "s = s' \<and> b = b'" if "dedup_input s b = Some m" "dedup_input s' b' = Some m"
    using that frame_inj [of "[str_bytes TAG_PROTOCOL, str_bytes TAG_DEDUP, str_bytes s, str_bytes b]"
        "[str_bytes TAG_PROTOCOL, str_bytes TAG_DEDUP, str_bytes s', str_bytes b']"]
    by (simp add: dedup_input_Some_iff del: frame.simps)
  moreover have "n = n' \<and> c = c'" if "disclose_msg n c = Some m" "disclose_msg n' c' = Some m"
    using that frame_inj [of "[str_bytes TAG_PROTOCOL, str_bytes TAG_RP, n, str_bytes c]"
        "[str_bytes TAG_PROTOCOL, str_bytes TAG_RP, n', str_bytes c']"]
    by (simp add: disclose_msg_Some_iff del: frame.simps)
  moreover have False if "dedup_input s b = Some m" "disclose_msg n c = Some m"
    using that tags frame_inj [of "[str_bytes TAG_PROTOCOL, str_bytes TAG_DEDUP, str_bytes s, str_bytes b]"
        "[str_bytes TAG_PROTOCOL, str_bytes TAG_RP, n, str_bytes c]"]
    by (simp add: dedup_input_Some_iff disclose_msg_Some_iff del: frame.simps str_bytes_inj)
  ultimately show ?thesis
    using disclose_info_inj by blast
qed

theorem prf_inputs_unambiguous_witness:
  "(\<exists>m. dedup_input ''ab'' ''c'' = Some m) \<and> dedup_input ''ab'' ''c'' \<noteq> dedup_input ''a'' ''bc''"
proof -
  obtain m where m: "dedup_input ''ab'' ''c'' = Some m"
    by (auto simp: dedup_input_Some_iff fits_def)
  then show ?thesis
    using prf_inputs_unambiguous [of "''ab''" "''c''" m "''a''" "''bc''"] by auto
qed

subsection \<open>Disclosure\<close>

text \<open>
  C30. In every state of the running service each request gets a response, whatever other tasks do
  meanwhile: the framing assertion inside a disclosure is never violated, since stored values and
  client ids are short enough.
\<close>

theorem no_request_aborts:
  assumes "ct_eq_spec L" and "hkdf_spec L" and "server_inv st" and "env_within develops E"
    and "handle L E st req = Some (rep, st')"
  shows "rep \<noteq> Aborted"
proof -
  have answered: "fst (prf_disclose L E st i q) \<noteq> Ok None" for i q
    using disclose_answered [OF assms(1,2)] task_db_ok [OF assms(3,4)] by blast
  have "rep \<noteq> Aborted" if "handle_route L E st i r q = Some (rep, st')" for i r q
    using that answered by (cases r; cases q) (auto simp: handle_route_def render_def plain_def case_prod_unfold Let_def)
  with assms(5) show ?thesis
    by (auto simp: handle_def plain_def split: sum.splits route.splits)
qed

theorem no_request_aborts_witness:
  "\<exists>rep st'. handle ref_libs ref_env ref_app \<lparr>extension = Some ref_minister,
       payload = \<lparr>h_method = POST, h_path = ''/prf/disclose'', h_data = Ok (DDisclose
         \<lparr>dq_entry_ref = ''x'', dq_owner_handle = ''o'', dq_client_id = ''c''\<rparr>)\<rparr>\<rparr> = Some (rep, st') \<and> rep \<noteq> Aborted"
proof -
  let ?req = "\<lparr>extension = Some ref_minister,
       payload = \<lparr>h_method = POST, h_path = ''/prf/disclose'', h_data = Ok (DDisclose
         \<lparr>dq_entry_ref = ''x'', dq_owner_handle = ''o'', dq_client_id = ''c''\<rparr>)\<rparr>\<rparr>"
  have "find_route (router ref_app) POST ''/prf/disclose'' = Ok Disclose"
    by (simp add: find_route_def router_def base_routes_def prf_routes_def)
  then obtain rep st' where h: "handle ref_libs ref_env ref_app ?req = Some (rep, st')"
    by (auto simp: handle_def from_request_parts_def handle_route_def case_prod_unfold Let_def)
  with no_request_aborts [OF ref_ct_eq ref_hkdf_spec ref_app_inv ref_env_within [OF dv.stay] h] show ?thesis by blast
qed

text \<open>
  C31. The life of an entry: what a registration answers is a reference that its owner can disclose
  to any client, with a nullifier as the answer, and release; after the release the value is
  free again.
\<close>

theorem entry_life_cycle:
  assumes "ct_eq_spec L" and "b64url_spec L" and "hkdf_spec L" and "server_inv st"
    and "env_within develops E" and "drawn_refs E" and "dedup_register L E st i rq = (Ok resp, st1)"
    and "joined E2" and "faultless E2"
    and "require_prf E2 st1 j = (Ok pst, st2)"
    and "c \<noteq> []" and "length c \<le> MAX_CLIENT_ID_LEN"
  shows "(\<exists>nul. fst (prf_disclose L E2 st1 j \<lparr>dq_entry_ref = rr_entry_ref resp,
        dq_owner_handle = rg_owner_handle rq, dq_client_id = c\<rparr>) = Ok (Some (NULLIFIER_PREFIX @ nul))) \<and>
    (\<exists>v ref. register_validate L rq = Ok v \<and> (\<exists>b. ledger (app_db st1) ref = Some (v, rg_owner_handle rq, b)) \<and>
      (\<exists>st3. dedup_release_handler L E2 st1 j \<lparr>rl_entry_ref = rr_entry_ref resp,
        rl_owner_handle = rg_owner_handle rq\<rparr> = (Ok ''released'', st3) \<and>
        (\<forall>r o' b. ledger (app_db st3) r \<noteq> Some (v, o', b))))"
proof -
  have rng: "\<forall>r. rq_rng E = Ok r \<longrightarrow> length r = ENTRY_REF_LEN"
    using assms(6) by (simp add: drawn_refs_def)
  obtain ref v b where val: "register_validate L rq = Ok v" and resp: "rr_entry_ref resp = b64url_encode L ref"
    and len: "length ref = ENTRY_REF_LEN" and led: "ledger (app_db st1) ref = Some (v, rg_owner_handle rq, b)"
    and own: "length (rg_owner_handle rq) \<le> MAX_OWNER_HANDLE_LEN" "rg_owner_handle rq \<noteq> []"
    using register_served [OF rng assms(1) task_db_ok(2,1) [OF assms(4,5)] assms(7)] by metis
  let ?dq = "\<lparr>dq_entry_ref = rr_entry_ref resp, dq_owner_handle = rg_owner_handle rq, dq_client_id = c\<rparr>"
  let ?lq = "\<lparr>rl_entry_ref = rr_entry_ref resp, rl_owner_handle = rg_owner_handle rq\<rparr>"
  have dec: "decode_entry_ref L (rr_entry_ref resp) = Ok ref"
    unfolding resp by (rule decode_encode_ref [OF assms(2) len])
  have dq: "disclose_validate L ?dq = Ok ref" and rv: "release_validate L ?lq = Ok ref"
    using own assms(11,12) by (simp_all add: disclose_validate_def release_validate_def dec validate_text_def)
  have f: "stmt_fault (rq_engine E2 0) 0 = None" "\<forall>k. stmt_fault (rq_engine E2 0) k = None"
    using assms(9) by (simp_all add: faultless_def)
  have inv1: "server_inv st1"
    using develops_inv [OF assms(4) ledger_endpoints_dev(1) [OF assms(5,6)], of L i rq] assms(7) by simp
  have "fst (prf_disclose L E2 st1 j ?dq) = Ok (disclose L (ps_keys pst) v c)"
    using disclose_served [OF assms(8) f(1) assms(1,10) dq] led by simp
  moreover obtain nul where "disclose L (ps_keys pst) v c = Some (NULLIFIER_PREFIX @ nul)"
    using disclose_no_panic [OF assms(3) _ led assms(12)] inv1 by (auto simp: server_inv_def)
  ultimately have "\<exists>nul. fst (prf_disclose L E2 st1 j ?dq) = Ok (Some (NULLIFIER_PREFIX @ nul))"
    by simp
  moreover have linv: "ledger_inv (app_db st1)"
    using inv1 by (simp add: server_inv_def db_inv_def)
  have "ledger (app_db (snd (dedup_release_handler L E2 st1 j ?lq))) = (ledger (app_db st1))(ref := None)"
    using release_served(2) [OF assms(8) f(2) assms(1,10) rv] led by simp
  then have "ledger (app_db (snd (dedup_release_handler L E2 st1 j ?lq))) r \<noteq> Some (v, o', b')" for r o' b'
    using ledger_value_unique [OF linv led, of r o' b'] by auto
  then have "\<exists>st3. dedup_release_handler L E2 st1 j ?lq = (Ok ''released'', st3) \<and>
      (\<forall>r o' b. ledger (app_db st3) r \<noteq> Some (v, o', b))"
    using release_served(1) [OF assms(8) f(2) assms(1,10) rv] led
    by (cases "dedup_release_handler L E2 st1 j ?lq") auto
  ultimately show ?thesis
    using val led by blast
qed

theorem entry_life_cycle_witness:
  "\<exists>resp st1 nul. dedup_register ref_libs ref_env ref_app ref_minister ref_register = (Ok resp, st1) \<and>
     fst (prf_disclose ref_libs ref_env st1 ref_minister \<lparr>dq_entry_ref = rr_entry_ref resp,
       dq_owner_handle = ''o'', dq_client_id = ''shop''\<rparr>) = Ok (Some (NULLIFIER_PREFIX @ nul))"
proof -
  obtain resp st1 where reg: "dedup_register ref_libs ref_env ref_app ref_minister ref_register = (Ok resp, st1)"
    and p: "app_prf st1 = Some (ref_prf [5])"
    using ref_registered by blast
  have "require_prf ref_env st1 ref_minister = (Ok (ref_prf [5, 5]), st1\<lparr>app_prf := Some (ref_prf [5, 5])\<rparr>)"
    using ref_require [OF p] by simp
  from entry_life_cycle [OF ref_ct_eq ref_b64url_spec ref_hkdf_spec ref_app_inv ref_env_within [OF dv.stay] ref_env_ok(4) reg
      ref_env_ok(3,2) this,
      of "''shop''"] reg
  show ?thesis by (auto simp: MAX_CLIENT_ID_LEN_def)
qed

subsection \<open>Ownership\<close>

text \<open>
  C32. Over any history of ledger calls, with or without database faults, an entry stays recorded with
  its value, owner and badge type unless its owner releases it or moves it to somebody else; and
  while it stands, a registration of its value is answered \<open>AlreadyYours\<close> to its owner and
  \<open>Taken\<close> to everyone else.
\<close>

theorem owner_keeps_entry:
  assumes "ledger_inv d" and "ct_eq_spec L" and "ledger d ref = Some (v, own, b)"
    and "\<forall>c \<in> set cs. \<not> gives_up own ref (snd c)"
  shows "ledger (exec_calls L cs d) ref = Some (v, own, b) \<and>
    (\<forall>eng clk r2 other b2 x d'. register_dedup L eng clk (exec_calls L cs d) r2 v other b2 = (Ok x, d') \<longrightarrow>
       d' = exec_calls L cs d \<and> x = (if other = own then AlreadyYours ref else Taken))"
proof -
  have keep: "ledger_inv (exec_calls L cs d)" "ledger (exec_calls L cs d) ref = Some (v, own, b)"
    using exec_calls_keeps [OF assms] by blast+
  show ?thesis
    using keep register_present [OF keep(1) assms(2) keep(2)] by (auto simp: eq_commute)
qed

theorem owner_keeps_entry_witness:
  "ledger (exec_calls ref_libs [((ok_engine, 7), Register [9] [2] ''thief'' ''b''), ((ok_engine, 8), Release [1] ''thief''),
      ((ok_engine, 9), Reassign [[1]] ''thief'' ''fence'')] ref_ledger_db) [1] = Some ([2], ''o'', ''b'')"
  using owner_keeps_entry [of ref_ledger_db ref_libs "[1]" "[2]" "''o''" "''b''" "[((ok_engine, 7), Register [9] [2] ''thief'' ''b''),
      ((ok_engine, 8), Release [1] ''thief''), ((ok_engine, 9), Reassign [[1]] ''thief'' ''fence'')]"]
  by (simp del: exec_calls.simps)

text \<open>
  C33. A reassignment moves all of its entries or none. When it succeeds every listed entry belonged
  to one of the two owners and now belongs to the new one, with value and badge type kept, no
  other entry has changed, and the count is the number of distinct entries that moved. When it
  does not succeed nothing has changed, and with a working database and entries that all belong to
  the two owners it does succeed.
\<close>

theorem reassign_all_or_nothing:
  assumes "ct_eq_spec L" and "from \<noteq> to" and "reassign_dedup L eng d refs from to = (res, d')"
  shows "(\<forall>n. res = Ok (Reassigned n) \<longrightarrow>
      ledger d' = retag (set refs) to (ledger d) \<and>
      (\<forall>ref \<in> set refs. owned_by (ledger d) from ref \<or> owned_by (ledger d) to ref) \<and>
      n = card {ref \<in> set refs. owned_by (ledger d) from ref}) \<and>
    ((\<forall>n. res \<noteq> Ok (Reassigned n)) \<longrightarrow> d' = d) \<and>
    ((\<forall>j. stmt_fault eng j = None) \<and> (\<forall>ref \<in> set refs. owned_by (ledger d) from ref \<or> owned_by (ledger d) to ref) \<longrightarrow>
      (\<exists>n. res = Ok (Reassigned n)))"
proof (intro conjI)
  show "\<forall>n. res = Ok (Reassigned n) \<longrightarrow>
      ledger d' = retag (set refs) to (ledger d) \<and>
      (\<forall>ref \<in> set refs. owned_by (ledger d) from ref \<or> owned_by (ledger d) to ref) \<and>
      n = card {ref \<in> set refs. owned_by (ledger d) from ref}"
  proof (intro allI impI)
    fix n
    assume "res = Ok (Reassigned n)"
    with assms(3) have loop: "reassign_loop L eng from to 2 0 d refs = Inr (n, d')"
      by (simp add: reassign_Reassigned_iff)
    show "ledger d' = retag (set refs) to (ledger d) \<and>
      (\<forall>ref \<in> set refs. owned_by (ledger d) from ref \<or> owned_by (ledger d) to ref) \<and>
      n = card {ref \<in> set refs. owned_by (ledger d) from ref}"
      using reassign_loop_Inr [OF assms(1) loop] reassign_loop_count [OF assms(1,2) loop] by simp
  qed
  show "(\<forall>n. res \<noteq> Ok (Reassigned n)) \<longrightarrow> d' = d"
    using reassign_other [OF assms(3)] by blast
  show "(\<forall>j. stmt_fault eng j = None) \<and>
      (\<forall>ref \<in> set refs. owned_by (ledger d) from ref \<or> owned_by (ledger d) to ref) \<longrightarrow> (\<exists>n. res = Ok (Reassigned n))"
  proof
    assume *: "(\<forall>j. stmt_fault eng j = None) \<and>
      (\<forall>ref \<in> set refs. owned_by (ledger d) from ref \<or> owned_by (ledger d) to ref)"
    then obtain n d1 where "reassign_loop L eng from to 2 0 d refs = Inr (n, d1)"
      using reassign_loop_total [OF assms(1,2)] by blast
    with * assms(3) show "\<exists>n. res = Ok (Reassigned n)"
      using reassign_Reassigned_iff [of L eng d refs "from" to n d1] by auto
  qed
qed

theorem reassign_all_or_nothing_witness:
  "\<exists>n d'. reassign_dedup ref_libs ok_engine ref_ledger_db [[1], [1]] ''o'' ''q'' = (Ok (Reassigned n), d') \<and>
     n = 1 \<and> ledger d' [1] = Some ([2], ''q'', ''b'')"
proof -
  obtain res d' where r: "reassign_dedup ref_libs ok_engine ref_ledger_db [[1], [1]] ''o'' ''q'' = (res, d')"
    by (cases "reassign_dedup ref_libs ok_engine ref_ledger_db [[1], [1]] ''o'' ''q''")
  have own: "owned_by (ledger ref_ledger_db) ''o'' [1]" "{ref. ref = [1 :: 8 word]} = {[1]}"
    by (auto simp: owned_by_def)
  note all = reassign_all_or_nothing [OF ref_ct_eq _ r]
  obtain n where n: "res = Ok (Reassigned n)"
    using all own by auto
  have "n = card {ref \<in> set [[1], [1]]. owned_by (ledger ref_ledger_db) ''o'' ref}"
    "ledger d' = retag (set [[1], [1]]) ''q'' (ledger ref_ledger_db)"
    using all n by auto
  moreover have "{ref \<in> set [[1], [1]]. owned_by (ledger ref_ledger_db) ''o'' ref} = {[1]}"
    using own by auto
  ultimately show ?thesis
    using r n by (simp add: retag_def)
qed

end
