(* ===== verification/Boot_Theorems.thy ===== *)
theory Boot_Theorems
  imports Reference_Libs
begin

text \<open>
  The main theorems on the start of a node: when the PRF surface comes up, what a boot writes, how
  initialisation, import and boot fit together, and what remains of the secrets.
\<close>

subsection \<open>A concrete node\<close>

lemma trim_by_none:
  assumes "\<not> ws1 a" and "\<And>b. \<not> two a b" and "\<And>b c. \<not> three a b c"
  shows "trim_by two three (a # s) = a # s"
  using assms by (cases s; cases "tl s") auto

lemma str_trim_none:
  assumes "of_char a \<in> {5, 97 :: nat}" and "of_char z \<in> {45, 97 :: nat}"
  shows "str_trim (a # s @ [z]) = a # s @ [z]"
proof -
  have "trim_start (a # s @ [z]) = a # s @ [z]"
    unfolding trim_start_def using assms(1)
    by (intro trim_by_none) (auto simp: ws1_def ws2_def ws3_def Let_def)
  moreover have "trim_by (\<lambda>b a. ws2 a b) (\<lambda>c b a. ws3 a b c) (z # rev s @ [a]) = z # rev s @ [a]"
    using assms(2) by (intro trim_by_none) (auto simp: ws1_def ws2_def ws3_def Let_def)
  ultimately show ?thesis
    by (simp add: str_trim_def trim_end_def)
qed

definition ref_seed :: bytes where "ref_seed = replicate 32 5"

definition ref_pin :: string where "ref_pin = ref_b64url ref_seed"

lemma ref_pin_trim [simp]: "str_trim ref_pin = ref_pin"
proof -
  have "ref_pin = char_of (5 :: nat) # (replicate 31 (char_of (5 :: nat)) @ replicate 10 CHR ''-'') @ [CHR ''-'']"
    using replicate_Suc [of 31 "char_of (5 :: nat) :: char"] replicate_append_same [of 10 "CHR ''-''"]
      replicate_Suc [of 10 "CHR ''-''"]
    by (simp add: ref_pin_def ref_b64url_def ref_seed_def chars_of_def del: replicate_Suc)
  then show ?thesis
    using str_trim_none [of "char_of (5 :: nat)" "CHR ''-''"
        "replicate 31 (char_of (5 :: nat)) @ replicate 10 CHR ''-''"] by simp
qed

lemma ref_from_seed:
  "from_seed ref_libs ref_seed pw = Ok \<lparr>prf_server = ref_seed, master_seed = ref_seed, pairwise_secret = pw\<rparr>"
  by (simp add: from_seed_def ref_libs_def ref_seed_def)

lemma ref_public_key: "public_key_b64 ref_libs \<lparr>prf_server = ref_seed, master_seed = x, pairwise_secret = y\<rparr> = ref_pin"
  by (simp add: public_key_b64_def public_key_bytes_def ref_libs_def ref_pin_def)

definition ref_args :: prf_boot_args where
  "ref_args = \<lparr>prf_clients_configured = True, dedup_pubkey_pin = Some ref_pin, import_pairwise = None\<rparr>"

lemma ref_args_sel [simp]:
  "prf_clients_configured ref_args" "dedup_pubkey_pin ref_args = Some ref_pin" "import_pairwise ref_args = None"
  by (simp_all add: ref_args_def)

text \<open>A database with a sealed master seed.\<close>

definition ref_seeded_db :: db where
  "ref_seeded_db = empty_tables\<lparr>service_keys := [\<lparr>sk_purpose = MASTER_SEED_PURPOSE,
     sk_sealed = BLOB_VERSION # ref_nonce @ ref_seed @ tag16 (associated_data MASTER_SEED_PURPOSE SERVICE_KEY_ID),
     sk_created_at = 0\<rparr>]\<rparr>"

lemma ref_seeded_blob [simp]:
  "service_blob ref_seeded_db MASTER_SEED_PURPOSE =
     Some (BLOB_VERSION # ref_nonce @ ref_seed @ tag16 (associated_data MASTER_SEED_PURPOSE SERVICE_KEY_ID))"
  "service_blob ref_seeded_db PAIRWISE_HMAC_PURPOSE = None"
  by (simp_all add: ref_seeded_db_def service_blob_def)

lemma ref_boot_env_sel [simp]: "be_nonce ref_boot_env = ref_nonce" "be_rng ref_boot_env = Ok ref_seed"
  by (simp_all add: ref_boot_env_def ref_seed_def)

lemma ref_load_seed:
  "load_seed ref_libs k (BLOB_VERSION # ref_nonce @ ref_seed @ tag16 (associated_data MASTER_SEED_PURPOSE SERVICE_KEY_ID)) =
     Ok ref_seed"
  by (simp add: load_seed_Ok_iff ref_open) (simp add: ref_seed_def MASTER_SEED_LEN_def)

text \<open>A configuration that starts: four variables, everything else at its default.\<close>

definition ref_environ :: environ where
  "ref_environ = [''SIGNET_KEK'' \<mapsto> replicate 64 CHR ''a'', ''SIGNET_TLS_CERT'' \<mapsto> ''cert.pem'',
     ''SIGNET_TLS_KEY'' \<mapsto> ''key.pem'', ''SIGNET_CLIENT_CA'' \<mapsto> ''ca.pem'']"

definition ref_tls :: tls_libs where
  "ref_tls = \<lparr>fs_read = (\<lambda>_. Ok [1]), pem_certs = (\<lambda>_. Ok [[1]]), pem_private_key = (\<lambda>_. Ok (Some [2])),
     root_add = (\<lambda>st c. Ok (st @ [c])), verifier_build = (\<lambda>_. Ok ()), server_build = (\<lambda>_ _. Ok ())\<rparr>"

definition ref_io :: boot_io where
  "ref_io = \<lparr>io_arg1 = None, io_addr = (\<lambda>_. True), io_open = ok_engine, io_boot = ref_boot_env, io_provider = True,
     io_runtime = None, io_tls = ref_tls, io_bind = None, io_max_permits = 2 ^ 61 - 1\<rparr>"

lemma ref_io_sel [simp]:
  "io_boot ref_io = ref_boot_env" "io_open ref_io = ok_engine" "io_provider ref_io" "io_runtime ref_io = None"
  "io_tls ref_io = ref_tls" "io_bind ref_io = None" "io_addr ref_io a"
  "io_max_permits ref_io = 2 ^ 61 - 1"
  by (simp_all add: ref_io_def)

lemma ref_kek_parse: "kek_from_encoded ref_libs (replicate 64 CHR ''a'') = Ok \<lparr>kek_bytes = replicate 32 97\<rparr>"
proof -
  have "replicate 64 CHR ''a'' = CHR ''a'' # replicate 62 CHR ''a'' @ [CHR ''a'']"
    using replicate_Suc [of 63 "CHR ''a''"] replicate_append_same [of 62 "CHR ''a''"] replicate_Suc [of 62 "CHR ''a''"]
    by simp
  then have "str_trim (replicate 64 CHR ''a'') = replicate 64 CHR ''a''"
    using str_trim_none [of "CHR ''a''" "CHR ''a''" "replicate 62 CHR ''a''"] by simp
  then show ?thesis
    by (simp add: kek_from_encoded_def list_all_iff is_ascii_hexdigit_def ref_libs_def str_bytes_def)
qed

lemma ref_not_init: "\<not> is_init_mode ref_io ref_environ"
  by (simp add: is_init_mode_def ref_io_def ref_environ_def)

lemma ref_from_env: "\<exists>cfg env'. from_env ref_libs addr ref_environ = (Ok cfg, env') \<and>
    cfg_prf_client_ids cfg = {} \<and> cfg_dedup_pubkey_pin cfg = None \<and> cfg_import_pairwise_hmac cfg = None \<and>
    cfg_keygen_max_concurrent cfg = 2"
  if "\<And>s. addr s"
  by (simp add: from_env_def read_paths_def env_or_def env_required_def db_path_from_env_def ref_environ_def
      consume_kek_env_def ref_kek_parse consume_pairwise_import_env_def read_rest_def read_key_bits_def
      read_keygen_max_def env_id_set_def)

lemma ref_tls_built: "\<exists>c. build_server_config ref_tls a b c' = Ok c"
  by (simp add: build_server_config_def load_certs_def load_private_key_def load_root_store_def ref_tls_def)

lemma ref_open_new: "db_open ok_engine None = Ok empty_tables"
  by (simp add: db_open_def run_stmt_def)

lemma ref_starts:
  assumes "cfg_prf_client_ids cfg = {}" and "cfg_dedup_pubkey_pin cfg = None" and "cfg_import_pairwise_hmac cfg = None"
    and "cfg_keygen_max_concurrent cfg = 2"
  shows "\<exists>s. run ref_libs ref_io cfg None = (Ok s, Some empty_tables)"
proof -
  have "prepare_prf_boot ref_libs ref_boot_env empty_tables (cfg_kek cfg) (boot_args cfg) = (Ok Disabled, empty_tables)"
    using assms by (simp add: prepare_prf_boot_def boot_get_fault_free boot_args_def)
  then show ?thesis
    using ref_tls_built [of "cfg_tls_cert cfg" "cfg_tls_key cfg" "cfg_client_ca cfg"]
    by (auto simp: run_def ref_open_new assms(4))
qed

lemma ref_main: "\<exists>s env'. main_fn ref_libs ref_io ref_environ None = (ServingApp s, env', Some empty_tables)"
proof -
  obtain cfg env' where "from_env ref_libs (io_addr ref_io) ref_environ = (Ok cfg, env')"
    and "cfg_prf_client_ids cfg = {}" "cfg_dedup_pubkey_pin cfg = None" "cfg_import_pairwise_hmac cfg = None"
    "cfg_keygen_max_concurrent cfg = 2"
    using ref_from_env [of "io_addr ref_io"] by auto
  with ref_starts [of cfg] show ?thesis
    by (auto simp: main_fn_def ref_not_init)
qed

subsection \<open>Configuration\<close>

text \<open>
  C21. A configuration that is accepted has a 32-byte key-encryption key, a key size that the issuance
  scheme supports and at least one generation slot; the two secrets it was given have been
  removed from the environment, and nothing else has. The environment holds Unicode values.
\<close>

theorem configuration_sound:
  assumes "from_env L addr env = (Ok cfg, env')"
  shows "length (kek_bytes (cfg_kek cfg)) = 32 \<and>
    2048 \<le> cfg_key_bits cfg \<and> cfg_key_bits cfg \<le> 4096 \<and> 16 dvd cfg_key_bits cfg \<and>
    1 \<le> cfg_keygen_max_concurrent cfg \<and>
    env' = env(''SIGNET_KEK'' := None, ''SIGNET_IMPORT_PAIRWISE_HMAC'' := None)"
  using assms
proof (rule from_env_Ok)
  fix paths raw
  assume "kek_from_encoded L raw = Ok (cfg_kek cfg)"
    and "read_rest env' paths (cfg_kek cfg) (map_option str_bytes (env ''SIGNET_IMPORT_PAIRWISE_HMAC'')) = Ok cfg"
    and "env' = env(''SIGNET_KEK'' := None, ''SIGNET_IMPORT_PAIRWISE_HMAC'' := None)"
  then show ?thesis
    using read_rest_checks kek_from_encoded_length by simp
qed

theorem configuration_sound_witness:
  "\<exists>cfg env'. from_env ref_libs (io_addr ref_io) ref_environ = (Ok cfg, env') \<and> length (kek_bytes (cfg_kek cfg)) = 32"
proof -
  obtain cfg env' where f: "from_env ref_libs (io_addr ref_io) ref_environ = (Ok cfg, env')"
    using ref_from_env [of "io_addr ref_io"] by auto
  with configuration_sound [OF f] show ?thesis by blast
qed

subsection \<open>When the PRF surface comes up\<close>

text \<open>
  C34. Without an import, a node comes up with the PRF surface exactly when PRF clients are configured,
  a sealed master seed of 32 bytes is stored that opens under the node's key, the keys derive
  from it (with the stored pairwise secret, if there is one) and their public key is the pinned
  one; it writes nothing. It comes up without the surface exactly when neither seed, clients, pin
  nor import is there. Everything else is refused.
\<close>

theorem boot_matrix:
  assumes "quiet E" and "fault_free E" and "import_pairwise args = None"
  shows "(prepare_prf_boot L E d k args = (Ok (Enabled keys), d') \<longleftrightarrow>
      d' = d \<and> prf_clients_configured args \<and>
      (\<exists>sealed seed pin pw. service_blob d MASTER_SEED_PURPOSE = Some sealed \<and>
         open_sealed L k MASTER_SEED_PURPOSE SERVICE_KEY_ID sealed = Ok seed \<and> length seed = 32 \<and>
         stored_pairwise L k d pw \<and> from_seed L seed pw = Ok keys \<and>
         dedup_pubkey_pin args = Some pin \<and> public_key_b64 L keys = str_trim pin)) \<and>
    (fst (prepare_prf_boot L E d k args) = Ok Disabled \<longleftrightarrow>
      service_blob d MASTER_SEED_PURPOSE = None \<and> \<not> prf_clients_configured args \<and> dedup_pubkey_pin args = None)"
    (is "(?boot \<longleftrightarrow> ?conds) \<and> _")
proof
  have other: "be_other E 0 d = d"
    using assms(1) by (simp add: quiet_def)
  show "?boot \<longleftrightarrow> ?conds"
  proof
    assume ?boot
    then obtain sealed raw_pin where c: "prf_clients_configured args"
      and s: "service_blob d MASTER_SEED_PURPOSE = Some sealed"
      and b: "boot_enabled L E d k args sealed = (Ok (Enabled keys), d')"
      by (rule prepare_Enabled) (simp add: other)
    from assms(1) b assms(3) obtain pin seed pw where "dedup_pubkey_pin args = Some pin"
      and "load_seed L k sealed = Ok seed" and "from_seed L seed pw = Ok keys"
      and "public_key_b64 L keys = str_trim pin" and "stored_pairwise L k d pw" and "d' = d"
      by (rule boot_enabled_no_import)
    with c s show ?conds by (auto simp: load_seed_Ok_iff MASTER_SEED_LEN_def)
  next
    assume ?conds
    then obtain sealed seed pin pw where "service_blob d MASTER_SEED_PURPOSE = Some sealed"
      and "open_sealed L k MASTER_SEED_PURPOSE SERVICE_KEY_ID sealed = Ok seed" and "length seed = MASTER_SEED_LEN"
      and "stored_pairwise L k d pw" and "from_seed L seed pw = Ok keys"
      and "dedup_pubkey_pin args = Some pin" and "public_key_b64 L keys = str_trim pin"
      and "prf_clients_configured args" and "d' = d"
      by (auto simp: MASTER_SEED_LEN_def)
    with assms show ?boot
      using boot_comes_up [OF assms(1,2)] by (simp add: stored_pairwise_def)
  qed
  show "fst (prepare_prf_boot L E d k args) = Ok Disabled \<longleftrightarrow>
      service_blob d MASTER_SEED_PURPOSE = None \<and> \<not> prf_clients_configured args \<and> dedup_pubkey_pin args = None"
    using prepare_Disabled_iff [OF assms(1,2)] assms(3) by simp
qed

theorem boot_matrix_witness:
  "\<exists>keys. prepare_prf_boot ref_libs ref_boot_env ref_seeded_db ref_kek ref_args = (Ok (Enabled keys), ref_seeded_db)"
proof -
  have "stored_pairwise ref_libs ref_kek ref_seeded_db None" "length ref_seed = 32"
    by (simp_all add: stored_pairwise_def ref_seed_def)
  then show ?thesis
    using boot_matrix [of ref_boot_env ref_args ref_libs ref_seeded_db ref_kek] ref_from_seed [of None] ref_open
    by (force simp: ref_public_key)
qed

text \<open>
  C35. A boot that the PRF preparation refuses has written nothing: the database file is the one it
  was, or the empty schema where there was none.
\<close>

theorem refused_boot_writes_nothing:
  assumes "quiet (io_boot io)" and "run L io cfg file = (Err (Refused e), file')"
  shows "file' = Some (case file of None \<Rightarrow> empty_tables | Some d \<Rightarrow> d)"
proof -
  from assms(2) obtain d where d: "db_open (io_open io) file = Ok d"
    by (auto simp: run_def split: if_splits sum.splits)
  obtain r d1 where p: "prepare_prf_boot L (io_boot io) d (cfg_kek cfg) (boot_args cfg) = (r, d1)" (is "?c = _")
    by (cases ?c)
  from assms(2) d p have "r = Err e" and file': "file' = Some d1"
    by (auto simp: run_def split: if_splits sum.splits option.splits)
  with p have "d1 = d"
    using prepare_Err [OF assms(1)] by blast
  with d file' show ?thesis
    by (auto simp: db_open_def bind_res_Ok_iff split: option.splits)
qed

theorem refused_boot_writes_nothing_witness:
  "\<exists>cfg e file'. run ref_libs ref_io cfg (Some ref_seeded_db) = (Err (Refused e), file') \<and> file' = Some ref_seeded_db"
proof -
  obtain cfg env' where "from_env ref_libs (io_addr ref_io) ref_environ = (Ok cfg, env')"
    and cfg: "cfg_prf_client_ids cfg = {}"
    using ref_from_env [of "io_addr ref_io"] by auto
  have "db_open ok_engine (Some ref_seeded_db) = Ok ref_seeded_db"
    by (simp add: db_open_def run_stmt_def)
  then have "run ref_libs ref_io cfg (Some ref_seeded_db) = (Err (Refused KeysWithoutClients), Some ref_seeded_db)"
    using cfg by (simp add: run_def prepare_prf_boot_def boot_get_fault_free boot_args_def)
  then show ?thesis
    using refused_boot_writes_nothing [of ref_io ref_libs cfg "Some ref_seeded_db"] by auto
qed

subsection \<open>Initialisation and import\<close>

text \<open>
  C36. What initialisation mints is what a later boot serves: with the public key it printed as the pin
  and PRF clients configured, the node comes up with keys that derive from the sealed seed and
  have that public key.
\<close>

theorem init_then_boot:
  assumes "aead_roundtrip L" and "length (be_nonce E) = NONCE_LEN" and "quiet E"
    and "be_rng E = Ok seed" and "length seed = 32"
    and "service_blob d PAIRWISE_HMAC_PURPOSE = None"
    and "init_service_keys L E d k = (Ok pk, d')"
    and "quiet E2" and "fault_free E2" and "prf_clients_configured args" and "import_pairwise args = None"
    and "dedup_pubkey_pin args = Some pin" and "str_trim pin = pk"
  shows "\<exists>keys. prepare_prf_boot L E2 d' k args = (Ok (Enabled keys), d') \<and>
    public_key_b64 L keys = pk \<and> master_seed keys = seed"
proof -
  have other: "be_other E i x = x" for i x
    using assms(3) by (simp add: quiet_def)
  from assms(7) have sm: "seal_master_seed L E 1 d k seed = (Ok pk, d')"
    by (rule init_Ok_seed) (use assms(4) other in simp)
  then obtain keys sealed where keys: "from_seed L seed None = Ok keys" and pk: "pk = public_key_b64 L keys"
    and sealed: "seal L (be_nonce E) k MASTER_SEED_PURPOSE SERVICE_KEY_ID seed = Ok sealed"
    and blob: "service_blob d' = (service_blob d)(MASTER_SEED_PURPOSE \<mapsto> sealed)"
    by (rule seal_master_seed_Ok) (simp add: other)
  have "open_sealed L k MASTER_SEED_PURPOSE SERVICE_KEY_ID sealed = Ok seed"
    by (rule open_seal [OF assms(1,2) sealed])
  moreover have "service_blob d' PAIRWISE_HMAC_PURPOSE = None"
    using blob assms(6) purposes_differ [symmetric] by simp
  ultimately have "prepare_prf_boot L E2 d' k args = (Ok (Enabled keys), d')"
    using blob keys pk assms(5,8-13)
    by (intro boot_comes_up [where seed = seed and pw = None]) (auto simp: MASTER_SEED_LEN_def)
  with keys pk show ?thesis
    by (auto simp: from_seed_Ok_iff)
qed

lemma ref_init: "\<exists>d'. init_service_keys ref_libs ref_boot_env empty_tables ref_kek = (Ok ref_pin, d')"
proof -
  have e: "service_blob empty_tables MASTER_SEED_PURPOSE = None"
    by simp
  show ?thesis
    using boot_put_fault_free [OF ref_boot_env_ok(1,2) e, of 2 "BLOB_VERSION # ref_nonce @ ref_seed @
        tag16 (associated_data MASTER_SEED_PURPOSE SERVICE_KEY_ID)"]
    by (auto simp: init_service_keys_def seal_master_seed_def boot_get_fault_free ref_from_seed ref_public_key ref_seal
        numeral_2_eq_2)
qed

theorem init_then_boot_witness:
  "\<exists>d' keys. init_service_keys ref_libs ref_boot_env empty_tables ref_kek = (Ok ref_pin, d') \<and>
     prepare_prf_boot ref_libs ref_boot_env d' ref_kek ref_args = (Ok (Enabled keys), d')"
proof -
  obtain d' where i: "init_service_keys ref_libs ref_boot_env empty_tables ref_kek = (Ok ref_pin, d')"
    using ref_init by blast
  have "length ref_seed = 32"
    by (simp add: ref_seed_def)
  then show ?thesis
    using init_then_boot [OF ref_aead_roundtrip _ ref_boot_env_ok(1) _ _ _ i ref_boot_env_ok(1,2), of ref_seed ref_args] i
    by auto
qed

lemma ref_import_boot:
  "\<exists>keys d'. prepare_prf_boot ref_libs ref_boot_env ref_seeded_db ref_kek (ref_args\<lparr>import_pairwise := Some [9]\<rparr>) =
     (Ok (Enabled keys), d')"
proof -
  note get = boot_get_fault_free [OF ref_boot_env_ok(1,2)]
  obtain d' where "boot_put ref_boot_env 2 ref_seeded_db PAIRWISE_HMAC_PURPOSE
      (BLOB_VERSION # ref_nonce @ [9] @ tag16 (associated_data PAIRWISE_HMAC_PURPOSE SERVICE_KEY_ID)) = (Ok True, d')"
    using boot_put_fault_free [OF ref_boot_env_ok(1,2) ref_seeded_blob(2)] by blast
  then show ?thesis
    by (simp add: prepare_prf_boot_def get boot_enabled_def ref_load_seed resolve_pairwise_def ref_from_seed
        ref_public_key persist_import_def ref_seal)
qed

text \<open>
  C37. A pairwise secret is imported once: after the boot that sealed it, a boot without the import
  comes up under the same public key and with the same secret, and a boot that still carries
  an import is refused and writes nothing.
\<close>

theorem import_once:
  assumes "aead_roundtrip L" and "length (be_nonce E) = NONCE_LEN" and "quiet E"
    and "prepare_prf_boot L E d k args = (Ok (Enabled keys), d')" and "import_pairwise args = Some secret"
    and "quiet E2" and "fault_free E2"
  shows "(\<exists>keys2. prepare_prf_boot L E2 d' k (args\<lparr>import_pairwise := None\<rparr>) = (Ok (Enabled keys2), d') \<and>
      pairwise_secret keys2 = Some secret \<and> public_key_b64 L keys2 = public_key_b64 L keys) \<and>
    prepare_prf_boot L E2 d' k args = (Err ImportExists, d')"
proof -
  have other: "be_other E 0 d = d"
    using assms(3) by (simp add: quiet_def)
  from assms(4) obtain sealed raw_pin where c: "prf_clients_configured args"
    and s: "service_blob d MASTER_SEED_PURPOSE = Some sealed"
    and b: "boot_enabled L E d k args sealed = (Ok (Enabled keys), d')"
    by (rule prepare_Enabled) (simp add: other)
  from assms(3) b assms(5) obtain sealed_pw where
    pw: "seal L (be_nonce E) k PAIRWISE_HMAC_PURPOSE SERVICE_KEY_ID secret = Ok sealed_pw"
    and blob: "service_blob d' = (service_blob d)(PAIRWISE_HMAC_PURPOSE \<mapsto> sealed_pw)"
    and sec: "pairwise_secret keys = Some secret"
    by (rule boot_enabled_import)
  from b obtain pin seed pw' where pin: "dedup_pubkey_pin args = Some pin" and seed: "load_seed L k sealed = Ok seed"
    and keys: "from_seed L seed pw' = Ok keys" and pk: "public_key_b64 L keys = str_trim pin"
    by (rule boot_enabled_keys)
  have pw': "pw' = Some secret"
    using keys sec by (auto simp: from_seed_Ok_iff)
  have opened: "open_sealed L k PAIRWISE_HMAC_PURPOSE SERVICE_KEY_ID sealed_pw = Ok secret"
    by (rule open_seal [OF assms(1,2) pw])
  have "prepare_prf_boot L E2 d' k (args\<lparr>import_pairwise := None\<rparr>) = (Ok (Enabled keys), d')"
    using c s blob seed keys pw' pin pk opened
    by (intro boot_comes_up [OF assms(6,7), where seed = seed and pw = "Some secret"])
      (auto simp: load_seed_Ok_iff)
  moreover have "prepare_prf_boot L E2 d' k args = (Err ImportExists, d')"
    using boot_get_fault_free [OF assms(6,7)] c s blob pin seed assms(5)
    by (simp add: prepare_prf_boot_def boot_enabled_def resolve_pairwise_def)
  ultimately show ?thesis
    using sec by blast
qed

theorem import_once_witness:
  "\<exists>keys d'. prepare_prf_boot ref_libs ref_boot_env ref_seeded_db ref_kek (ref_args\<lparr>import_pairwise := Some [9]\<rparr>) =
       (Ok (Enabled keys), d') \<and>
     prepare_prf_boot ref_libs ref_boot_env d' ref_kek (ref_args\<lparr>import_pairwise := Some [9]\<rparr>) = (Err ImportExists, d')"
proof -
  obtain keys d' where p: "prepare_prf_boot ref_libs ref_boot_env ref_seeded_db ref_kek (ref_args\<lparr>import_pairwise := Some [9]\<rparr>) =
      (Ok (Enabled keys), d')"
    using ref_import_boot by blast
  show ?thesis
    using import_once [OF ref_aead_roundtrip _ ref_boot_env_ok(1) p _ ref_boot_env_ok(1,2)] p by auto
qed

subsection \<open>The whole start\<close>

text \<open>
  C38. An ordinary start never mints or replaces the master seed, whatever its outcome, and neither does
  a start in initialisation mode on a node that is configured with a pin.
\<close>

theorem boot_never_mints:
  assumes "quiet (io_boot io)" and "main_fn L io env file = (out, env', file')"
    and "is_init_mode io env \<longrightarrow> env ''SIGNET_DEDUP_PUBKEY_PIN'' \<noteq> None"
  shows "file_blob file' MASTER_SEED_PURPOSE = file_blob file MASTER_SEED_PURPOSE"
proof (cases "is_init_mode io env")
  case True
  with assms(3) obtain env1 where "run_init_service_keys L io env file = (Err (Refused InitPinned), env1, file)"
    using pinned_never_mints by blast
  with True assms(2) show ?thesis by (simp add: main_fn_def)
next
  case False
  obtain r env1 where f: "from_env L (io_addr io) env = (r, env1)"
    by (cases "from_env L (io_addr io) env")
  show ?thesis
  proof (cases "r = Err (projl r) \<or> io_runtime io \<noteq> None")
    case True
    with False f assms(2) have "file' = file"
      by (cases r) (auto simp: main_fn_def split: option.splits)
    then show ?thesis by simp
  next
    case go: False
    then obtain cfg where cfg: "r = Ok cfg"
      by (cases r) auto
    obtain res file1 where r1: "run L io cfg file = (res, file1)"
      by (cases "run L io cfg file")
    with False go cfg f assms(2) have "file' = file1"
      by (cases res) (auto simp: main_fn_def split: start_error.splits)
    with run_keeps_master [OF assms(1) r1] show ?thesis by simp
  qed
qed

theorem boot_never_mints_witness:
  "\<exists>s env' file'. main_fn ref_libs ref_io ref_environ None = (ServingApp s, env', file') \<and>
     file_blob file' MASTER_SEED_PURPOSE = None"
proof -
  obtain s env' where m: "main_fn ref_libs ref_io ref_environ None = (ServingApp s, env', Some empty_tables)"
    using ref_main by blast
  with boot_never_mints [OF _ m] show ?thesis
    by (simp add: ref_not_init file_blob_def)
qed

text \<open>
  Once the process serves requests or has printed a freshly minted public key, neither the
  key-encryption key nor the import secret is left in its environment.
\<close>

theorem secrets_leave_environment:
  assumes "main_fn L io env file = (out, env', file')" and "\<forall>e. out \<noteq> Exit1 e"
  shows "env' ''SIGNET_KEK'' = None \<and> env' ''SIGNET_IMPORT_PAIRWISE_HMAC'' = None"
proof (cases "is_init_mode io env")
  case True
  obtain imp env1 where imp: "consume_pairwise_import_env env = (imp, env1)"
    by (cases "consume_pairwise_import_env env")
  obtain kr env2 where kr: "consume_kek_env L env1 = (kr, env2)"
    by (cases "consume_kek_env L env1")
  obtain x where x: "run_init_service_keys L io env file = x"
    by blast
  from True assms x have "fst (snd x) = env'" and "\<exists>pk. fst x = Ok pk"
    by (auto simp: main_fn_def split: prod.splits sum.splits)
  with x imp kr have "env' = env2"
    by (auto simp: run_init_service_keys_def Let_def split: sum.splits prod.splits)
  with consume_import_removed [OF imp] consume_kek_removed [OF kr] kr show ?thesis
    by (auto simp: consume_kek_env_def split: sum.splits)
next
  case False
  with assms obtain cfg where "from_env L (io_addr io) env = (Ok cfg, env')"
    by (auto simp: main_fn_def split: sum.splits prod.splits option.splits start_error.splits)
  then show ?thesis
    by (rule from_env_Ok) simp
qed

text \<open>
  C19. A boot that fails after the preparation, at the TLS configuration, keeps what the preparation wrote: an imported secret is
  persisted although the node never served.
\<close>

theorem failed_boot_keeps_import:
  assumes "quiet (io_boot io)" and "run L io cfg (Some d) = (Err (TlsFailed e), file')"
    and "cfg_import_pairwise_hmac cfg = Some secret" and "prf_clients_configured (boot_args cfg)"
  shows "service_blob d PAIRWISE_HMAC_PURPOSE = None \<and> file_blob file' PAIRWISE_HMAC_PURPOSE \<noteq> None"
proof -
  from assms(2) have d: "db_open (io_open io) (Some d) = Ok d"
    by (auto simp: run_def db_open_def bind_res_def split: if_splits sum.splits)
  from assms(2) d obtain b d1 where p: "prepare_prf_boot L (io_boot io) d (cfg_kek cfg) (boot_args cfg) = (Ok b, d1)"
    and file': "file' = Some d1"
    by (auto simp: run_def split: if_splits sum.splits option.splits prod.splits)
  have "b \<noteq> Disabled"
    using p assms(4) by (auto simp: prepare_prf_boot_def boot_enabled_def
        split: prod.splits sum.splits option.splits bool.splits if_splits)
  then obtain keys where b: "b = Enabled keys"
    by (cases b) auto
  have other: "be_other (io_boot io) 0 d = d"
    using assms(1) by (simp add: quiet_def)
  from p [unfolded b] obtain sealed where
    be: "boot_enabled L (io_boot io) d (cfg_kek cfg) (boot_args cfg) sealed = (Ok (Enabled keys), d1)"
    by (rule prepare_Enabled) (simp add: other)
  from assms(1) be obtain sealed_pw where "service_blob d PAIRWISE_HMAC_PURPOSE = None"
    and "service_blob d1 = (service_blob d)(PAIRWISE_HMAC_PURPOSE \<mapsto> sealed_pw)"
    by (rule boot_enabled_import) (use assms(3) in \<open>simp_all add: boot_args_def\<close>)
  then show ?thesis
    by (simp add: file' file_blob_def)
qed

theorem failed_boot_keeps_import_witness:
  "\<exists>cfg e file'. run ref_libs (ref_io\<lparr>io_tls := ref_tls\<lparr>fs_read := (\<lambda>_. Err ''not found'')\<rparr>\<rparr>) cfg (Some ref_seeded_db) =
       (Err (TlsFailed e), file') \<and> file_blob file' PAIRWISE_HMAC_PURPOSE \<noteq> None"
proof -
  let ?io = "ref_io\<lparr>io_tls := ref_tls\<lparr>fs_read := (\<lambda>_. Err ''not found'')\<rparr>\<rparr>"
  obtain cfg0 env' where "from_env ref_libs (io_addr ref_io) ref_environ = (Ok cfg0, env')"
    and permits: "cfg_keygen_max_concurrent cfg0 = 2"
    using ref_from_env [of "io_addr ref_io"] by auto
  let ?cfg = "cfg0\<lparr>cfg_kek := ref_kek, cfg_prf_client_ids := {''m''}, cfg_dedup_pubkey_pin := Some ref_pin,
    cfg_import_pairwise_hmac := Some [9]\<rparr>"
  have args: "boot_args ?cfg = ref_args\<lparr>import_pairwise := Some [9]\<rparr>"
    by (simp add: boot_args_def ref_args_def)
  have o: "db_open ok_engine (Some ref_seeded_db) = Ok ref_seeded_db"
    by (simp add: db_open_def run_stmt_def)
  obtain keys d' where p: "prepare_prf_boot ref_libs ref_boot_env ref_seeded_db ref_kek (ref_args\<lparr>import_pairwise := Some [9]\<rparr>) =
      (Ok (Enabled keys), d')"
    using ref_import_boot by blast
  obtain e where "build_server_config (io_tls ?io) (cfg_tls_cert cfg0) (cfg_tls_key cfg0) (cfg_client_ca cfg0) = Err e"
    by (simp add: build_server_config_def load_certs_def)
  then have r: "run ref_libs ?io ?cfg (Some ref_seeded_db) = (Err (TlsFailed e), Some d')"
    using o p args permits by (simp add: run_def)
  with failed_boot_keeps_import [OF _ r] show ?thesis
    by (auto simp: args)
qed

end
