(* ===== verification/Interop.thy ===== *)
theory Interop
  imports Group_Crypto Prf
begin

text \<open>
  The two interop command-line tools (\<open>examples/interop_tool.rs\<close>, \<open>examples/prf_interop_tool.rs\<close>), which
  exist to run the service's cryptographic path against other implementations, and the proof that
  they do run that path. Standard streams, the environment and the arguments are arguments of the
  model; JSON parsing and printing (which settles the order of members) and hex encoding are
  parameters. A tool that panics has the outcome \<open>Panicked\<close> with the text of the source or, where it
  unwraps, of the library.
\<close>

datatype tool_outcome = Stdout string | Panicked string | ExitStatus nat

datatype json_value = VStr string | VObj "(string \<times> json_value) list" | VOther

text \<open>\<open>v[key]\<close> followed by \<open>as_str\<close>, and assignment to a key of an object.\<close>

definition str_field :: "json_value \<Rightarrow> string \<Rightarrow> string option" where
  "str_field v key =
     (case v of
        VObj fs \<Rightarrow> (case map_of fs key of Some (VStr s) \<Rightarrow> Some s | _ \<Rightarrow> None)
      | _ \<Rightarrow> None)"

definition set_field :: "string \<Rightarrow> json_value \<Rightarrow> (string \<times> json_value) list \<Rightarrow> (string \<times> json_value) list" where
  "set_field key w fs = (key, w) # filter (\<lambda>(k, _). k \<noteq> key) fs"

subsection \<open>Blind signatures\<close>

definition unb64 :: "libs \<Rightarrow> string \<Rightarrow> string + bytes" where
  "unb64 L s = ok_or ''invalid base64'' (b64_decode L (str_trim s))"

primrec gen_full_loop :: "libs \<Rightarrow> (nat \<Rightarrow> string + bytes) \<Rightarrow> nat \<Rightarrow> nat \<Rightarrow> nat \<Rightarrow> string + bytes" where
  "gen_full_loop L gen bits 0 attempt =
     Err (''could not generate a full '' @ show_nat bits @ ''-bit modulus'')"
| "gen_full_loop L gen bits (Suc left) attempt =
     bind_res (gen attempt) (\<lambda>kp.
     if rsa_modulus_bits L kp = bits then Ok kp else gen_full_loop L gen bits left (Suc attempt))"

definition gen_full :: "libs \<Rightarrow> (nat \<Rightarrow> string + bytes) \<Rightarrow> nat \<Rightarrow> string + bytes" where
  "gen_full L gen bits = gen_full_loop L gen bits 64 0"

definition genkey_text :: "libs \<Rightarrow> bytes \<Rightarrow> bytes \<Rightarrow> string" where
  "genkey_text L spki pkcs8 =
     ''{'' @ [char_of (34 :: nat)] @ ''spki'' @ [char_of (34 :: nat)] @ '':'' @ [char_of (34 :: nat)] @
     b64_encode L spki @ [char_of (34 :: nat)] @ '','' @ [char_of (34 :: nat)] @ ''pkcs8'' @
     [char_of (34 :: nat)] @ '':'' @ [char_of (34 :: nat)] @ b64_encode L pkcs8 @ [char_of (34 :: nat)] @ ''}''"

definition outcome_of :: "string + string \<Rightarrow> tool_outcome" where
  "outcome_of r = (case r of Ok s \<Rightarrow> Stdout s | Err e \<Rightarrow> Panicked e)"

definition interop_genkey :: "libs \<Rightarrow> (nat \<Rightarrow> string + bytes) \<Rightarrow> string + string" where
  "interop_genkey L gen =
     bind_res (gen_full L gen 2048) (\<lambda>kp.
     bind_res (rsa_pk_to_der L kp) (\<lambda>spki.
     bind_res (rsa_sk_to_der L kp) (\<lambda>pkcs8.
     Ok (genkey_text L spki pkcs8))))"

definition interop_sign ::
  "libs \<Rightarrow> (string \<Rightarrow> json_value option) \<Rightarrow> (json_value \<Rightarrow> string) \<Rightarrow> (string \<rightharpoonup> string) \<Rightarrow> string \<Rightarrow> string + string" where
  "interop_sign L parse pr env stdin =
     bind_res (ok_or ''PKCS8 env required'' (env ''PKCS8'')) (\<lambda>raw.
     bind_res (unb64 L raw) (\<lambda>pkcs8.
     bind_res (ok_or ''INFO env required'' (env ''INFO'')) (\<lambda>info.
     bind_res (ok_or ''stdin not JSON'' (parse stdin)) (\<lambda>v.
     bind_res (ok_or ''blinded_message'' (str_field v ''blinded_message'')) (\<lambda>m.
     bind_res (unb64 L m) (\<lambda>blinded.
     bind_res (rsa_sk_from_der L pkcs8) (\<lambda>sk.
     bind_res (rsa_public_key L sk) (\<lambda>pk.
     bind_res (rsa_derive_for_metadata L pk sk (str_bytes info)) (\<lambda>derived.
     bind_res (rsa_blind_sign L derived blinded) (\<lambda>sig.
     case v of
       VObj fs \<Rightarrow> Ok (pr (VObj (set_field ''blind_signature'' (VStr (b64_encode L sig)) fs)))
     | _ \<Rightarrow> Err ''cannot index value''))))))))))"

definition interop_main ::
  "libs \<Rightarrow> (nat \<Rightarrow> string + bytes) \<Rightarrow> (string \<Rightarrow> json_value option) \<Rightarrow> (json_value \<Rightarrow> string) \<Rightarrow>
     string option \<Rightarrow> (string \<rightharpoonup> string) \<Rightarrow> string \<Rightarrow> tool_outcome" where
  "interop_main L gen parse pr arg1 env stdin =
     (let mode = (case arg1 of Some m \<Rightarrow> m | None \<Rightarrow> []) in
      if mode = ''genkey'' then outcome_of (interop_genkey L gen)
      else if mode = ''sign'' then outcome_of (interop_sign L parse pr env stdin)
      else ExitStatus 2)"

subsection \<open>The PRF\<close>

definition prf_interop_main ::
  "libs \<Rightarrow> (bytes \<Rightarrow> string) \<Rightarrow> (string \<Rightarrow> json_value option) \<Rightarrow> (string \<Rightarrow> string option) \<Rightarrow> bytes \<Rightarrow>
     string option \<Rightarrow> string option \<Rightarrow> tool_outcome" where
  "prf_interop_main L hexe parse read_file rnd arg1 arg2 =
     (case (arg1, arg2) of
        (Some path, Some blinded_hex) \<Rightarrow>
          outcome_of
            (bind_res (ok_or ''cannot read the vectors file'' (read_file path)) (\<lambda>raw.
             bind_res (ok_or ''vectors file is not JSON'' (parse raw)) (\<lambda>vectors.
             bind_res (ok_or ''vectors file lacks master_seed_hex'' (str_field vectors ''master_seed_hex'')) (\<lambda>seed_hex.
             bind_res (map_err (\<lambda>_. ''master_seed_hex is not hex'') (hex_decode L seed_hex)) (\<lambda>seed.
             if length seed \<noteq> MASTER_SEED_LEN then Err ''frozen test seed must be 32 bytes''
             else
               bind_res (map_err (\<lambda>_. ''key schedule derivation failed'') (from_seed L seed None)) (\<lambda>keys.
               bind_res (map_err (\<lambda>_. ''blinded element is not hex'') (hex_decode L (str_trim blinded_hex))) (\<lambda>blinded.
               bind_res (map_err (\<lambda>_. ''blinded element is not a valid group element'') (evaluate L rnd keys blinded)) (\<lambda>out.
               Ok (''pk='' @ hexe (public_key_bytes L keys) @ [char_of (10 :: nat)] @
                   ''eval='' @ hexe (evaluation_element out) @ [char_of (10 :: nat)] @
                   ''proof='' @ hexe (proof_bytes out))))))))))
      | _ \<Rightarrow> ExitStatus 2)"

subsection \<open>The tools run the service's path\<close>

lemma gen_full_loop_generate:
  "(\<exists>kp. gen_full_loop L gen bits left a = Ok kp \<and> export_key L kp = Ok key) \<longleftrightarrow>
     generate_loop L gen bits left a = Ok key"
proof (induction left arbitrary: a)
  case (Suc left)
  then show ?case by (cases "gen a") auto
qed simp

text \<open>The key pair that \<open>genkey\<close> prints is the one the service generates from the same draws.\<close>

theorem interop_genkey_generates:
  "interop_genkey L gen = Ok out \<longleftrightarrow>
     (\<exists>key. generate_group_key L gen 2048 = Ok key \<and> out = genkey_text L (spki_der key) (pkcs8_der key))"
proof -
  have "interop_genkey L gen = Ok out \<longleftrightarrow>
      (\<exists>kp key. gen_full_loop L gen 2048 64 0 = Ok kp \<and> export_key L kp = Ok key \<and>
        out = genkey_text L (spki_der key) (pkcs8_der key))"
    by (auto simp: interop_genkey_def gen_full_def export_key_def bind_res_Ok_iff)
  also have "\<dots> \<longleftrightarrow> (\<exists>key. generate_loop L gen 2048 64 0 = Ok key \<and> out = genkey_text L (spki_der key) (pkcs8_der key))"
    by (auto simp flip: gen_full_loop_generate)
  finally show ?thesis
    by (simp add: generate_group_key_def MAX_ATTEMPTS_def)
qed

text \<open>
  \<open>sign\<close> with \<open>INFO\<close> set to the version metadata of the service adds exactly the service's blind
  signature to the object it was given.
\<close>

theorem interop_sign_blind_signs:
  assumes "env ''PKCS8'' = Some raw" and "unb64 L raw = Ok pkcs8"
    and "env ''INFO'' = Some info" and "str_bytes info = version_info version_id"
    and "parse stdin = Some (VObj fs)" and "str_field (VObj fs) ''blinded_message'' = Some m"
    and "unb64 L m = Ok blinded"
  shows "interop_main L gen parse pr (Some ''sign'') env stdin =
    outcome_of (bind_res (blind_sign L pkcs8 version_id blinded)
      (\<lambda>sig. Ok (pr (VObj (set_field ''blind_signature'' (VStr (b64_encode L sig)) fs)))))"
  using assms by (simp add: interop_main_def interop_sign_def blind_sign_def bind_res_assoc)

end
