(* ===== verification/Gen_Certs.thy ===== *)
theory Gen_Certs
  imports Boot
begin

text \<open>
  The development certificate generator (\<open>examples/gen_certs.rs\<close>): a CA, a server certificate and two client
  certificates, written to eight files. Key generation, certificate building and signing (\<open>rcgen\<close>), name
  and address parsing and the file system are parameters. A step that panics ends the run with its
  message and leaves the files written before it. The second part shows that the two client
  certificates get the roles that the generator's documentation promises.
\<close>

subsection \<open>What the generator calls\<close>

datatype san_type = DnsSan string | IpSan string

datatype is_ca = NoCa | Ca nat

datatype key_usage = KeyCertSign | CrlSign | DigitalSignature

datatype ext_usage = ServerAuth | ClientAuth

type_synonym dn = "(string \<times> string) list"

record cert_params =
  distinguished_name :: dn
  subject_alt_names :: "san_type list"
  cp_is_ca :: is_ca
  key_usages :: "key_usage list"
  extended_key_usages :: "ext_usage list"

text \<open>Keys and certificates are represented by their DER bytes; \<open>generate_key\<close> is the \<open>n\<close>-th draw.\<close>

record rcgen =
  generate_key :: "nat \<Rightarrow> string + bytes"
  params_new :: "string + cert_params"
  push_common_name :: "string \<Rightarrow> dn \<Rightarrow> dn"
  self_signed :: "cert_params \<Rightarrow> bytes \<Rightarrow> string + bytes"
  signed_by :: "cert_params \<Rightarrow> bytes \<Rightarrow> bytes \<Rightarrow> bytes \<Rightarrow> string + bytes"
  cert_pem :: "bytes \<Rightarrow> string"
  serialize_pem :: "bytes \<Rightarrow> string"
  dns_name :: "string \<Rightarrow> string + string"
  ip_addr :: "string \<Rightarrow> string option"
  create_dir_all :: "string \<Rightarrow> string option"
  fs_write_error :: "string \<Rightarrow> string \<Rightarrow> string option"
  path_join :: "string \<Rightarrow> string \<Rightarrow> string"

text \<open>A run writes files one after another; it panics with a message or goes on with a value.\<close>

type_synonym files = "(string \<times> string) list"

type_synonym 'a gen_run = "files \<Rightarrow> (string + 'a) \<times> files"

definition gen_bind :: "'a gen_run \<Rightarrow> ('a \<Rightarrow> 'b gen_run) \<Rightarrow> 'b gen_run" where
  "gen_bind m f fs = (case m fs of (Err e, fs') \<Rightarrow> (Err e, fs') | (Ok a, fs') \<Rightarrow> f a fs')"

text \<open>\<open>expect\<close>.\<close>

definition expect :: "string \<Rightarrow> string + 'a \<Rightarrow> 'a gen_run" where
  "expect msg r fs = (map_err (\<lambda>e. msg @ '': '' @ e) r, fs)"

subsection \<open>The generator\<close>

definition write_file :: "rcgen \<Rightarrow> string \<Rightarrow> string \<Rightarrow> string \<Rightarrow> unit gen_run" where
  "write_file G dir name contents fs =
     (let path = path_join G dir name in
      case fs_write_error G path contents of
        Some e \<Rightarrow> (Err (''write '' @ path @ '': '' @ e), fs)
      | None \<Rightarrow> (Ok (), fs @ [(name, contents)]))"

definition write_pair :: "rcgen \<Rightarrow> string \<Rightarrow> string \<Rightarrow> bytes \<Rightarrow> string \<Rightarrow> bytes \<Rightarrow> unit gen_run" where
  "write_pair G dir cert_name cert key_name key =
     gen_bind (write_file G dir cert_name (cert_pem G cert)) (\<lambda>_.
     write_file G dir key_name (serialize_pem G key))"

definition make_ca :: "rcgen \<Rightarrow> string \<Rightarrow> (bytes \<times> bytes) gen_run" where
  "make_ca G dir =
     gen_bind (expect ''ca key'' (generate_key G 0)) (\<lambda>ca_key.
     gen_bind (expect ''ca params'' (params_new G)) (\<lambda>p.
     gen_bind (expect ''ca self-sign'' (self_signed G
       (p\<lparr>distinguished_name := push_common_name G ''Signet Dev CA'' (distinguished_name p), cp_is_ca := Ca 1,
          key_usages := [KeyCertSign, CrlSign, DigitalSignature]\<rparr>) ca_key)) (\<lambda>ca_cert.
     gen_bind (write_pair G dir ''ca.pem'' ca_cert ''ca.key'' ca_key) (\<lambda>_.
     \<lambda>fs. (Ok (ca_cert, ca_key), fs)))))"

definition dns_san :: "rcgen \<Rightarrow> string \<Rightarrow> string \<Rightarrow> san_type gen_run" where
  "dns_san G msg s = expect msg (map_sum id DnsSan (dns_name G s))"

fun push_sans :: "rcgen \<Rightarrow> san_type list \<Rightarrow> string list \<Rightarrow> san_type list gen_run" where
  "push_sans G sans [] = (\<lambda>fs. (Ok sans, fs))"
| "push_sans G sans (s # ss) =
     (case ip_addr G s of
        Some ip \<Rightarrow> push_sans G (sans @ [IpSan ip]) ss
      | None \<Rightarrow> gen_bind (dns_san G ''invalid SAN'' s) (\<lambda>n. push_sans G (sans @ [n]) ss))"

definition server_sans :: "rcgen \<Rightarrow> string list \<Rightarrow> san_type list gen_run" where
  "server_sans G extra =
     gen_bind (dns_san G ''unwrap'' ''signet'') (\<lambda>a.
     gen_bind (dns_san G ''unwrap'' ''localhost'') (\<lambda>b.
     push_sans G [a, b, IpSan ''127.0.0.1''] extra))"

definition make_server :: "rcgen \<Rightarrow> string \<Rightarrow> bytes \<Rightarrow> bytes \<Rightarrow> string list \<Rightarrow> unit gen_run" where
  "make_server G dir ca_cert ca_key extra =
     gen_bind (server_sans G extra) (\<lambda>sans.
     gen_bind (expect ''server key'' (generate_key G 1)) (\<lambda>key.
     gen_bind (expect ''server params'' (params_new G)) (\<lambda>p.
     gen_bind (expect ''sign server'' (signed_by G
       (p\<lparr>distinguished_name := push_common_name G ''signet'' (distinguished_name p), subject_alt_names := sans,
          cp_is_ca := NoCa, extended_key_usages := [ServerAuth]\<rparr>) key ca_cert ca_key)) (\<lambda>cert.
     write_pair G dir ''server.pem'' cert ''server.key'' key))))"

definition client_params :: "rcgen \<Rightarrow> string \<Rightarrow> cert_params \<Rightarrow> cert_params" where
  "client_params G cn p =
     p\<lparr>distinguished_name := push_common_name G cn (distinguished_name p), cp_is_ca := NoCa,
       extended_key_usages := [ClientAuth]\<rparr>"

definition mint_client ::
  "rcgen \<Rightarrow> string \<Rightarrow> bytes \<Rightarrow> bytes \<Rightarrow> nat \<Rightarrow> string \<Rightarrow> string \<Rightarrow> string \<Rightarrow> unit gen_run" where
  "mint_client G dir ca_cert ca_key n cn cert_name key_name =
     gen_bind (expect ''client key'' (generate_key G n)) (\<lambda>key.
     gen_bind (expect ''client params'' (params_new G)) (\<lambda>p.
     gen_bind (expect ''sign client'' (signed_by G (client_params G cn p) key ca_cert ca_key)) (\<lambda>cert.
     write_pair G dir cert_name cert key_name key)))"

fun join_sans :: "string list \<Rightarrow> string" where
  "join_sans [] = []"
| "join_sans [s] = s"
| "join_sans (s # ss) = s @ '', '' @ join_sans ss"

definition report :: "string \<Rightarrow> string list \<Rightarrow> string list" where
  "report out extra =
     [''wrote CA + server + client + admin certs to '' @ out,
      ''server SANs: signet, localhost, 127.0.0.1'' @ (if extra = [] then [] else '', '' @ join_sans extra)]"

definition gen_certs_main :: "rcgen \<Rightarrow> string list \<Rightarrow> string list gen_run" where
  "gen_certs_main G args =
     (let (out, extra) = (case args of [] \<Rightarrow> (''deploy/certs'', []) | a # as \<Rightarrow> (a, as)) in
      gen_bind (expect ''create out dir'' (case create_dir_all G out of None \<Rightarrow> Ok () | Some e \<Rightarrow> Err e)) (\<lambda>_.
      gen_bind (make_ca G out) (\<lambda>(ca_cert, ca_key).
      gen_bind (make_server G out ca_cert ca_key extra) (\<lambda>_.
      gen_bind (mint_client G out ca_cert ca_key 2 ''freedink'' ''client.pem'' ''client.key'') (\<lambda>_.
      gen_bind (mint_client G out ca_cert ca_key 3 ''signet-admin'' ''admin.pem'' ''admin.key'') (\<lambda>_.
      \<lambda>fs. (Ok (report out extra), fs)))))))"

subsection \<open>What it writes\<close>

lemma gen_bind_Ok_iff:
  "gen_bind m f fs = (Ok b, fs') \<longleftrightarrow> (\<exists>a fs1. m fs = (Ok a, fs1) \<and> f a fs1 = (Ok b, fs'))"
  by (auto simp: gen_bind_def split: prod.split sum.split)

lemma expect_Ok_iff: "expect msg r fs = (Ok a, fs') \<longleftrightarrow> r = Ok a \<and> fs' = fs"
  by (auto simp: expect_def map_err_Ok_iff)

lemma write_pair_Ok:
  "write_pair G dir cn cert kn key fs = (Ok u, fs') \<Longrightarrow>
     fs' = fs @ [(cn, cert_pem G cert), (kn, serialize_pem G key)]"
  by (auto simp: write_pair_def gen_bind_Ok_iff write_file_def Let_def split: option.splits)

lemma push_sans_files: "push_sans G sans ss fs = (Ok sans', fs') \<Longrightarrow> fs' = fs"
  by (induction ss arbitrary: sans) (auto simp: gen_bind_Ok_iff dns_san_def expect_Ok_iff split: option.splits)

lemma make_ca_Ok:
  "make_ca G dir fs = (Ok (cert, key), fs') \<Longrightarrow>
     fs' = fs @ [(''ca.pem'', cert_pem G cert), (''ca.key'', serialize_pem G key)]"
  by (auto simp: make_ca_def gen_bind_Ok_iff expect_Ok_iff dest!: write_pair_Ok)

lemma make_server_Ok:
  "make_server G dir ca_cert ca_key extra fs = (Ok u, fs') \<Longrightarrow>
     \<exists>cert key. fs' = fs @ [(''server.pem'', cert_pem G cert), (''server.key'', serialize_pem G key)]"
  by (auto simp: make_server_def server_sans_def dns_san_def gen_bind_Ok_iff expect_Ok_iff dest!: write_pair_Ok push_sans_files)

lemma mint_client_Ok:
  "mint_client G dir ca_cert ca_key n cn certn keyn fs = (Ok u, fs') \<Longrightarrow>
     \<exists>p key cert. params_new G = Ok p \<and> signed_by G (client_params G cn p) key ca_cert ca_key = Ok cert \<and>
       fs' = fs @ [(certn, cert_pem G cert), (keyn, serialize_pem G key)]"
  by (fastforce simp: mint_client_def gen_bind_Ok_iff expect_Ok_iff dest!: write_pair_Ok)

text \<open>A run that ends well has written these eight files, with both client certificates signed by the CA that it wrote.\<close>

lemma gen_certs_files:
  assumes "gen_certs_main G args [] = (Ok lines, fs)"
  obtains ca_cert ca_key server_cert server_key p k1 c1 k2 c2 where "params_new G = Ok p"
    and "signed_by G (client_params G ''freedink'' p) k1 ca_cert ca_key = Ok c1"
    and "signed_by G (client_params G ''signet-admin'' p) k2 ca_cert ca_key = Ok c2"
    and "fs = [(''ca.pem'', cert_pem G ca_cert), (''ca.key'', serialize_pem G ca_key),
      (''server.pem'', cert_pem G server_cert), (''server.key'', serialize_pem G server_key),
      (''client.pem'', cert_pem G c1), (''client.key'', serialize_pem G k1),
      (''admin.pem'', cert_pem G c2), (''admin.key'', serialize_pem G k2)]"
proof -
  obtain out extra where "(case args of [] \<Rightarrow> (''deploy/certs'', []) | a # as \<Rightarrow> (a, as)) = (out, extra)"
    by (cases args) auto
  with assms obtain ca_cert ca_key fs1 fs2 fs3 where
    "make_ca G out [] = (Ok (ca_cert, ca_key), fs1)" "make_server G out ca_cert ca_key extra fs1 = (Ok (), fs2)"
    "mint_client G out ca_cert ca_key 2 ''freedink'' ''client.pem'' ''client.key'' fs2 = (Ok (), fs3)"
    "mint_client G out ca_cert ca_key 3 ''signet-admin'' ''admin.pem'' ''admin.key'' fs3 = (Ok (), fs)"
    by (auto simp: gen_certs_main_def gen_bind_Ok_iff expect_Ok_iff)
  then show thesis
    by (auto dest!: make_ca_Ok make_server_Ok mint_client_Ok intro: that)
qed

subsection \<open>The roles of the certificates\<close>

text \<open>
  \<open>rcgen\<close>: parameters start without alternative names, and the certificate that is built from them has the
  common name pushed last and, without alternative names, no such extension.
\<close>

definition issues_names :: "libs \<Rightarrow> rcgen \<Rightarrow> bool" where
  "issues_names L G \<longleftrightarrow>
     (\<forall>p. params_new G = Ok p \<longrightarrow> subject_alt_names p = []) \<and>
     (\<forall>p cn d key ca ca_key cert.
        distinguished_name p = push_common_name G cn d \<longrightarrow> subject_alt_names p = [] \<longrightarrow>
        signed_by G p key ca ca_key = Ok cert \<longrightarrow>
        x509_parse L cert = Some \<lparr>common_names = [Some cn], alternative_names = None\<rparr>)"

lemma client_names:
  assumes "issues_names L G" and "params_new G = Ok p" and "signed_by G (client_params G cn p) key ca ca_key = Ok cert"
  shows "identity_names_from_leaf L cert = [cn]"
proof -
  have "subject_alt_names (client_params G cn p) = []"
    using assms(1,2) by (simp add: issues_names_def client_params_def)
  moreover have "distinguished_name (client_params G cn p) = push_common_name G cn (distinguished_name p)"
    by (simp add: client_params_def)
  ultimately have "x509_parse L cert = Some \<lparr>common_names = [Some cn], alternative_names = None\<rparr>"
    using assms(1,3) unfolding issues_names_def by blast
  then show ?thesis
    by (simp add: identity_names_from_leaf_def map_filter_simps)
qed

lemma read_rest_lists:
  assumes "read_rest env paths k imp = Ok cfg"
  shows "cfg_allowed_client_ids cfg = env_id_set env ''SIGNET_ALLOWED_CLIENT_IDS'' \<and>
    cfg_admin_ids cfg = env_id_set env ''SIGNET_ADMIN_IDS''"
  using assms by (auto simp: read_rest_def bind_res_Ok_iff split: prod.splits)

text \<open>The lists of the shipped deployment file, as \<open>from_env\<close> reads them.\<close>

lemma deployed_lists:
  assumes "from_env L addr env = (Ok cfg, env')"
    and "env ''SIGNET_ALLOWED_CLIENT_IDS'' = Some ''freedink,signet-admin''" and "env ''SIGNET_ADMIN_IDS'' = Some ''signet-admin''"
  shows "allowed_clients (policy_of cfg) = {''freedink'', ''signet-admin''}" and "admins (policy_of cfg) = {''signet-admin''}"
proof -
  have "map str_trim (split_commas [] ''freedink,signet-admin'') = [''freedink'', ''signet-admin'']"
    and "map str_trim (split_commas [] ''signet-admin'') = [''signet-admin'']"
    by code_simp+
  then have "env_id_set env ''SIGNET_ALLOWED_CLIENT_IDS'' = {''freedink'', ''signet-admin''}"
    and "env_id_set env ''SIGNET_ADMIN_IDS'' = {''signet-admin''}"
    using assms(2,3) by (simp_all add: env_id_set_def del: list.map split_commas.simps)
  moreover have "env_id_set env' ''SIGNET_ALLOWED_CLIENT_IDS'' = env_id_set env ''SIGNET_ALLOWED_CLIENT_IDS''"
    and "env_id_set env' ''SIGNET_ADMIN_IDS'' = env_id_set env ''SIGNET_ADMIN_IDS''"
    using assms(1) by (rule from_env_Ok, simp add: env_id_set_def)+
  moreover have "cfg_allowed_client_ids cfg = env_id_set env' ''SIGNET_ALLOWED_CLIENT_IDS'' \<and>
      cfg_admin_ids cfg = env_id_set env' ''SIGNET_ADMIN_IDS''"
    using assms(1) by (rule from_env_Ok) (rule read_rest_lists)
  ultimately show "allowed_clients (policy_of cfg) = {''freedink'', ''signet-admin''}" "admins (policy_of cfg) = {''signet-admin''}"
    by (simp_all add: policy_of_def)
qed

text \<open>
  Under these lists the certificate in \<open>client.pem\<close> is that of a client that may sign and is no administrator,
  and the one in \<open>admin.pem\<close> that of an administrator.
\<close>

theorem generated_certificates_roles:
  assumes "issues_names L G" and "gen_certs_main G args [] = (Ok lines, fs)"
    and "from_env L addr env = (Ok cfg, env')"
    and "env ''SIGNET_ALLOWED_CLIENT_IDS'' = Some ''freedink,signet-admin''" and "env ''SIGNET_ADMIN_IDS'' = Some ''signet-admin''"
  shows "\<exists>c1 c2 i1 i2. map_of fs ''client.pem'' = Some (cert_pem G c1) \<and> map_of fs ''admin.pem'' = Some (cert_pem G c2) \<and>
    classify (policy_of cfg) (identity_names_from_leaf L c1) = Some i1 \<and>
    classify (policy_of cfg) (identity_names_from_leaf L c2) = Some i2 \<and>
    may_sign i1 \<and> \<not> is_admin i1 \<and> is_admin i2 \<and> id_name i1 = ''freedink'' \<and> id_name i2 = ''signet-admin''"
  using assms(2)
proof (rule gen_certs_files)
  fix ca_cert ca_key server_cert server_key p k1 c1 k2 c2
  assume p: "params_new G = Ok p" and c1: "signed_by G (client_params G ''freedink'' p) k1 ca_cert ca_key = Ok c1"
    and c2: "signed_by G (client_params G ''signet-admin'' p) k2 ca_cert ca_key = Ok c2"
    and fs: "fs = [(''ca.pem'', cert_pem G ca_cert), (''ca.key'', serialize_pem G ca_key),
      (''server.pem'', cert_pem G server_cert), (''server.key'', serialize_pem G server_key),
      (''client.pem'', cert_pem G c1), (''client.key'', serialize_pem G k1),
      (''admin.pem'', cert_pem G c2), (''admin.key'', serialize_pem G k2)]"
  note names = client_names [OF assms(1) p c1] client_names [OF assms(1) p c2]
  show ?thesis
    unfolding fs
    by (rule exI [of _ c1], rule exI [of _ c2])
      (simp add: names classify_def deployed_lists [OF assms(3-5)] may_sign_def is_admin_def)
qed

end
