(* ===== verification/Spec2Isabelle.thy ===== *)
theory Spec2Isabelle
  imports Issuance_Theorems Concurrency_Theorems Access_Theorems Ledger_Theorems Boot_Theorems Interop Gen_Certs
begin

text \<open>
  Signet: a verification development of the Rust service under \<open>src/src\<close>.

  \<^bold>\<open>The program.\<close> Signet is a mutual-TLS service with two surfaces. The signing surface (\<open>/sign\<close>, \<open>/key\<close>,
  \<open>/key/rotate\<close>) gives a participant at most one partially-blind RSA signature per group and version,
  under keys that it generates in the background, seals with a key-encryption key and keeps in
  SQLite. The PRF surface (\<open>/prf/*\<close>, \<open>/dedup/*\<close>) evaluates a verifiable oblivious PRF, keeps a ledger of
  deduplication entries with one owner each, and derives per-client nullifiers from them. A peer's
  rights come from the names in its client certificate. At boot the process reads its configuration,
  opens the database, decides whether the PRF surface may come up, and serves.

  \<^bold>\<open>Theories, in the order of the code.\<close>

  \<^item> \<open>Signet_Prelude\<close>: strings and bytes, \<open>Result\<close>, \<open>str::trim\<close>, big-endian encodings; the record \<open>libs\<close> of
    third-party functions with their documented behaviour as named hypotheses (\<open>ct_eq_spec\<close>,
    \<open>aead_roundtrip\<close>, \<open>aead_authentic\<close>, \<open>b64url_spec\<close>, \<open>hkdf_spec\<close>).
  \<^item> \<open>Db_Schema\<close>, \<open>Db_Issuance\<close>, \<open>Db_Keys\<close>, \<open>Db_Ledger\<close> (\<open>db.rs\<close>): tables as lists of rows, one definition
    per method of \<open>Db\<close> and per free function. Each call takes an \<open>engine\<close> that says which of its
    statements fail. The interfaces are the locales \<open>reservation_ledger\<close>, \<open>key_store\<close>,
    \<open>write_once_store\<close> and, in \<open>Dedup_Registry\<close>, \<open>dedup_registry\<close>, each interpreted on these definitions.
  \<^item> \<open>Keystore\<close> (\<open>keystore.rs\<close>), \<open>Group_Crypto\<close> (\<open>crypto.rs\<close>), \<open>Prf\<close> (\<open>prf.rs\<close>): sealing, key generation and
    blind signing, the PRF key schedule and its framed inputs.
  \<^item> \<open>Keygen\<close>, \<open>Keygen_Invariants\<close> (\<open>keygen.rs\<close>): the key-generation service. \<open>ensure\<close>, \<open>status\<close>, \<open>wait_ready\<close>,
    \<open>rotate\<close> and \<open>active_key\<close> are functions; the spawned worker is the step relation \<open>task_step\<close>, cut
    at its await points. The locale \<open>interference\<close> carries any relation that the surroundings of
    a waiting call stay within over to the call itself.
  \<^item> \<open>Ratelimit\<close> (\<open>ratelimit.rs\<close>): both limiters, with 64-bit wrap-around; the locale \<open>windowed_admission\<close> says
    what a sliding window guarantees and is interpreted on the key limiter and on \<open>/sign\<close>.
  \<^item> \<open>Service_Keys\<close> (\<open>dedup.rs\<close>), \<open>Identity\<close> (\<open>identity.rs\<close>), \<open>Errors\<close> (\<open>error.rs\<close>), \<open>Config\<close> (\<open>config.rs\<close>),
    \<open>Tls\<close> (\<open>tls.rs\<close>), \<open>App_State\<close> (\<open>state.rs\<close>).
  \<^item> \<open>Handlers_Sign\<close>, \<open>Handlers_Prf\<close> (\<open>handlers.rs\<close>): one definition per endpoint, with its checks in the
    order of the code; the gate of the seven PRF endpoints is the locale \<open>prf_endpoint\<close>. Their
    behaviour is in \<open>Sign_Properties\<close> and \<open>Prf_Properties\<close>.
  \<^item> \<open>Server\<close> (\<open>lib.rs\<close>): the route tables, dispatch, and a connection with its identity.
    \<open>Server_Properties\<close>: what every handler guarantees to the others (\<open>develops\<close>).
  \<^item> \<open>Boot\<close> (\<open>main.rs\<close>): initialisation mode and the ordinary start.
  \<^item> \<open>Issuance_Concurrency\<close>: \<open>sign_blocking\<close> cut at its database calls and run by a schedule in any
    interleaving, with other database work in between. \<open>Issuance_Ceilings\<close>: how far such schedules can
    exceed the ceilings.
  \<^item> \<open>Service_Programs\<close>: every handler as a program, a sequence of sections with a gap before each where other
    tasks may run; \<open>exec_handle\<close> shows that a program run in the surroundings of a request is the handler.
  \<^item> \<open>Service_Runs\<close>: the running service. Threads of programs and the background workers step on the shared state
    in any order (\<open>service_step\<close>), requests arrive, and a future may be dropped at an await, with
    the blocking work it has started going on.
  \<^item> \<open>Service_Progress\<close>: the service can always go on, and comes to rest. \<open>Service_Refinement\<close>: every answer in a run
    is an answer of the handler. \<open>Service_Issuance\<close>: a simulation of runs by the schedules of
    \<open>Issuance_Concurrency\<close>, which gives the theorems on signatures. \<open>Service_Ceilings\<close>: the ceilings of a run.
  \<^item> \<open>Interop\<close> (\<open>examples/interop_tool.rs\<close>, \<open>examples/prf_interop_tool.rs\<close>): the interop tools, and that
    they generate and sign as the service does.
  \<^item> \<open>Gen_Certs\<close> (\<open>examples/gen_certs.rs\<close>): the development certificate generator, the files it writes, and the
    roles that its certificates get under the deployed lists.
  \<^item> \<open>Reference_Libs\<close>: concrete third-party functions and surroundings that satisfy all the hypotheses
    together; the witnesses evaluate the model there.
  \<^item> \<open>Concurrency_Theorems\<close> (C2, C7 to C9, C11 to C13, C15, C39), \<open>Issuance_Theorems\<close> (C3 to C6, C10, C40),
    \<open>Key_Theorems\<close> (C14, C16 to C18, C20), \<open>Access_Theorems\<close> (C22 to C28), \<open>Ledger_Theorems\<close> (C29 to C33),
    \<open>Boot_Theorems\<close> (C19, C21, C34 to C38) and this theory (C1): the main theorems, each with a witness
    where it has hypotheses.

  \<^bold>\<open>State and concurrency.\<close> The state shared by requests and tasks is \<open>app_state\<close>; the database sits in its
  key-generation part \<open>kg_state\<close>, since the code shares one \<open>Arc<Db>\<close>. What a request takes from outside is
  its \<open>req_env\<close>: clocks, randomness, the engine of each database call, and at every point where the
  code releases a lock or awaits, the effect \<open>rq_other\<close> of the tasks that run there. Theorems on one
  handler name the relation that its surroundings stay within (\<open>env_within\<close>). In the running service
  nothing is assumed of the surroundings: the sections of all requests and workers interleave, and C8
  shows that what a request sees of the others stays within \<open>develops\<close>. The theorems on handlers that only
  need that apply to every request of a run (C10, C14, C30). The theorems C3 to C6 assume that nobody else
  changes the issuance table (\<open>same_issuances\<close>), which \<open>develops\<close> does not give: they describe a \<open>/sign\<close>
  request that no other one overlaps, and what holds of overlapping ones is stated of runs (C2, C7, C9). A permit of the semaphore belongs to the future that acquired it. The windows
  of the key limiters are updated at one point of a request under their own lock, so interference does
  not act on them. A worker publishes its status in one step; the database read before it may fail in
  that step, which covers a read that is stale by the time of the send.

  \<^bold>\<open>What is shown.\<close> Of the running service: its invariant (C1), that interleaved requests are answered as their
  handlers would (C8), that it comes to rest with everything answered (C12). Of issuance: one
  signature per tuple in every run, exact effects of \<open>/sign\<close> on each path, roll-back and what is left when it
  fails (C4), the ceilings up to the number of requests that overlap (C7), that this bound is reached by
  requests that do overlap (C39) and that a huge window switches the check off (C40). Of keys: the cap while clients stay and one worker per group (C11), and
  that a client that goes away lets a rotation exceed it (C13), that racing rotations can
  answer two keys under one id (C15), \<open>Ready\<close> means a key, sealed blobs open under their own row and under
  no other. Of access: the key limiter refines its history and keeps within its ceilings while requests
  are checked in the order of their instants, classification, and that the gates let nobody else through. Of the ledger: unambiguous
  framing, no panic, ownership over whole histories, atomic reassignment. Of the start: the exact
  conditions under which the PRF surface comes up, that a refused boot writes nothing, that
  initialisation, import and boot fit together, and that an import survives a later failure (C19).

  \<^bold>\<open>Bounds and partiality.\<close> All definitions are total. A call that is still waiting is \<open>None\<close>: \<open>wait_loop\<close> consumes
  its list of wake-ups and returns at the deadline at the latest (\<open>sign_returns\<close>). \<open>lp\<close> answers \<open>None\<close> where the code
  would panic; C30 shows that no request gets there. Key generation tries 64 times, as in the code.
  Six steps bring \<open>sign_step\<close> to an end on every path (\<open>sign_steps_blocking\<close>), each lowers \<open>pc_rank\<close>; every step of the
  service that is not an arrival lowers \<open>to_do\<close> (C12). Machine integers: \<open>u32\<close> and \<open>u64\<close> ceilings and windows are words, \<open>i64\<close> row ids and timestamps are
  integers with \<open>i64_max\<close> explicit and the window subtraction wraps, as in a release build.

  \<^bold>\<open>Not modelled.\<close> Log output; the async runtime and its scheduler beyond interleaving; the internals of
  SQLite, rustls, axum and the cryptographic crates, which are parameters with documented laws;
  zeroisation of secrets in memory; recovery of poisoned mutexes (the binary aborts on a panic);
  environment variables that are not Unicode, which the code treats as absent but leaves in place; a schema
  that was created in part, since the batch that creates it is one statement here;
  the tests and the deployment files.
\<close>

subsection \<open>The running service\<close>

text \<open>
  C1. In every state that a started service reaches, with requests from any clients and background workers
  interleaved in any way and clients going away at any time, the unique indexes and sequences of all
  tables hold, every ledger entry has a 16-byte reference and a 64-byte value, and the key-generation
  service is consistent: free permits, running workers and the permits that requests own add up to the
  configured number, the in-flight map holds exactly the unfinished workers, and a published \<open>Ready\<close>
  means that the group has a key.
\<close>

theorem service_invariant:
  assumes "quiet (io_boot io)" and "main_fn L io env file = (ServingApp s, env', file')"
    and "\<forall>d. file = Some d \<longrightarrow> db_inv d \<and> ledger_wf d"
    and "service_run L UNIV (st_app s, []) (st, ts)"
  shows "\<exists>cfg. fst (from_env L (io_addr io) env) = Ok cfg \<and>
    db_inv (app_db st) \<and> ledger_wf (app_db st) \<and> kg_inv (app_kg st) \<and>
    permits (app_kg st) + busy (app_kg st) + owned_total ts = cfg_keygen_max_concurrent cfg"
proof -
  from assms(2) obtain cfg where cfg: "from_env L (io_addr io) env = (Ok cfg, env')"
    and r: "run L io cfg file = (Ok s, file')"
    by (auto simp: main_fn_def split: if_splits sum.splits prod.splits option.splits start_error.splits)
  have "1 \<le> cfg_keygen_max_concurrent cfg"
    using cfg by (rule from_env_Ok) (use read_rest_checks in blast)
  then have cap: "max (cfg_keygen_max_concurrent cfg) 1 = cfg_keygen_max_concurrent cfg"
    by simp
  note start = started_inv [OF assms(1) r assms(3), unfolded cap]
  have "running_inv (cfg_keygen_max_concurrent cfg) (st, ts)"
    using service_run_inv [OF assms(4) running_inv_start [OF start(1)]] unfolding start(2) .
  with cfg show ?thesis
    by (auto simp: running_inv_def server_inv_def good_def stock_def)
qed

theorem service_invariant_witness:
  "\<exists>s env' st ts. main_fn ref_libs ref_io ref_environ None = (ServingApp s, env', Some empty_tables) \<and>
     service_run ref_libs UNIV (st_app s, []) (st, ts) \<and> length ts = 1 \<and> db_inv (app_db st) \<and> kg_inv (app_kg st)"
proof -
  obtain s env' where m: "main_fn ref_libs ref_io ref_environ None = (ServingApp s, env', Some empty_tables)"
    using ref_main by blast
  let ?req = "\<lparr>extension = Some ref_client, payload = \<lparr>h_method = POST, h_path = ''/key'', h_data = Ok (DGroup ''g'')\<rparr>\<rparr>"
  have "find_route (router (st_app s)) POST ''/key'' = Ok CreateKey"
    by (simp add: find_route_def router_def base_routes_def)
  then obtain rep st where h: "handle ref_libs ref_env (st_app s) ?req = Some (rep, st)"
    by (auto simp: handle_def from_request_parts_def handle_route_def case_prod_unfold Let_def)
  obtain ts where run: "service_run ref_libs UNIV (st_app s, []) (st, ts)" "length ts = 1"
    using served_alone [OF _ _ _ h, of UNIV "[]"] by auto
  with service_invariant [OF _ m _ run(1)] m show ?thesis
    by auto
qed

end
